(* ===== verification/Prelude.thy ===== *)
theory Prelude
  imports Main "HOL-Library.Word" "HOL-Library.AList" "HOL-Library.Sublist"
    "HOL-Library.List_Lexorder" "HOL-Library.Char_ord"
begin

text \<open>
  The vocabulary all components share: bytes and Go strings, Go's \<open>error\<close> values, results of
  fallible calls, Go maps as association lists, \<open>map[int]bool\<close> sets as lists without repetition,
  and the generic lemmas about them.  The collections \<open>go_simps\<close> and \<open>inv_intros\<close> are filled by
  the components.
\<close>

named_theorems go_simps "unfoldings of the standard-library model"
named_theorems inv_intros "introduction rules for the components' invariants"

subsection \<open>Bytes, strings, errors\<close>

type_synonym byte = "8 word"
type_synonym bytes = "byte list"

text \<open>A Go string is a sequence of bytes; so is \<open>string\<close>.  The conversions are \<open>[]byte(s)\<close> and
  \<open>string(b)\<close>.\<close>

definition bytes_of :: "string \<Rightarrow> bytes" where
  "bytes_of s = map (\<lambda>c. word_of_nat (of_char c)) s"

definition string_of :: "bytes \<Rightarrow> string" where
  "string_of b = map (\<lambda>x. char_of (unat x)) b"

text \<open>The one character outside ASCII in the program's messages, as UTF-8.\<close>

definition em_dash :: string where
  "em_dash = [CHR 0xE2, CHR 0x80, CHR 0x94]"

text \<open>Paths are kept cleaned: whether they start at the root, and their components.\<close>

datatype gopath = GoPath (rooted: bool) (comps: "string list")

datatype errno = ENOENT | EEXIST | ENOTDIR | EISDIR | ENOTEMPTY | EINVAL | EIO

text \<open>
  The error values the program tells apart or prints.  \<open>PathError\<close> is \<open>*fs.PathError\<close> (and
  \<open>*os.LinkError\<close>, whose text starts the same way); \<open>ErrNotExist\<close> and \<open>ErrInvalid\<close> are the
  sentinel values the store returns itself; \<open>ErrClosed\<close> is the error of a closed file.
\<close>

datatype go_error =
    Err string
  | PathError string gopath errno
  | ErrNotExist
  | ErrInvalid
  | ErrClosed
  | IO_EOF
  | IO_ErrUnexpectedEOF
  | ErrNet

type_synonym 'a res = "go_error + 'a"

fun is_ok :: "'a res \<Rightarrow> bool" where
  "is_ok (Inr _) = True"
| "is_ok (Inl _) = False"

lemma is_ok_iff: "is_ok r \<longleftrightarrow> (\<exists>x. r = Inr x)"
  by (cases r) auto

lemma not_is_ok_iff: "\<not> is_ok r \<longleftrightarrow> (\<exists>e. r = Inl e)"
  by (cases r) auto

lemma string_bytes_inverse [simp]: "string_of (bytes_of s) = s"
proof -
  have "char_of (unat (word_of_nat (of_char c) :: byte)) = c" for c :: char
  proof -
    have "unat (word_of_nat (of_char c) :: byte) = (of_char c :: nat) mod 256"
      by (simp add: unat_of_nat)
    also have "\<dots> = of_char c" by (simp add: of_char_mod_256)
    finally show ?thesis by simp
  qed
  then show ?thesis by (induction s) (auto simp: bytes_of_def string_of_def)
qed

lemma bytes_string_inverse [simp]: "bytes_of (string_of b) = b"
proof -
  have "(word_of_nat (of_char (char_of (unat x) :: char)) :: byte) = x" for x :: byte
  proof -
    have "unat x < 256" using unsigned_less [of x] by simp
    then have "(of_char (char_of (unat x) :: char) :: nat) = unat x"
      by (simp add: of_char_of)
    then show ?thesis by simp
  qed
  then show ?thesis by (induction b) (auto simp: bytes_of_def string_of_def)
qed

lemma length_bytes_of [simp]: "length (bytes_of s) = length s"
  by (simp add: bytes_of_def)

lemma length_string_of [simp]: "length (string_of b) = length b"
  by (simp add: string_of_def)

lemma bytes_of_inject [simp]: "bytes_of s = bytes_of t \<longleftrightarrow> s = t"
  by (metis string_bytes_inverse)

subsection \<open>Go maps\<close>

text \<open>
  A Go map is an association list with distinct keys.  The list's order stands for nothing: where
  the source ranges over a map, the model takes the iteration order as an argument \<open>iter\<close>, of
  which only \<open>map_iteration\<close> is assumed (the language promises no more).
\<close>

type_synonym ('k, 'v) gomap = "('k \<times> 'v) list"

abbreviation mget :: "('k, 'v) gomap \<Rightarrow> 'k \<Rightarrow> 'v option" where
  "mget m k \<equiv> map_of m k"

abbreviation mput :: "'k \<Rightarrow> 'v \<Rightarrow> ('k, 'v) gomap \<Rightarrow> ('k, 'v) gomap" where
  "mput k v m \<equiv> AList.update k v m"

abbreviation mdel :: "'k \<Rightarrow> ('k, 'v) gomap \<Rightarrow> ('k, 'v) gomap" where
  "mdel k m \<equiv> AList.delete k m"

abbreviation keys_distinct :: "('k, 'v) gomap \<Rightarrow> bool" where
  "keys_distinct m \<equiv> distinct (map fst m)"

definition map_iteration :: "('k list \<Rightarrow> 'k list) \<Rightarrow> bool" where
  "map_iteration iter \<longleftrightarrow> (\<forall>ks. set (iter ks) = set ks \<and> (distinct ks \<longrightarrow> distinct (iter ks)))"

declare map_of_eq_Some_iff [simp del]

lemma map_iteration_set: "map_iteration iter \<Longrightarrow> set (iter ks) = set ks"
  by (simp add: map_iteration_def)

lemma map_iteration_distinct: "map_iteration iter \<Longrightarrow> distinct ks \<Longrightarrow> distinct (iter ks)"
  by (simp add: map_iteration_def)

lemma map_iteration_id [simp]: "map_iteration (\<lambda>ks. ks)"
  by (simp add: map_iteration_def)

lemma map_iteration_rev [simp]: "map_iteration rev"
  by (simp add: map_iteration_def)

lemma mget_mput [simp]: "mget (mput k v m) x = (if x = k then Some v else mget m x)"
  by (simp add: update_conv)

lemma mget_mdel [simp]: "mget (mdel k m) x = (if x = k then None else mget m x)"
  by (simp add: delete_conv)

lemma keys_mput [simp]: "fst ` set (mput k v m) = insert k (fst ` set m)"
  by (simp add: dom_update)

lemma keys_mdel [simp]: "fst ` set (mdel k m) = fst ` set m - {k}"
  by (auto simp: dom_map_of_conv_image_fst [symmetric] split: if_splits)

lemma keys_distinct_mput [intro, simp]: "keys_distinct m \<Longrightarrow> keys_distinct (mput k v m)"
  by (rule distinct_update)

lemma keys_distinct_mdel [intro, simp]: "keys_distinct m \<Longrightarrow> keys_distinct (mdel k m)"
  by (rule distinct_delete)

lemma mget_Some_set: "keys_distinct m \<Longrightarrow> mget m k = Some v \<longleftrightarrow> (k, v) \<in> set m"
  by (rule map_of_eq_Some_iff)

lemma mget_key: "mget m k = Some v \<Longrightarrow> k \<in> fst ` set m"
  by (metis map_of_SomeD fst_conv image_eqI)

lemma mget_None_iff: "mget m k = None \<longleftrightarrow> k \<notin> fst ` set m"
  by (rule map_of_eq_None_iff)

text \<open>Two maps that answer every lookup alike have the same entries, up to order.\<close>

lemma gomap_ext_set:
  assumes "keys_distinct m" "keys_distinct m'" "\<And>k. mget m k = mget m' k"
  shows "set m = set m'"
proof -
  have "(k, v) \<in> set m \<longleftrightarrow> (k, v) \<in> set m'" for k v
    using assms by (metis map_of_eq_Some_iff)
  then show ?thesis by auto
qed

subsection \<open>Index sets: \<open>map[int]bool\<close> whose values are all \<open>true\<close>\<close>

type_synonym intset = "int list"

definition set_index :: "int \<Rightarrow> intset \<Rightarrow> intset" where
  "set_index i s = List.insert i s"

lemma set_set_index [simp]: "set (set_index i s) = insert i (set s)"
  by (simp add: set_index_def)

lemma distinct_set_index [intro, simp]: "distinct s \<Longrightarrow> distinct (set_index i s)"
  by (simp add: set_index_def)

lemma length_eq_card: "distinct xs \<Longrightarrow> length xs = card (set xs)"
  by (simp add: distinct_card)

text \<open>A set of indices below \<open>n\<close> has \<open>n\<close> members only when it is all of them.\<close>

lemma full_index_set:
  assumes "distinct xs" "set xs \<subseteq> {0..<n}"
  shows "int (length xs) \<ge> n \<longleftrightarrow> set xs = {0..<n} \<or> n < 0"
proof
  assume "int (length xs) \<ge> n"
  then show "set xs = {0..<n} \<or> n < 0"
  proof (cases "n < 0")
    case False
    then have "card {0..<n} \<le> card (set xs)"
      using \<open>int (length xs) \<ge> n\<close> assms(1) by (simp add: distinct_card)
    then have "set xs = {0..<n}"
      using assms(2) by (metis card_seteq finite_atLeastLessThan_int)
    then show ?thesis by simp
  qed simp
next
  assume "set xs = {0..<n} \<or> n < 0"
  then show "int (length xs) \<ge> n"
  proof
    assume "set xs = {0..<n}"
    then have "length xs = card {0..<n}" using assms(1) by (metis distinct_card)
    then show ?thesis by simp
  next
    assume "n < 0"
    then show ?thesis by simp
  qed
qed

subsection \<open>Counting the entries of a map\<close>

definition count_vals :: "('v \<Rightarrow> bool) \<Rightarrow> ('k, 'v) gomap \<Rightarrow> nat" where
  "count_vals P m = length (filter (\<lambda>(k, v). P v) m)"

lemma count_vals_new:
  "mget m k = None \<Longrightarrow> count_vals P (mput k v m) = count_vals P m + (if P v then 1 else 0)"
  by (induction m) (auto simp: count_vals_def split: if_splits)

lemma count_vals_same:
  "mget m k = Some v0 \<Longrightarrow> P v = P v0 \<Longrightarrow> count_vals P (mput k v m) = count_vals P m"
  by (induction m) (auto simp: count_vals_def split: if_splits)

lemma count_vals_mdel: "count_vals P (mdel k m) \<le> count_vals P m"
  by (induction m) (auto simp: count_vals_def split: if_splits)

subsection \<open>Machines whose operations keep an invariant\<close>

text \<open>
  The contract between a component and whoever drives it: operations run under the guards its
  callers check, and each keeps the invariant.  Whatever sequence of guarded operations runs, the
  invariant then holds after every one of them.
\<close>

fun guarded_run :: "('op \<Rightarrow> 's \<Rightarrow> 's) \<Rightarrow> ('op \<Rightarrow> 's \<Rightarrow> bool) \<Rightarrow> 'op list \<Rightarrow> 's \<Rightarrow> bool" where
  "guarded_run step guard [] s = True"
| "guarded_run step guard (x # xs) s = (guard x s \<and> guarded_run step guard xs (step x s))"

fun run :: "('op \<Rightarrow> 's \<Rightarrow> 's) \<Rightarrow> 'op list \<Rightarrow> 's \<Rightarrow> 's" where
  "run step [] s = s"
| "run step (x # xs) s = run step xs (step x s)"

lemma run_append: "run step (xs @ ys) s = run step ys (run step xs s)"
  by (induction xs arbitrary: s) auto

locale guarded_machine =
  fixes step :: "'op \<Rightarrow> 's \<Rightarrow> 's"
    and guard :: "'op \<Rightarrow> 's \<Rightarrow> bool"
    and inv :: "'s \<Rightarrow> bool"
  assumes step_inv: "inv s \<Longrightarrow> guard x s \<Longrightarrow> inv (step x s)"
begin

lemma run_inv: "inv s \<Longrightarrow> guarded_run step guard xs s \<Longrightarrow> inv (run step xs s)"
  by (induction xs arbitrary: s) (auto intro: step_inv)

text \<open>A quantity no operation changes (a frame) stays as it was through a whole run.\<close>

lemma run_frame:
  assumes "\<And>s x. inv s \<Longrightarrow> guard x s \<Longrightarrow> allowed x \<Longrightarrow> f (step x s) = f s"
    and "inv s" "guarded_run step guard xs s" "list_all allowed xs"
  shows "f (run step xs s) = f s"
  using assms(2-4) by (induction xs arbitrary: s) (auto simp: assms(1) step_inv)

end

end
