(* ===== verification/GoEncoding.thy ===== *)
theory GoEncoding
  imports GoStrings
begin

text \<open>
  Go's \<open>encoding/base64\<close> (\<open>StdEncoding\<close>, padded, and \<open>RawURLEncoding\<close>, unpadded) and the
  big-endian integers of \<open>encoding/binary\<close>.
\<close>

subsection \<open>Base64\<close>

definition b64_std :: string where
  "b64_std = ''ABCDEFGHIJKLMNOPQRSTUVWXYZabcdefghijklmnopqrstuvwxyz0123456789+/''"

definition b64_url :: string where
  "b64_url = ''ABCDEFGHIJKLMNOPQRSTUVWXYZabcdefghijklmnopqrstuvwxyz0123456789-_''"

definition sextet :: "string \<Rightarrow> nat \<Rightarrow> char" where
  "sextet alpha n = alpha ! n"

fun index_of :: "char \<Rightarrow> string \<Rightarrow> nat option" where
  "index_of c [] = None"
| "index_of c (x # xs) = (if c = x then Some 0 else map_option Suc (index_of c xs))"

definition byte_of_nat :: "nat \<Rightarrow> byte" where
  "byte_of_nat n = word_of_nat n"

text \<open>\<open>EncodeToString\<close>: three bytes make four sextets; one or two left over make two or three.\<close>

fun b64_enc :: "string \<Rightarrow> string \<Rightarrow> bytes \<Rightarrow> string" where
  "b64_enc alpha pad (a # b # c # bs) =
     (let v = unat a * 65536 + unat b * 256 + unat c
      in sextet alpha (v div 262144) # sextet alpha (v div 4096 mod 64)
         # sextet alpha (v div 64 mod 64) # sextet alpha (v mod 64) # b64_enc alpha pad bs)"
| "b64_enc alpha pad [a, b] =
     (let v = unat a * 65536 + unat b * 256
      in sextet alpha (v div 262144) # sextet alpha (v div 4096 mod 64)
         # sextet alpha (v div 64 mod 64) # pad)"
| "b64_enc alpha pad [a] =
     (let v = unat a * 65536
      in sextet alpha (v div 262144) # sextet alpha (v div 4096 mod 64) # pad @ pad)"
| "b64_enc alpha pad [] = []"

definition std_encode :: "bytes \<Rightarrow> string" where
  "std_encode b = b64_enc b64_std ''='' b"

definition rawurl_encode :: "bytes \<Rightarrow> string" where
  "rawurl_encode b = b64_enc b64_url [] b"

text \<open>
  \<open>StdEncoding.DecodeString\<close>: line feeds and carriage returns are skipped, every quantum has four
  characters, only the last may be padded, nothing follows the padding, and (the encoding is not
  strict) the bits a padded quantum leaves over are ignored.
\<close>

fun dec_quanta :: "string \<Rightarrow> bytes option" where
  "dec_quanta [] = Some []"
| "dec_quanta (p # q # r # s # cs) =
     (case (index_of p b64_std, index_of q b64_std) of
        (Some a, Some b) \<Rightarrow>
          (case (index_of r b64_std, index_of s b64_std) of
             (Some c, Some d) \<Rightarrow>
               (let v = a * 262144 + b * 4096 + c * 64 + d
                in map_option (\<lambda>bs. byte_of_nat (v div 65536) # byte_of_nat (v div 256 mod 256)
                                    # byte_of_nat (v mod 256) # bs) (dec_quanta cs))
           | (Some c, None) \<Rightarrow>
               (if s = CHR ''='' \<and> cs = [] then
                  (let v = a * 262144 + b * 4096 + c * 64
                   in Some [byte_of_nat (v div 65536), byte_of_nat (v div 256 mod 256)])
                else None)
           | (None, _) \<Rightarrow>
               (if r = CHR ''='' \<and> s = CHR ''='' \<and> cs = [] then
                  (let v = a * 262144 + b * 4096 in Some [byte_of_nat (v div 65536)])
                else None))
      | _ \<Rightarrow> None)"
| "dec_quanta _ = None"

definition is_newline :: "char \<Rightarrow> bool" where
  "is_newline c \<longleftrightarrow> c = CHR 0x0A \<or> c = CHR 0x0D"

definition std_decode :: "string \<Rightarrow> bytes option" where
  "std_decode s = dec_quanta (filter (\<lambda>c. \<not> is_newline c) s)"

lemma std_table:
  "list_all (\<lambda>n. index_of (sextet b64_std n) b64_std = Some n \<and> \<not> is_newline (sextet b64_std n))
     [0..<64]"
  by code_simp

lemma std_index [simp]: "n < 64 \<Longrightarrow> index_of (sextet b64_std n) b64_std = Some n"
  using std_table by (simp add: list_all_iff)

lemma std_not_newline [simp]: "n < 64 \<Longrightarrow> \<not> is_newline (sextet b64_std n)"
  using std_table by (simp add: list_all_iff)

lemma std_pad [simp]: "index_of (CHR ''='') b64_std = None" "\<not> is_newline (CHR ''='')"
  by code_simp+

lemma byte_of_unat [simp]: "byte_of_nat (unat x) = x"
  by (simp add: byte_of_nat_def)

lemma unat_byte_bound: "unat (x :: byte) < 256"
  using unsigned_less [of x] by simp

lemma base256_digits:
  fixes a b c :: nat
  assumes "b < 256" "c < 256"
  defines "v \<equiv> a * 65536 + b * 256 + c"
  shows "v div 65536 = a" "v div 256 mod 256 = b" "v mod 256 = c"
proof -
  have v: "v = (a * 256 + b) * 256 + c" by (simp add: v_def)
  have 1: "v div 256 = a * 256 + b" using assms(2) by (simp add: v)
  then show "v div 256 mod 256 = b" using assms(1) by simp
  have "v div 65536 = v div 256 div 256" by (simp add: div_mult2_eq [symmetric])
  then show "v div 65536 = a" using 1 assms(1) by simp
  show "v mod 256 = c" using assms(2) unfolding v by (metis mod_less mod_mult_self3)
qed

lemma join_base64:
  "v = x * 64 + r0 \<Longrightarrow> x = y * 64 + r1 \<Longrightarrow> y = z * 64 + r2
     \<Longrightarrow> z * 262144 + r2 * 4096 + r1 * 64 + r0 = (v :: nat)"
  by simp

lemma join_base64_padded: "k = q * 64 + r \<Longrightarrow> q * 262144 + r * 4096 = 4096 * (k :: nat)"
  by simp

lemma div_64_chain: "v div 4096 = v div 64 div 64" "v div 262144 = v div 64 div 64 div (64 :: nat)"
  by (simp_all add: div_mult2_eq [symmetric])

lemma sextets_join:
  "v div 262144 * 262144 + (v div 4096 mod 64) * 4096 + (v div 64 mod 64) * 64 + v mod 64 = (v :: nat)"
  unfolding div_64_chain
  by (rule join_base64 [of v "v div 64" _ "v div 64 div 64"]) (simp_all only: div_mult_mod_eq)

lemma bytes_value_bound:
  "unat (a :: byte) * 65536 + unat (b :: byte) * 256 + unat (c :: byte) < 16777216"
  "unat (a :: byte) * 65536 + unat (b :: byte) * 256 < 16777216"
  using unat_byte_bound [of a] unat_byte_bound [of b] unat_byte_bound [of c] by linarith+

lemma sextets_join_padded:
  fixes v :: nat
  shows "v mod 64 = 0 \<Longrightarrow>
      v div 262144 * 262144 + (v div 4096 mod 64) * 4096 + (v div 64 mod 64) * 64 = v"
    and "v mod 4096 = 0 \<Longrightarrow> v div 262144 * 262144 + (v div 4096 mod 64) * 4096 = v"
proof -
  show "v div 262144 * 262144 + (v div 4096 mod 64) * 4096 + (v div 64 mod 64) * 64 = v"
    if "v mod 64 = 0"
    using sextets_join [of v] that by simp
  assume "v mod 4096 = 0"
  then obtain k where k: "v = 4096 * k" by (metis mod_0_imp_dvd dvdE)
  have "v div 262144 = k div 64" "v div 4096 = k"
    using k by (simp_all add: div_mult2_eq [of _ 4096 64, simplified])
  then show "v div 262144 * 262144 + (v div 4096 mod 64) * 4096 = v"
    using join_base64_padded [of k "k div 64" "k mod 64"] k by simp
qed

lemma b64_enc_no_newline:
  "filter (\<lambda>c. \<not> is_newline c) (b64_enc b64_std ''='' bs) = b64_enc b64_std ''='' bs"
  by (induction b64_std "''=''" bs rule: b64_enc.induct)
     (auto simp: Let_def unat_byte_bound bytes_value_bound
        intro!: std_not_newline less_mult_imp_div_less)

lemma top_sextet: "v < 16777216 \<Longrightarrow> v div 262144 < (64 :: nat)"
  by (simp add: less_mult_imp_div_less)

lemma dec_quantum_full:
  assumes "v < 16777216"
  shows "dec_quanta (sextet b64_std (v div 262144) # sextet b64_std (v div 4096 mod 64)
      # sextet b64_std (v div 64 mod 64) # sextet b64_std (v mod 64) # cs) =
    map_option (\<lambda>bs. byte_of_nat (v div 65536) # byte_of_nat (v div 256 mod 256)
      # byte_of_nat (v mod 256) # bs) (dec_quanta cs)"
  using top_sextet [OF assms] sextets_join [of v] by (simp add: Let_def)

lemma dec_quantum_pad1:
  assumes "v < 16777216" "v mod 64 = 0"
  shows "dec_quanta [sextet b64_std (v div 262144), sextet b64_std (v div 4096 mod 64),
      sextet b64_std (v div 64 mod 64), CHR ''=''] =
    Some [byte_of_nat (v div 65536), byte_of_nat (v div 256 mod 256)]"
  using top_sextet [OF assms(1)] sextets_join_padded(1) [OF assms(2)] by (simp add: Let_def)

lemma dec_quantum_pad2:
  assumes "v < 16777216" "v mod 4096 = 0"
  shows "dec_quanta [sextet b64_std (v div 262144), sextet b64_std (v div 4096 mod 64),
      CHR ''='', CHR ''=''] = Some [byte_of_nat (v div 65536)]"
  using top_sextet [OF assms(1)] sextets_join_padded(2) [OF assms(2)] by (simp add: Let_def)

lemma dec_quanta_enc: "dec_quanta (b64_enc b64_std ''='' bs) = Some bs"
proof (induction b64_std "''=''" bs rule: b64_enc.induct)
  case (1 a b c bs)
  then show ?case unfolding b64_enc.simps Let_def
    by (simp only: dec_quantum_full [OF bytes_value_bound(1)] base256_digits unat_byte_bound
          byte_of_unat option.map)
next
  case (2 a b)
  have "unat a * 65536 + unat b * 256 = (unat a * 1024 + unat b * 4) * 64" by simp
  then have "(unat a * 65536 + unat b * 256) mod 64 = 0" by (simp only: mod_mult_self2_is_0)
  then show ?case unfolding b64_enc.simps Let_def append_Cons append_Nil
    using base256_digits [of "unat b" 0 "unat a"] unat_byte_bound [of b]
    by (subst dec_quantum_pad1 [OF bytes_value_bound(2)]) simp_all
next
  case (3 a)
  have "unat a * 65536 = (unat a * 16) * 4096" by simp
  then have "unat a * 65536 mod 4096 = 0" by (simp only: mod_mult_self2_is_0)
  moreover have "unat a * 65536 < 16777216" using unat_byte_bound [of a] by simp
  ultimately show ?case unfolding b64_enc.simps Let_def append_Cons append_Nil
    using base256_digits [of 0 0 "unat a"]
    by (subst dec_quantum_pad2) simp_all
next
  case 4
  then show ?case by simp
qed

theorem std_decode_encode [simp]: "std_decode (std_encode b) = Some b"
  by (simp add: std_decode_def std_encode_def b64_enc_no_newline dec_quanta_enc)

lemma std_encode_inject [simp]: "std_encode a = std_encode b \<longleftrightarrow> a = b"
  by (metis option.inject std_decode_encode)

lemma rawurl_chars:
  "c \<in> set (rawurl_encode b) \<Longrightarrow> c \<in> set b64_url"
proof -
  have s: "n < 64 \<Longrightarrow> sextet b64_url n \<in> set b64_url" for n
    by (simp only: sextet_def b64_url_def) (rule nth_mem, simp)
  show "c \<in> set (rawurl_encode b) \<Longrightarrow> c \<in> set b64_url"
    unfolding rawurl_encode_def
    by (induction b64_url "[] :: string" b rule: b64_enc.induct)
       (auto simp: Let_def unat_byte_bound bytes_value_bound intro!: s less_mult_imp_div_less
          simp del: sextet_def)
qed

lemma std_chars: "c \<in> set (std_encode b) \<Longrightarrow> c \<in> insert (CHR ''='') (set b64_std)"
proof -
  have s: "n < 64 \<Longrightarrow> sextet b64_std n \<in> set b64_std" for n
    by (simp only: sextet_def b64_std_def) (rule nth_mem, simp)
  show "c \<in> set (std_encode b) \<Longrightarrow> c \<in> insert (CHR ''='') (set b64_std)"
    unfolding std_encode_def
    by (induction b64_std "''=''" b rule: b64_enc.induct)
       (auto simp: Let_def unat_byte_bound bytes_value_bound intro!: s less_mult_imp_div_less
          simp del: sextet_def)
qed

lemma length_rawurl_encode:
  "length (rawurl_encode b) = (length b div 3) * 4 + (if length b mod 3 = 0 then 0 else length b mod 3 + 1)"
  unfolding rawurl_encode_def
  by (induction b64_url "[] :: string" b rule: b64_enc.induct)
     (auto simp: Let_def div_add_self1)

subsection \<open>Big-endian integers\<close>

fun be_put :: "nat \<Rightarrow> nat \<Rightarrow> bytes" where
  "be_put 0 n = []"
| "be_put (Suc k) n = byte_of_nat (n div 256 ^ k mod 256) # be_put k n"

definition be_get :: "bytes \<Rightarrow> nat" where
  "be_get bs = foldl (\<lambda>acc b. acc * 256 + unat b) 0 bs"

lemma length_be_put [simp]: "length (be_put k n) = k"
  by (induction k) auto

lemma unat_byte_of_nat [simp]: "unat (byte_of_nat n) = n mod 256"
  by (simp add: byte_of_nat_def unat_of_nat)

lemma be_get_put_acc:
  "foldl (\<lambda>acc b. acc * 256 + unat b) acc (be_put k n) = acc * 256 ^ k + n mod 256 ^ k"
proof (induction k arbitrary: acc)
  case 0
  then show ?case by simp
next
  case (Suc k)
  have "n mod 256 ^ Suc k = (n div 256 ^ k mod 256) * 256 ^ k + n mod 256 ^ k"
    using mod_mult2_eq [of n "256 ^ k" 256] by (simp add: mult.commute)
  then show ?case using Suc by (simp add: algebra_simps)
qed

theorem be_get_put: "n < 256 ^ k \<Longrightarrow> be_get (be_put k n) = n"
  by (simp add: be_get_def be_get_put_acc)

lemma be_get_bound: "be_get bs < 256 ^ length bs"
proof -
  have "foldl (\<lambda>acc b. acc * 256 + unat b) acc bs < (acc + 1) * 256 ^ length bs" for acc
  proof (induction bs arbitrary: acc)
    case Nil
    then show ?case by simp
  next
    case (Cons b bs)
    have "(acc * 256 + unat b + 1) * 256 ^ length bs \<le> (acc * 256 + 256) * 256 ^ length bs"
      using unat_byte_bound [of b] by (intro mult_le_mono1) simp
    also have "\<dots> = (acc + 1) * 256 ^ length (b # bs)" by (simp add: algebra_simps)
    finally show ?case using Cons.IH [of "acc * 256 + unat b"] by simp
  qed
  from this [of 0] show ?thesis by (simp add: be_get_def)
qed

end
