(* ===== verification/FileSys.thy ===== *)
theory FileSys
  imports GoEncoding
begin

text \<open>
  Go's \<open>path/filepath\<close> and the operations of \<open>os\<close> the program calls, over a tree of directories
  and files.  Paths are kept cleaned (\<open>gopath\<close>).  Every call that can fail for a reason outside
  the program (a full disk, an I/O error) takes the next entry of a list of faults: \<open>NoFault\<close>,
  \<open>FailNow\<close> (nothing happened) or \<open>FailAfter k\<close> (it failed half-way: \<open>k\<close> bytes written, \<open>k\<close>
  directories made, \<open>k\<close> files removed).  The list is arbitrary, so a theorem over every list
  covers every pattern of failures; the empty list is a disk that works.
\<close>

subsection \<open>\<open>filepath.Clean\<close> and \<open>filepath.Join\<close>\<close>

definition clean_step :: "bool \<Rightarrow> string list \<Rightarrow> string \<Rightarrow> string list" where
  "clean_step r st seg =
     (if seg = [] \<or> seg = ''.'' then st
      else if seg = ''..'' then
        (if st = [] then (if r then [] else [''..''])
         else if last st = ''..'' then st @ [''..''] else butlast st)
      else st @ [seg])"

definition starts_with_slash :: "string \<Rightarrow> bool" where
  "starts_with_slash s \<longleftrightarrow> (case s of [] \<Rightarrow> False | c # _ \<Rightarrow> c = CHR ''/'')"

definition clean_path :: "string \<Rightarrow> gopath" where
  "clean_path s = GoPath (starts_with_slash s)
     (foldl (clean_step (starts_with_slash s)) [] (split_on (CHR ''/'') s))"

text \<open>Joining a further element onto a cleaned path, and \<open>filepath.Join(a, b)\<close> as documented:
  empty elements are ignored and the rest is cleaned after joining with a slash.\<close>

definition join_path :: "gopath \<Rightarrow> string \<Rightarrow> gopath" where
  "join_path p s = GoPath (rooted p) (foldl (clean_step (rooted p)) (comps p) (split_on (CHR ''/'') s))"

definition filepath_join :: "string \<Rightarrow> string \<Rightarrow> gopath" where
  "filepath_join a b = (if a = [] then clean_path b else clean_path (a @ CHR ''/'' # b))"

lemma filepath_join_eq: "a \<noteq> [] \<Longrightarrow> filepath_join a b = join_path (clean_path a) b"
  by (simp add: filepath_join_def join_path_def clean_path_def split_on_append
      starts_with_slash_def split: list.split)

definition child :: "gopath \<Rightarrow> string \<Rightarrow> gopath" where
  "child p n = GoPath (rooted p) (comps p @ [n])"

definition parent :: "gopath \<Rightarrow> gopath" where
  "parent p = GoPath (rooted p) (butlast (comps p))"

definition base :: "gopath \<Rightarrow> string" where
  "base p = last (comps p)"

definition plain_name :: "string \<Rightarrow> bool" where
  "plain_name n \<longleftrightarrow> n \<noteq> [] \<and> n \<noteq> ''.'' \<and> n \<noteq> ''..'' \<and> CHR ''/'' \<notin> set n"

lemma join_path_child: "plain_name n \<Longrightarrow> join_path p n = child p n"
  by (simp add: join_path_def child_def plain_name_def split_on_single clean_step_def)

lemma child_simps [simp]:
  "comps (child p n) = comps p @ [n]" "rooted (child p n) = rooted p"
  "parent (child p n) = p" "base (child p n) = n" "child p n \<noteq> p" "p \<noteq> child p n"
  by (auto simp: child_def parent_def base_def dest: arg_cong [of _ _ comps])

lemma child_inject [simp]: "child p n = child q m \<longleftrightarrow> p = q \<and> n = m"
  by (auto simp: child_def intro: gopath.expand)

lemma child_parent_base: "comps p \<noteq> [] \<Longrightarrow> child (parent p) (base p) = p"
  by (cases p) (simp add: child_def parent_def base_def)

text \<open>\<open>below p q\<close>: \<open>q\<close> is \<open>p\<close> or lies in its tree.\<close>

definition below :: "gopath \<Rightarrow> gopath \<Rightarrow> bool" where
  "below p q \<longleftrightarrow> rooted p = rooted q \<and> prefix (comps p) (comps q)"

lemma below_refl [simp]: "below p p"
  by (simp add: below_def)

lemma below_trans: "below p q \<Longrightarrow> below q r \<Longrightarrow> below p r"
  by (auto simp: below_def intro: prefix_order.trans)

lemma below_child [simp]: "below p (child p n)"
  by (simp add: below_def)

lemma below_child_of: "below p q \<Longrightarrow> below p (child q n)"
  by (rule below_trans [of p q]) auto

lemma below_child_inj:
  assumes "below (child p n) q" "below (child p m) q"
  shows "n = m"
proof -
  obtain xs ys where "comps q = comps p @ n # xs" "comps q = comps p @ m # ys"
    using assms by (auto simp: below_def prefix_def)
  then show ?thesis by simp
qed

lemma below_child_other: "below (child p n) q \<Longrightarrow> n \<noteq> m \<Longrightarrow> \<not> below (child p m) q"
  using below_child_inj by auto

lemma not_below_child_self [simp]: "\<not> below (child p n) p"
  by (auto simp: below_def prefix_def)

lemma below_child_iff: "below (child p n) (child p m) \<longleftrightarrow> n = m"
  by (auto simp: below_def)

lemma below_child_child: "below (child p n) (child (child p m) k) \<longleftrightarrow> n = m"
  by (auto simp: below_def)

text \<open>The textual form of a path, as error messages print it.\<close>

fun slash_join :: "string list \<Rightarrow> string" where
  "slash_join [] = []"
| "slash_join [x] = x"
| "slash_join (x # y # xs) = x @ CHR ''/'' # slash_join (y # xs)"

definition path_string :: "gopath \<Rightarrow> string" where
  "path_string p =
     (if rooted p then CHR ''/'' # slash_join (comps p)
      else if comps p = [] then ''.'' else slash_join (comps p))"

fun errno_text :: "errno \<Rightarrow> string" where
  "errno_text ENOENT = ''no such file or directory''"
| "errno_text EEXIST = ''file exists''"
| "errno_text ENOTDIR = ''not a directory''"
| "errno_text EISDIR = ''is a directory''"
| "errno_text ENOTEMPTY = ''directory not empty''"
| "errno_text EINVAL = ''invalid argument''"
| "errno_text EIO = ''input/output error''"

text \<open>\<open>err.Error()\<close>.\<close>

fun error_text :: "go_error \<Rightarrow> string" where
  "error_text (Err s) = s"
| "error_text (PathError op p e) = op @ '' '' @ path_string p @ '': '' @ errno_text e"
| "error_text ErrNotExist = ''file does not exist''"
| "error_text ErrInvalid = ''invalid argument''"
| "error_text ErrClosed = ''file already closed''"
| "error_text IO_EOF = ''EOF''"
| "error_text IO_ErrUnexpectedEOF = ''unexpected EOF''"
| "error_text ErrNet = ''write: broken pipe''"

text \<open>\<open>os.IsNotExist\<close>.\<close>

fun is_not_exist :: "go_error \<Rightarrow> bool" where
  "is_not_exist (PathError _ _ ENOENT) = True"
| "is_not_exist ErrNotExist = True"
| "is_not_exist _ = False"

subsection \<open>The tree\<close>

datatype node = Dir | File bytes

type_synonym filesys = "(gopath, node) gomap"

datatype fault = NoFault | FailNow | FailAfter nat

record world =
  w_fs :: filesys
  w_faults :: "fault list"

definition next_fault :: "world \<Rightarrow> fault \<times> world" where
  "next_fault w = (case w_faults w of [] \<Rightarrow> (NoFault, w) | f # fs \<Rightarrow> (f, w\<lparr>w_faults := fs\<rparr>))"

text \<open>The root and the working directory are always there.\<close>

definition fs_get :: "filesys \<Rightarrow> gopath \<Rightarrow> node option" where
  "fs_get fs p = (if comps p = [] then Some Dir else mget fs p)"

definition parent_errno :: "filesys \<Rightarrow> gopath \<Rightarrow> errno option" where
  "parent_errno fs p =
     (case fs_get fs (parent p) of Some Dir \<Rightarrow> None | Some (File _) \<Rightarrow> Some ENOTDIR
      | None \<Rightarrow> Some ENOENT)"

definition is_file :: "node \<Rightarrow> bool" where
  "is_file n \<longleftrightarrow> n \<noteq> Dir"

definition children :: "filesys \<Rightarrow> gopath \<Rightarrow> (string \<times> node) list" where
  "children fs p = map (\<lambda>(q, n). (base q, n)) (filter (\<lambda>(q, n). comps q \<noteq> [] \<and> parent q = p) fs)"

definition prefixes_of :: "gopath \<Rightarrow> gopath list" where
  "prefixes_of p = map (\<lambda>k. GoPath (rooted p) (take (Suc k) (comps p))) [0..<length (comps p)]"

subsection \<open>Operations\<close>

definition MkdirAll :: "gopath \<Rightarrow> world \<Rightarrow> unit res \<times> world" where
  "MkdirAll p w0 =
     (let (f, w) = next_fault w0; fs = w_fs w;
          missing = filter (\<lambda>q. mget fs q = None) (prefixes_of p);
          make = (\<lambda>ds. w\<lparr>w_fs := fold (\<lambda>q. mput q Dir) ds fs\<rparr>)
      in if \<exists>q \<in> set (prefixes_of p). mget fs q \<noteq> None \<and> mget fs q \<noteq> Some Dir
         then (Inl (PathError ''mkdir'' p ENOTDIR), w)
         else (case f of
             NoFault \<Rightarrow> (Inr (), make missing)
           | FailNow \<Rightarrow> (Inl (PathError ''mkdir'' p EIO), w)
           | FailAfter k \<Rightarrow> (Inl (PathError ''mkdir'' p EIO), make (take k missing))))"

text \<open>\<open>os.ReadDir\<close>: the entries sorted by name, with \<open>IsDir()\<close>.\<close>

definition ReadDir :: "gopath \<Rightarrow> world \<Rightarrow> (string \<times> bool) list res \<times> world" where
  "ReadDir p w0 =
     (let (f, w) = next_fault w0; fs = w_fs w
      in if f \<noteq> NoFault then (Inl (PathError ''open'' p EIO), w)
         else (case fs_get fs p of
             Some Dir \<Rightarrow> (Inr (sort_key fst (map (\<lambda>(n, x). (n, x = Dir)) (children fs p))), w)
           | Some (File _) \<Rightarrow> (Inl (PathError ''open'' p ENOTDIR), w)
           | None \<Rightarrow> (Inl (PathError ''open'' p ENOENT), w)))"

definition ReadFile :: "gopath \<Rightarrow> world \<Rightarrow> bytes res \<times> world" where
  "ReadFile p w0 =
     (let (f, w) = next_fault w0
      in if f \<noteq> NoFault then (Inl (PathError ''read'' p EIO), w)
         else (case fs_get (w_fs w) p of
             Some (File d) \<Rightarrow> (Inr d, w)
           | Some Dir \<Rightarrow> (Inl (PathError ''read'' p EISDIR), w)
           | None \<Rightarrow> (Inl (PathError ''open'' p ENOENT), w)))"

definition WriteFile :: "gopath \<Rightarrow> bytes \<Rightarrow> world \<Rightarrow> unit res \<times> world" where
  "WriteFile p d w0 =
     (let (f, w) = next_fault w0; fs = w_fs w
      in (case parent_errno fs p of
            Some e \<Rightarrow> (Inl (PathError ''open'' p e), w)
          | None \<Rightarrow>
              (if fs_get fs p = Some Dir then (Inl (PathError ''open'' p EISDIR), w)
               else (case f of
                   NoFault \<Rightarrow> (Inr (), w\<lparr>w_fs := mput p (File d) fs\<rparr>)
                 | FailNow \<Rightarrow> (Inl (PathError ''open'' p EIO), w)
                 | FailAfter k \<Rightarrow> (Inl (PathError ''write'' p EIO),
                                   w\<lparr>w_fs := mput p (File (take k d)) fs\<rparr>)))))"

text \<open>\<open>os.Rename\<close>: an existing directory is never replaced; a file replaces a file; a directory
  moves with all that lies in it.\<close>

definition move_tree :: "gopath \<Rightarrow> gopath \<Rightarrow> filesys \<Rightarrow> filesys" where
  "move_tree old new fs =
     map (\<lambda>(q, n). (if below old q then GoPath (rooted new) (comps new @ drop (length (comps old)) (comps q))
                    else q, n)) fs"

definition Rename :: "gopath \<Rightarrow> gopath \<Rightarrow> world \<Rightarrow> unit res \<times> world" where
  "Rename old new w0 =
     (let (f, w) = next_fault w0; fs = w_fs w; fail = (\<lambda>e. (Inl (PathError ''rename'' old e), w))
      in (case fs_get fs old of
            None \<Rightarrow> fail ENOENT
          | Some n \<Rightarrow>
             (case parent_errno fs new of
                Some e \<Rightarrow> fail e
              | None \<Rightarrow>
                 (case fs_get fs new of
                    Some Dir \<Rightarrow> fail EEXIST
                  | target \<Rightarrow>
                     (if f \<noteq> NoFault then fail EIO
                      else (case n of
                          File d \<Rightarrow> (Inr (), w\<lparr>w_fs := mput new (File d) (mdel old fs)\<rparr>)
                        | Dir \<Rightarrow>
                           (if target \<noteq> None then fail ENOTDIR
                            else if below old new then fail EINVAL
                            else (Inr (), w\<lparr>w_fs := move_tree old new fs\<rparr>))))))))"

definition Remove :: "gopath \<Rightarrow> world \<Rightarrow> unit res \<times> world" where
  "Remove p w0 =
     (let (f, w) = next_fault w0; fs = w_fs w; fail = (\<lambda>e. (Inl (PathError ''remove'' p e), w))
      in (case fs_get fs p of
            None \<Rightarrow> fail ENOENT
          | Some n \<Rightarrow>
             (if comps p = [] \<or> (n = Dir \<and> children fs p \<noteq> []) then fail ENOTEMPTY
              else if f \<noteq> NoFault then fail EIO
              else (Inr (), w\<lparr>w_fs := mdel p fs\<rparr>))))"

definition RemoveAll :: "gopath \<Rightarrow> world \<Rightarrow> unit res \<times> world" where
  "RemoveAll p w0 =
     (let (f, w) = next_fault w0; fs = w_fs w
      in if comps p = [] \<and> \<not> rooted p then (Inl (PathError ''RemoveAll'' p EINVAL), w)
         else (case f of
            NoFault \<Rightarrow> (Inr (), w\<lparr>w_fs := filter (\<lambda>(q, n). \<not> below p q) fs\<rparr>)
          | FailNow \<Rightarrow> (Inl (PathError ''unlinkat'' p EIO), w)
          | FailAfter k \<Rightarrow>
             (let gone = take k (map fst (filter (\<lambda>(q, n). is_file n \<and> below p q) fs))
              in (Inl (PathError ''unlinkat'' p EIO),
                  w\<lparr>w_fs := filter (\<lambda>(q, n). q \<notin> set gone) fs\<rparr>))))"

text \<open>
  \<open>os.OpenFile\<close> with \<open>O_CREATE|O_WRONLY|O_APPEND\<close>, \<open>Stat().Size()\<close>, \<open>Write\<close> and \<open>Close\<close> of the
  file it returns.  The handle names its file by path: the program renames only closed files.
\<close>

record os_file =
  f_path :: gopath
  f_open :: bool

definition OpenAppend :: "gopath \<Rightarrow> world \<Rightarrow> os_file res \<times> world" where
  "OpenAppend p w0 =
     (let (f, w) = next_fault w0; fs = w_fs w; h = \<lparr>f_path = p, f_open = True\<rparr>
      in (case parent_errno fs p of
            Some e \<Rightarrow> (Inl (PathError ''open'' p e), w)
          | None \<Rightarrow>
             (if fs_get fs p = Some Dir then (Inl (PathError ''open'' p EISDIR), w)
              else if f \<noteq> NoFault then (Inl (PathError ''open'' p EIO), w)
              else (Inr h, (if mget fs p = None then w\<lparr>w_fs := mput p (File []) fs\<rparr> else w)))))"

definition file_size :: "filesys \<Rightarrow> gopath \<Rightarrow> nat" where
  "file_size fs p = (case mget fs p of Some (File d) \<Rightarrow> length d | _ \<Rightarrow> 0)"

definition Stat_size :: "os_file \<Rightarrow> world \<Rightarrow> nat res \<times> world" where
  "Stat_size h w0 =
     (let (f, w) = next_fault w0
      in if \<not> f_open h then (Inl ErrClosed, w)
         else if f \<noteq> NoFault then (Inl (PathError ''stat'' (f_path h) EIO), w)
         else (Inr (file_size (w_fs w) (f_path h)), w))"

text \<open>\<open>File.Write\<close> returns how many bytes were written, with an error when not all were.\<close>

definition append_bytes :: "gopath \<Rightarrow> bytes \<Rightarrow> filesys \<Rightarrow> filesys" where
  "append_bytes p d fs =
     mput p (File ((case mget fs p of Some (File x) \<Rightarrow> x | _ \<Rightarrow> []) @ d)) fs"

definition File_Write :: "os_file \<Rightarrow> bytes \<Rightarrow> world \<Rightarrow> nat \<times> go_error option \<times> world" where
  "File_Write h d w0 =
     (let (f, w) = next_fault w0
      in if \<not> f_open h then (0, Some ErrClosed, w)
         else (case f of
             NoFault \<Rightarrow> (length d, None, w\<lparr>w_fs := append_bytes (f_path h) d (w_fs w)\<rparr>)
           | FailNow \<Rightarrow> (0, Some (PathError ''write'' (f_path h) EIO), w)
           | FailAfter k \<Rightarrow>
              (let t = take k d
               in (length t, Some (PathError ''write'' (f_path h) EIO),
                   w\<lparr>w_fs := append_bytes (f_path h) t (w_fs w)\<rparr>))))"

definition File_Close :: "os_file \<Rightarrow> world \<Rightarrow> unit res \<times> os_file \<times> world" where
  "File_Close h w0 =
     (let (f, w) = next_fault w0
      in if \<not> f_open h then (Inl ErrClosed, h, w)
         else (if f = NoFault then Inr () else Inl (PathError ''close'' (f_path h) EIO),
               h\<lparr>f_open := False\<rparr>, w))"

lemmas fs_op_defs = MkdirAll_def ReadDir_def ReadFile_def WriteFile_def Rename_def Remove_def
  RemoveAll_def OpenAppend_def Stat_size_def File_Write_def File_Close_def

subsection \<open>A disk that works\<close>

text \<open>The operations' effects where no fault is pending.\<close>

lemma next_fault_simps [simp]:
  "w_faults w = [] \<Longrightarrow> next_fault w = (NoFault, w)"
  "w_fs (snd (next_fault w)) = w_fs w"
  by (auto simp: next_fault_def split: list.splits)

lemma next_fault_fs: "next_fault w = (f, w') \<Longrightarrow> w_fs w' = w_fs w"
  by (metis next_fault_simps(2) snd_conv)

lemma fs_get_simps [simp]: "comps p = [] \<Longrightarrow> fs_get fs p = Some Dir"
  "fs_get fs (child p n) = mget fs (child p n)"
  by (auto simp: fs_get_def)

lemma parent_errno_None: "parent_errno fs p = None \<longleftrightarrow> fs_get fs (parent p) = Some Dir"
  by (auto simp: parent_errno_def split: option.splits node.splits)

lemma ReadFile_ok:
  "w_faults w = [] \<Longrightarrow> fs_get (w_fs w) p = Some (File d) \<Longrightarrow> ReadFile p w = (Inr d, w)"
  by (simp add: ReadFile_def)

lemma ReadFile_missing:
  "w_faults w = [] \<Longrightarrow> fs_get (w_fs w) p = None
     \<Longrightarrow> ReadFile p w = (Inl (PathError ''open'' p ENOENT), w)"
  by (simp add: ReadFile_def)

lemma WriteFile_ok:
  assumes "w_faults w = []" "fs_get (w_fs w) (parent p) = Some Dir" "fs_get (w_fs w) p \<noteq> Some Dir"
  shows "WriteFile p d w = (Inr (), w\<lparr>w_fs := mput p (File d) (w_fs w)\<rparr>)"
  using assms by (simp add: WriteFile_def parent_errno_None [THEN iffD2] Let_def)

lemma Rename_ok:
  assumes "w_faults w = []" "fs_get (w_fs w) old = Some (File d)"
    "fs_get (w_fs w) (parent new) = Some Dir" "fs_get (w_fs w) new \<noteq> Some Dir"
  shows "Rename old new w = (Inr (), w\<lparr>w_fs := mput new (File d) (mdel old (w_fs w))\<rparr>)"
proof -
  have "parent_errno (w_fs w) new = None" using assms by (simp add: parent_errno_None)
  then show ?thesis using assms
    by (cases "fs_get (w_fs w) new") (auto simp: Rename_def Let_def split: node.splits)
qed

lemma RemoveAll_ok:
  "w_faults w = [] \<Longrightarrow> comps p \<noteq> []
     \<Longrightarrow> RemoveAll p w = (Inr (), w\<lparr>w_fs := filter (\<lambda>(q, n). \<not> below p q) (w_fs w)\<rparr>)"
  by (simp add: RemoveAll_def)

lemma mget_filter_key: "mget (filter (\<lambda>(q, n). P q) fs) q = (if P q then mget fs q else None)"
  by (induction fs) auto

lemma mget_filter_below [simp]:
  "mget (filter (\<lambda>(q, n). \<not> below p q) fs) q = (if below p q then None else mget fs q)"
  by (induction fs) auto

lemma fold_mput_Dir: "mget (fold (\<lambda>q. mput q Dir) ds fs) q = (if q \<in> set ds then Some Dir else mget fs q)"
  by (induction ds arbitrary: fs) auto

subsection \<open>What an operation leaves alone\<close>

text \<open>
  Whatever the faults, an operation changes the tree only at the paths it was given: the frame
  facts the components' isolation properties rest on.
\<close>

lemma ReadDir_fs [simp]: "w_fs (snd (ReadDir p w)) = w_fs w"
  by (auto simp: ReadDir_def Let_def split: prod.splits option.splits node.splits
      dest: next_fault_fs)

lemma ReadFile_fs [simp]: "w_fs (snd (ReadFile p w)) = w_fs w"
  by (auto simp: ReadFile_def Let_def split: prod.splits option.splits node.splits
      dest: next_fault_fs)

lemma ReadFile_value: "ReadFile p w = (Inr d, w') \<Longrightarrow> fs_get (w_fs w) p = Some (File d)"
  by (auto simp: ReadFile_def Let_def split: prod.splits option.splits node.splits if_splits
      dest: next_fault_fs)

lemma WriteFile_frame: "q \<noteq> p \<Longrightarrow> mget (w_fs (snd (WriteFile p d w))) q = mget (w_fs w) q"
  by (auto simp: WriteFile_def Let_def split: prod.splits option.splits fault.splits
      dest: next_fault_fs)

lemma Rename_frame:
  assumes "fs_get (w_fs w) old \<noteq> Some Dir" "q \<noteq> old" "q \<noteq> new"
  shows "mget (w_fs (snd (Rename old new w))) q = mget (w_fs w) q"
  using assms
  by (auto simp: Rename_def Let_def split: prod.splits option.splits node.splits
      dest: next_fault_fs)

lemma MkdirAll_frame:
  "mget (w_fs (snd (MkdirAll p w))) q =
     (if mget (w_fs w) q = None \<and> mget (w_fs (snd (MkdirAll p w))) q \<noteq> None then Some Dir
      else mget (w_fs w) q)"
  by (auto simp: MkdirAll_def Let_def fold_mput_Dir split: prod.splits fault.splits if_splits
      dest: next_fault_fs set_take_subset [THEN subsetD])

lemma RemoveAll_frame:
  assumes "\<not> below p q"
  shows "mget (w_fs (snd (RemoveAll p w))) q = mget (w_fs w) q"
proof -
  have "q \<notin> set (take k (map fst (filter (\<lambda>(q, n). is_file n \<and> below p q) fs)))" for k fs
    using assms by (auto dest!: in_set_takeD)
  then show ?thesis using assms
    by (auto simp: RemoveAll_def Let_def mget_filter_key [where P = "\<lambda>q. q \<notin> set _"]
        split: prod.splits fault.splits dest: next_fault_fs)
qed

lemma RemoveAll_shrinks:
  "mget (w_fs (snd (RemoveAll p w))) q = mget (w_fs w) q
     \<or> mget (w_fs (snd (RemoveAll p w))) q = None"
  by (auto simp: RemoveAll_def Let_def mget_filter_key [where P = "\<lambda>q. q \<notin> set _"]
      split: prod.splits fault.splits dest: next_fault_fs)

text \<open>Keys stay distinct.\<close>

lemma keys_distinct_filter: "keys_distinct fs \<Longrightarrow> keys_distinct (filter P fs)"
  by (rule distinct_map_filter)

lemma keys_distinct_fold_mput: "keys_distinct fs \<Longrightarrow> keys_distinct (fold (\<lambda>q. mput q n) ds fs)"
  by (induction ds arbitrary: fs) auto

lemma WriteFile_distinct:
  "keys_distinct (w_fs w) \<Longrightarrow> keys_distinct (w_fs (snd (WriteFile p d w)))"
  by (auto simp: WriteFile_def Let_def split: prod.splits option.splits fault.splits
      dest: next_fault_fs)

lemma MkdirAll_distinct:
  "keys_distinct (w_fs w) \<Longrightarrow> keys_distinct (w_fs (snd (MkdirAll p w)))"
  by (auto simp: MkdirAll_def Let_def split: prod.splits fault.splits dest: next_fault_fs
      intro!: keys_distinct_fold_mput)

lemma RemoveAll_distinct:
  "keys_distinct (w_fs w) \<Longrightarrow> keys_distinct (w_fs (snd (RemoveAll p w)))"
  by (auto simp: RemoveAll_def Let_def split: prod.splits fault.splits dest: next_fault_fs
      intro!: keys_distinct_filter)

lemma Rename_distinct:
  assumes "keys_distinct (w_fs w)" "fs_get (w_fs w) old \<noteq> Some Dir"
  shows "keys_distinct (w_fs (snd (Rename old new w)))"
  using assms
  by (auto simp: Rename_def Let_def split: prod.splits option.splits node.splits
      dest: next_fault_fs)

text \<open>What a directory lists.\<close>

lemma children_iff:
  "keys_distinct fs \<Longrightarrow> (n, x) \<in> set (children fs p) \<longleftrightarrow> mget fs (child p n) = Some x"
proof -
  assume d: "keys_distinct fs"
  have "(n, x) \<in> set (children fs p) \<longleftrightarrow> (child p n, x) \<in> set fs"
    by (force simp: children_def child_parent_base)
  then show ?thesis using d by (simp add: mget_Some_set)
qed

lemma distinct_children:
  assumes "keys_distinct fs"
  shows "distinct (map fst (children fs p))"
proof -
  have *: "distinct (filter (\<lambda>q. comps q \<noteq> [] \<and> parent q = p) (map fst fs))"
    using assms by simp
  have inj: "inj_on base (set (filter (\<lambda>q. comps q \<noteq> [] \<and> parent q = p) (map fst fs)))"
    by (rule inj_onI) (metis (mono_tags, lifting) child_parent_base filter_set mem_Collect_eq set_filter)
  have "map fst (children fs p) = map base (filter (\<lambda>q. comps q \<noteq> [] \<and> parent q = p) (map fst fs))"
    by (simp add: children_def filter_map comp_def case_prod_unfold)
  then show ?thesis using * inj by (simp add: distinct_map)
qed

lemma ReadDir_ok:
  assumes "w_faults w = []" "fs_get (w_fs w) p = Some Dir"
  shows "ReadDir p w = (Inr (sort_key fst (map (\<lambda>(n, x). (n, x = Dir)) (children (w_fs w) p))), w)"
  using assms by (simp add: ReadDir_def)

end
