(* ===== verification/Store.thy ===== *)
theory Store
  imports FileSys
begin

text \<open>
  \<open>store.go\<close>: the transfers the server keeps, in memory and on disk.  The store is a record with
  the source's fields (the mutex has none: an operation that holds it from start to end is one
  function, and \<open>writeChunk\<close>, which lets it go in between, is made of the three pieces between
  its critical sections).  Every operation takes and returns the store and the world (the disk);
  the time of each call of \<open>time.Now\<close> is an argument, in nanoseconds.
\<close>

subsection \<open>Transfer ids\<close>

definition id_char :: "char \<Rightarrow> bool" where
  "id_char c \<longleftrightarrow>
     (let n = (of_char c :: nat)
      in (65 \<le> n \<and> n \<le> 90) \<or> (97 \<le> n \<and> n \<le> 122) \<or> (48 \<le> n \<and> n \<le> 57)
         \<or> c = CHR ''_'' \<or> c = CHR ''-'')"

text \<open>The pattern \<open>^[A-Za-z0-9_-]{1,128}$\<close>.\<close>

definition validTransferID :: "string \<Rightarrow> bool" where
  "validTransferID i \<longleftrightarrow> 1 \<le> length i \<and> length i \<le> 128 \<and> list_all id_char i"

definition maxTransfersPerSender :: nat where
  "maxTransfersPerSender = 1000"

subsection \<open>State\<close>

record transferMeta =
  TransferID :: string
  From :: string
  To :: string
  TotalChunks :: int
  CreatedAt :: int
  TouchedAt :: int
  Shareable :: bool
  Mode :: string
  ManageToken :: string
  OneTime :: bool

record store =
  dataDir :: string
  ttl :: int
  meta :: "(string, transferMeta) gomap"
  received :: "(string, intset) gomap"
  served :: "(string, intset) gomap"

record transferSummary =
  ts_TransferID :: string
  ts_From :: string
  ts_TotalChunks :: int
  ts_CreatedAt :: int
  ts_Shareable :: bool

text \<open>
  \<open>encoding/json\<close> on \<open>transferMeta\<close>: \<open>MarshalIndent\<close> (which can fail: a time stamp outside the
  years 0 to 9999 has no JSON form) and \<open>Unmarshal\<close>.  What the store relies on is that what was
  written reads back, \<open>meta_codec_ok\<close>.
\<close>

record meta_codec =
  enc_meta :: "transferMeta \<Rightarrow> bytes option"
  dec_meta :: "bytes \<Rightarrow> transferMeta option"

definition meta_codec_ok :: "meta_codec \<Rightarrow> bool" where
  "meta_codec_ok c \<longleftrightarrow> (\<forall>m raw. enc_meta c m = Some raw \<longrightarrow> dec_meta c raw = Some m)"

subsection \<open>Paths\<close>

definition transferDir :: "store \<Rightarrow> string \<Rightarrow> gopath" where
  "transferDir s i = filepath_join (dataDir s) i"

definition meta_path :: "gopath \<Rightarrow> gopath" where
  "meta_path d = join_path d ''meta.json''"

definition tmp_path :: "gopath \<Rightarrow> gopath" where
  "tmp_path d = join_path d ''meta.json.tmp''"

definition chunk_name :: "int \<Rightarrow> string" where
  "chunk_name index = itoa index @ ''.chunk''"

definition chunk_path :: "gopath \<Rightarrow> int \<Rightarrow> gopath" where
  "chunk_path d index = join_path d (chunk_name index)"

subsection \<open>Operations\<close>

text \<open>\<open>writeMeta\<close>: to a temporary file, then renamed over \<open>meta.json\<close>.\<close>

definition writeMeta :: "meta_codec \<Rightarrow> store \<Rightarrow> transferMeta \<Rightarrow> world \<Rightarrow> unit res \<times> world" where
  "writeMeta c s m w =
     (case enc_meta c m of
        None \<Rightarrow> (Inl (Err ''json: error calling MarshalJSON''), w)
      | Some raw \<Rightarrow>
         (let tmp = tmp_path (transferDir s (TransferID m));
              final = meta_path (transferDir s (TransferID m))
          in case WriteFile tmp raw w of
               (Inl e, w1) \<Rightarrow> (Inl e, w1)
             | (Inr _, w1) \<Rightarrow> Rename tmp final w1))"

definition senderCount :: "store \<Rightarrow> string \<Rightarrow> nat" where
  "senderCount s sender = count_vals (\<lambda>m. From m = sender) (meta s)"

text \<open>What the two ways to create a transfer share: make the directory, write \<open>meta.json\<close>, and
  only then enter the transfer in the maps.\<close>

definition install_transfer :: "meta_codec \<Rightarrow> transferMeta \<Rightarrow> store \<Rightarrow> world \<Rightarrow> unit res \<times> store \<times> world" where
  "install_transfer c m s w =
     (case MkdirAll (transferDir s (TransferID m)) w of
        (Inl e, w1) \<Rightarrow> (Inl e, s, w1)
      | (Inr _, w1) \<Rightarrow>
         (case writeMeta c s m w1 of
            (Inl e, w2) \<Rightarrow> (Inl e, s, w2)
          | (Inr _, w2) \<Rightarrow>
             (Inr (), s\<lparr>meta := mput (TransferID m) m (meta s),
                        received := mput (TransferID m) [] (received s)\<rparr>, w2)))"

definition direct_meta :: "string \<Rightarrow> string \<Rightarrow> string \<Rightarrow> int \<Rightarrow> bool \<Rightarrow> int \<Rightarrow> transferMeta" where
  "direct_meta i sender recipient totalChunks share now =
     \<lparr>TransferID = i, From = sender, To = recipient, TotalChunks = totalChunks, CreatedAt = now,
      TouchedAt = now, Shareable = share, Mode = [], ManageToken = [], OneTime = False\<rparr>"

definition link_meta :: "string \<Rightarrow> string \<Rightarrow> int \<Rightarrow> bool \<Rightarrow> int \<Rightarrow> transferMeta" where
  "link_meta i token totalChunks once now =
     \<lparr>TransferID = i, From = [], To = [], TotalChunks = totalChunks, CreatedAt = now, TouchedAt = now,
      Shareable = False, Mode = ''link'', ManageToken = token, OneTime = once\<rparr>"

definition createTransfer ::
  "meta_codec \<Rightarrow> string \<Rightarrow> string \<Rightarrow> string \<Rightarrow> int \<Rightarrow> bool \<Rightarrow> int \<Rightarrow> store \<Rightarrow> world
     \<Rightarrow> unit res \<times> store \<times> world" where
  "createTransfer c i sender recipient totalChunks share now s w =
     (if mget (meta s) i \<noteq> None then (Inr (), s, w)
      else if \<not> validTransferID i then (Inl (Err ''invalid transfer id''), s, w)
      else if senderCount s sender \<ge> maxTransfersPerSender then
        (Inl (Err ''transfer limit reached for this account''), s, w)
      else install_transfer c (direct_meta i sender recipient totalChunks share now) s w)"

definition createLinkTransfer ::
  "meta_codec \<Rightarrow> string \<Rightarrow> string \<Rightarrow> int \<Rightarrow> bool \<Rightarrow> int \<Rightarrow> store \<Rightarrow> world
     \<Rightarrow> unit res \<times> store \<times> world" where
  "createLinkTransfer c i token totalChunks once now s w =
     (if mget (meta s) i \<noteq> None then (Inl (Err ''transfer id already exists''), s, w)
      else if \<not> validTransferID i then (Inl (Err ''invalid transfer id''), s, w)
      else install_transfer c (link_meta i token totalChunks once now) s w)"

definition getMeta :: "store \<Rightarrow> string \<Rightarrow> transferMeta option" where
  "getMeta s i = mget (meta s) i"

definition touchLinkTransfer :: "meta_codec \<Rightarrow> string \<Rightarrow> int \<Rightarrow> store \<Rightarrow> world \<Rightarrow> store \<times> world" where
  "touchLinkTransfer c i now s w =
     (case mget (meta s) i of
        None \<Rightarrow> (s, w)
      | Some m \<Rightarrow>
         (let m' = m\<lparr>TouchedAt := now\<rparr>; s' = s\<lparr>meta := mput i m' (meta s)\<rparr>
          in (s', snd (writeMeta c s' m' w))))"

text \<open>\<open>writeChunk\<close> between its critical sections: the chunk file is written without the lock, from
  the metadata read before; the second section stores that metadata, touched, and the index.\<close>

definition writeChunk_file ::
  "store \<Rightarrow> transferMeta \<Rightarrow> string \<Rightarrow> int \<Rightarrow> bytes \<Rightarrow> world \<Rightarrow> unit res \<times> world" where
  "writeChunk_file s m i index data w =
     (if index < 0 \<or> index \<ge> TotalChunks m then (Inl ErrInvalid, w)
      else WriteFile (chunk_path (transferDir s i) index) data w)"

definition writeChunk_commit :: "transferMeta \<Rightarrow> string \<Rightarrow> int \<Rightarrow> int \<Rightarrow> store \<Rightarrow> store" where
  "writeChunk_commit m i index now s =
     (let old = (case mget (received s) i of None \<Rightarrow> [] | Some xs \<Rightarrow> xs)
      in s\<lparr>meta := mput i (m\<lparr>TouchedAt := now\<rparr>) (meta s),
           received := mput i (set_index index old) (received s)\<rparr>)"

definition writeChunk ::
  "meta_codec \<Rightarrow> string \<Rightarrow> int \<Rightarrow> bytes \<Rightarrow> int \<Rightarrow> store \<Rightarrow> world \<Rightarrow> unit res \<times> store \<times> world" where
  "writeChunk c i index data now s w =
     (case mget (meta s) i of
        None \<Rightarrow> (Inl ErrNotExist, s, w)
      | Some m \<Rightarrow>
         (case writeChunk_file s m i index data w of
            (Inl e, w1) \<Rightarrow> (Inl e, s, w1)
          | (Inr _, w1) \<Rightarrow>
             (let s' = writeChunk_commit m i index now s;
                  (r, w2) = writeMeta c s' (m\<lparr>TouchedAt := now\<rparr>) w1
              in (r, s', w2))))"

definition readChunk :: "store \<Rightarrow> string \<Rightarrow> int \<Rightarrow> world \<Rightarrow> bytes res \<times> world" where
  "readChunk s i index w = ReadFile (chunk_path (transferDir s i) index) w"

definition receivedIndices :: "store \<Rightarrow> string \<Rightarrow> int list" where
  "receivedIndices s i = sort (case mget (received s) i of None \<Rightarrow> [] | Some xs \<Rightarrow> xs)"

text \<open>Ranging over the transfers, in the order \<open>iter\<close> gives the keys.\<close>

definition range_meta :: "(string list \<Rightarrow> string list) \<Rightarrow> store \<Rightarrow> transferMeta list" where
  "range_meta iter s = List.map_filter (mget (meta s)) (iter (map fst (meta s)))"

definition summary_of :: "transferMeta \<Rightarrow> transferSummary" where
  "summary_of m =
     \<lparr>ts_TransferID = TransferID m, ts_From = From m, ts_TotalChunks = TotalChunks m,
      ts_CreatedAt = CreatedAt m, ts_Shareable = Shareable m\<rparr>"

definition listForRecipient ::
  "(string list \<Rightarrow> string list) \<Rightarrow> store \<Rightarrow> string \<Rightarrow> transferSummary list" where
  "listForRecipient iter s pubkey =
     map summary_of (filter (\<lambda>m. To m = pubkey) (range_meta iter s))"

definition forget :: "string \<Rightarrow> store \<Rightarrow> store" where
  "forget i s = s\<lparr>meta := mdel i (meta s), received := mdel i (received s),
                  served := mdel i (served s)\<rparr>"

definition deleteTransfer :: "string \<Rightarrow> store \<Rightarrow> world \<Rightarrow> unit res \<times> store \<times> world" where
  "deleteTransfer i s w =
     (let (r, w1) = RemoveAll (transferDir s i) w in (r, forget i s, w1))"

text \<open>\<open>markLinkChunkServed\<close>: its locked part decides whether to burn, and deletes after unlocking.\<close>

definition mark_served :: "string \<Rightarrow> int \<Rightarrow> store \<Rightarrow> bool \<times> store" where
  "mark_served i index s =
     (case mget (meta s) i of
        None \<Rightarrow> (False, s)
      | Some m \<Rightarrow>
         (if Mode m \<noteq> ''link'' then (False, s)
          else
            (let old = (case mget (served s) i of None \<Rightarrow> [] | Some xs \<Rightarrow> xs);
                 new = set_index index old
             in (OneTime m \<and> int (length new) \<ge> TotalChunks m,
                 s\<lparr>served := mput i new (served s)\<rparr>))))"

definition markLinkChunkServed :: "string \<Rightarrow> int \<Rightarrow> store \<Rightarrow> world \<Rightarrow> bool \<times> store \<times> world" where
  "markLinkChunkServed i index s w =
     (case mark_served i index s of
        (burn, s1) \<Rightarrow>
          (if burn then (let (r, s2, w2) = deleteTransfer i s1 w in (True, s2, w2))
           else (False, s1, w)))"

text \<open>\<open>sweep\<close>: the expired ids are collected under the lock and deleted one by one after it.\<close>

definition expired_ids :: "(string list \<Rightarrow> string list) \<Rightarrow> int \<Rightarrow> store \<Rightarrow> string list" where
  "expired_ids iter now s =
     filter (\<lambda>i. case mget (meta s) i of None \<Rightarrow> False | Some m \<Rightarrow> TouchedAt m < now - ttl s)
       (iter (map fst (meta s)))"

fun delete_all :: "string list \<Rightarrow> store \<Rightarrow> world \<Rightarrow> store \<times> world" where
  "delete_all [] s w = (s, w)"
| "delete_all (i # is) s w = (let (r, s1, w1) = deleteTransfer i s w in delete_all is s1 w1)"

definition sweep :: "(string list \<Rightarrow> string list) \<Rightarrow> int \<Rightarrow> store \<Rightarrow> world \<Rightarrow> store \<times> world" where
  "sweep iter now s w = delete_all (expired_ids iter now s) s w"

subsection \<open>Start-up\<close>

text \<open>One \<open><index>.chunk\<close> entry of a transfer's directory: its index, when the name is one.\<close>

definition chunk_index :: "string \<Rightarrow> int option" where
  "chunk_index n = (case cut_suffix ''.chunk'' n of None \<Rightarrow> None | Some x \<Rightarrow> atoi x)"

definition chunk_set :: "(string \<times> bool) list \<Rightarrow> intset" where
  "chunk_set es = fold (\<lambda>(n, d) acc. case chunk_index n of None \<Rightarrow> acc | Some i \<Rightarrow> set_index i acc) es []"

text \<open>The body of \<open>loadExisting\<close>'s loop: an entry that cannot be read or decoded is skipped.\<close>

definition load_entry :: "meta_codec \<Rightarrow> (string \<times> bool) \<Rightarrow> store \<Rightarrow> world \<Rightarrow> store \<times> world" where
  "load_entry c e s w =
     (case e of (i, isdir) \<Rightarrow>
        (if \<not> isdir then (s, w)
         else
           (case ReadFile (meta_path (filepath_join (dataDir s) i)) w of
              (Inl _, w1) \<Rightarrow> (s, w1)
            | (Inr raw, w1) \<Rightarrow>
               (case dec_meta c raw of
                  None \<Rightarrow> (s, w1)
                | Some m \<Rightarrow>
                   (let s1 = s\<lparr>meta := mput i m (meta s)\<rparr>
                    in case ReadDir (filepath_join (dataDir s) i) w1 of
                         (Inl _, w2) \<Rightarrow> (s1, w2)
                       | (Inr es, w2) \<Rightarrow>
                          (s1\<lparr>received := mput i (chunk_set es) (received s1)\<rparr>, w2))))))"

fun load_entries :: "meta_codec \<Rightarrow> (string \<times> bool) list \<Rightarrow> store \<Rightarrow> world \<Rightarrow> store \<times> world" where
  "load_entries c [] s w = (s, w)"
| "load_entries c (e # es) s w = (let (s1, w1) = load_entry c e s w in load_entries c es s1 w1)"

definition loadExisting :: "meta_codec \<Rightarrow> store \<Rightarrow> world \<Rightarrow> unit res \<times> store \<times> world" where
  "loadExisting c s w =
     (case ReadDir (clean_path (dataDir s)) w of
        (Inl e, w1) \<Rightarrow> (Inl e, s, w1)
      | (Inr es, w1) \<Rightarrow> (let (s2, w2) = load_entries c es s w1 in (Inr (), s2, w2)))"

definition empty_store :: "string \<Rightarrow> int \<Rightarrow> store" where
  "empty_store dir life = \<lparr>dataDir = dir, ttl = life, meta = [], received = [], served = []\<rparr>"

definition newStore :: "meta_codec \<Rightarrow> string \<Rightarrow> int \<Rightarrow> world \<Rightarrow> store res \<times> world" where
  "newStore c dir life w =
     (if dir = [] then (Inl (PathError ''mkdir'' (clean_path dir) ENOENT), w)
      else
        (case MkdirAll (clean_path dir) w of
           (Inl e, w1) \<Rightarrow> (Inl e, w1)
         | (Inr _, w1) \<Rightarrow>
            (case loadExisting c (empty_store dir life) w1 of
               (Inl e, s2, w2) \<Rightarrow> (Inl e, w2)
             | (Inr _, s2, w2) \<Rightarrow> (Inr s2, w2))))"

lemmas store_op_defs = createTransfer_def createLinkTransfer_def touchLinkTransfer_def
  writeChunk_def deleteTransfer_def markLinkChunkServed_def sweep_def

end
