(* ===== verification/Token.thy ===== *)
theory Token
  imports GoEncoding
begin

text \<open>
  \<open>token.go\<close>: the offline check of a broker-issued access token.  Ed25519 (\<open>ed\<close>) and the JSON
  decoder of the claims (\<open>dec\<close>) are arguments: whatever they are, a token is accepted exactly when
  its two parts decode, the signature verifies, the claims parse, and tier, plan and expiry allow it.
\<close>

record clientToken =
  ClientID :: string
  Tier :: string
  Plan :: string
  IssuedAt :: int
  ExpiresAt :: int

text \<open>The map \<open>tierRank\<close>, read with Go's zero value for a missing key.\<close>

definition tierRank :: "string \<Rightarrow> nat" where
  "tierRank t = (if t = ''paid'' then 1 else 0)"

text \<open>\<open>now\<close> is \<open>time.Now().Unix()\<close>.\<close>

definition verifyToken ::
  "(bytes \<Rightarrow> bytes \<Rightarrow> bytes \<Rightarrow> bool) \<Rightarrow> (bytes \<Rightarrow> clientToken option)
     \<Rightarrow> bytes \<Rightarrow> string \<Rightarrow> string \<Rightarrow> bool \<Rightarrow> int \<Rightarrow> clientToken res" where
  "verifyToken ed dec brokerPub token minTier allowVPNPlan now =
     (case cut (CHR ''.'') token of
        None \<Rightarrow> Inl (Err ''malformed token: expected <payload>.<signature>'')
      | Some (payloadB64, sigB64) \<Rightarrow>
         (case std_decode payloadB64 of
            None \<Rightarrow> Inl (Err ''malformed token payload encoding'')
          | Some payload \<Rightarrow>
             (case std_decode sigB64 of
                None \<Rightarrow> Inl (Err ''malformed token signature encoding'')
              | Some sig \<Rightarrow>
                 (if \<not> ed brokerPub payload sig then Inl (Err ''token signature verification failed'')
                  else
                    (case dec payload of
                       None \<Rightarrow> Inl (Err ''malformed token claims'')
                     | Some tok \<Rightarrow>
                        (if tierRank (Tier tok) < tierRank minTier then
                           Inl (Err (''token tier '' @ Tier tok @ '' is below the required '' @ minTier @ '' tier''))
                         else if Plan tok \<noteq> [] \<and> Plan tok \<noteq> ''full''
                                 \<and> \<not> (allowVPNPlan \<and> Plan tok = ''vpn'') then
                           Inl (Err (''token plan '' @ Plan tok @ '' does not include this service''))
                         else if now > ExpiresAt tok then Inl (Err ''token expired'')
                         else Inr tok))))))"

text \<open>The contract: what an accepted token is.\<close>

definition plan_admits :: "bool \<Rightarrow> clientToken \<Rightarrow> bool" where
  "plan_admits vpn tok \<longleftrightarrow> Plan tok \<in> {[], ''full''} \<or> (vpn \<and> Plan tok = ''vpn'')"

definition token_valid ::
  "(bytes \<Rightarrow> bytes \<Rightarrow> bytes \<Rightarrow> bool) \<Rightarrow> (bytes \<Rightarrow> clientToken option) \<Rightarrow> bytes \<Rightarrow> string \<Rightarrow> clientToken \<Rightarrow> bool" where
  "token_valid ed dec pub token tok \<longleftrightarrow>
     (\<exists>p s payload sig. token = p @ CHR ''.'' # s \<and> CHR ''.'' \<notin> set p
        \<and> std_decode p = Some payload \<and> std_decode s = Some sig
        \<and> ed pub payload sig \<and> dec payload = Some tok)"

lemma verifyToken_iff:
  "verifyToken ed dec pub token minTier vpn now = Inr tok \<longleftrightarrow>
     token_valid ed dec pub token tok \<and> tierRank minTier \<le> tierRank (Tier tok)
     \<and> plan_admits vpn tok \<and> now \<le> ExpiresAt tok"
  (is "?l \<longleftrightarrow> ?r")
proof
  assume ?l
  then obtain p s payload sig where c: "cut (CHR ''.'') token = Some (p, s)"
      and d: "std_decode p = Some payload" "std_decode s = Some sig" "ed pub payload sig"
        "dec payload = Some tok"
      and t: "tierRank minTier \<le> tierRank (Tier tok)" "plan_admits vpn tok" "now \<le> ExpiresAt tok"
    by (auto simp: verifyToken_def plan_admits_def split: option.splits if_splits)
  from cut_Some [OF c] d show ?r using t unfolding token_valid_def by blast
next
  assume ?r
  then show ?l by (auto simp: token_valid_def verifyToken_def plan_admits_def)
qed

text \<open>A token the broker issues: both parts encoded, joined with a dot.\<close>

definition issued_token :: "bytes \<Rightarrow> bytes \<Rightarrow> string" where
  "issued_token payload sig = std_encode payload @ CHR ''.'' # std_encode sig"

lemma std_encode_no_dot: "CHR ''.'' \<notin> set (std_encode b)"
  by (rule notI, drule std_chars) (simp add: b64_std_def)

lemma issued_token_valid:
  "ed pub payload sig \<Longrightarrow> dec payload = Some tok \<Longrightarrow> token_valid ed dec pub (issued_token payload sig) tok"
  unfolding token_valid_def issued_token_def
  by (intro exI [of _ "std_encode payload"] exI [of _ "std_encode sig"] exI [of _ payload] exI [of _ sig])
     (simp add: std_encode_no_dot)

text \<open>The claims a token carries are those of its payload, whatever is asked of it.\<close>

lemma token_valid_unique:
  "token_valid ed dec pub token a \<Longrightarrow> token_valid ed dec pub token b \<Longrightarrow> a = b"
proof -
  have key: "cut (CHR ''.'') token = Some (p, s)" if "token = p @ CHR ''.'' # s" "CHR ''.'' \<notin> set p" for p s
    using that by simp
  assume "token_valid ed dec pub token a" "token_valid ed dec pub token b"
  then obtain p s payload sig p' s' payload' sig' where
    "token = p @ CHR ''.'' # s" "CHR ''.'' \<notin> set p" "std_decode p = Some payload" "dec payload = Some a"
    "token = p' @ CHR ''.'' # s'" "CHR ''.'' \<notin> set p'" "std_decode p' = Some payload'" "dec payload' = Some b"
    unfolding token_valid_def by blast
  then show ?thesis using key by (metis option.inject prod.inject)
qed

end
