(* ===== verification/WsFrame.thy ===== *)
theory WsFrame
  imports GoEncoding
begin

text \<open>
  The framing half of \<open>ws.go\<close>: a connection as the bytes still to come from the peer and the bytes
  already sent, one frame read and written, and whole messages reassembled from their fragments.
  The input is any list of bytes, so that what holds of every connection holds whatever a client
  sends, before it is authenticated too.
\<close>

unbundle bit_operations_syntax

subsection \<open>Connections\<close>

text \<open>
  \<open>c_end\<close> is the error the transport reports once the input is used up (\<open>io.EOF\<close> when the peer
  closed), \<open>c_quota\<close> how many more bytes it takes before its writes fail (\<open>None\<close>: no limit;
  \<open>bufio.Writer\<close> keeps failing once it has failed), \<open>c_rand\<close> what \<open>crypto/rand\<close> will deliver.
  The lock \<open>writeMu\<close> makes \<open>writeFrame\<close> one step.
\<close>

record wsConn =
  c_in :: bytes
  c_end :: go_error
  c_out :: bytes
  c_quota :: "nat option"
  c_rand :: bytes
  c_closed :: bool
  maskOutgoing :: bool

text \<open>\<open>io.ReadFull\<close>.\<close>

definition read_full :: "nat \<Rightarrow> wsConn \<Rightarrow> bytes res \<times> wsConn" where
  "read_full n c =
     (if n \<le> length (c_in c) then (Inr (take n (c_in c)), c\<lparr>c_in := drop n (c_in c)\<rparr>)
      else (Inl (if c_in c \<noteq> [] \<and> c_end c = IO_EOF then IO_ErrUnexpectedEOF else c_end c),
            c\<lparr>c_in := []\<rparr>))"

text \<open>Writing through the buffer and flushing it: all of the bytes reach the wire, or a prefix of
  them and an error.\<close>

definition conn_write :: "bytes \<Rightarrow> wsConn \<Rightarrow> unit res \<times> wsConn" where
  "conn_write d c =
     (case c_quota c of
        None \<Rightarrow> (Inr (), c\<lparr>c_out := c_out c @ d\<rparr>)
      | Some k \<Rightarrow>
         (if length d \<le> k then (Inr (), c\<lparr>c_out := c_out c @ d, c_quota := Some (k - length d)\<rparr>)
          else (Inl ErrNet, c\<lparr>c_out := c_out c @ take k d, c_quota := Some 0\<rparr>)))"

definition rand_read :: "nat \<Rightarrow> wsConn \<Rightarrow> bytes res \<times> wsConn" where
  "rand_read n c =
     (if n \<le> length (c_rand c) then (Inr (take n (c_rand c)), c\<lparr>c_rand := drop n (c_rand c)\<rparr>)
      else (Inl (Err ''crypto/rand''), c))"

definition conn_close :: "wsConn \<Rightarrow> unit res \<times> wsConn" where
  "conn_close c = (if c_closed c then (Inl ErrNet, c) else (Inr (), c\<lparr>c_closed := True, c_quota := Some 0\<rparr>))"

subsection \<open>Frames\<close>

type_synonym wsOpcode = byte

definition opContinuation :: wsOpcode where "opContinuation = 0x0"
definition opText :: wsOpcode where "opText = 0x1"
definition opBinary :: wsOpcode where "opBinary = 0x2"
definition opClose :: wsOpcode where "opClose = 0x8"
definition opPing :: wsOpcode where "opPing = 0x9"
definition opPong :: wsOpcode where "opPong = 0xA"

lemmas opcode_defs = opContinuation_def opText_def opBinary_def opClose_def opPing_def opPong_def

definition maxFrameSize :: nat where
  "maxFrameSize = 6 * 2 ^ 20"

definition maxMessageSize :: nat where
  "maxMessageSize = 4 * maxFrameSize"

text \<open>The masking loop, the same in both directions.\<close>

definition mask_payload :: "bytes \<Rightarrow> bytes \<Rightarrow> bytes" where
  "mask_payload key p = map (\<lambda>(i, b). b XOR key ! (i mod 4)) (enumerate 0 p)"

text \<open>The payload length that follows the first two bytes.\<close>

definition read_length :: "byte \<Rightarrow> wsConn \<Rightarrow> nat res \<times> wsConn" where
  "read_length b c =
     (let l = unat (b AND 0x7F)
      in if l = 126 then (case read_full 2 c of (Inl e, c1) \<Rightarrow> (Inl e, c1) | (Inr ext, c1) \<Rightarrow> (Inr (be_get ext), c1))
         else if l = 127 then (case read_full 8 c of (Inl e, c1) \<Rightarrow> (Inl e, c1) | (Inr ext, c1) \<Rightarrow> (Inr (be_get ext), c1))
         else (Inr l, c))"

definition readFrame :: "wsConn \<Rightarrow> (bool \<times> wsOpcode \<times> bytes) res \<times> wsConn" where
  "readFrame c =
     (case read_full 2 c of
        (Inl e, c1) \<Rightarrow> (Inl e, c1)
      | (Inr header, c1) \<Rightarrow>
         (let fin = (header ! 0 AND 0x80 \<noteq> 0); opcode = header ! 0 AND 0x0F;
              masked = (header ! 1 AND 0x80 \<noteq> 0)
          in case read_length (header ! 1) c1 of
               (Inl e, c2) \<Rightarrow> (Inl e, c2)
             | (Inr len, c2) \<Rightarrow>
                (if len > maxFrameSize then (Inl (Err ''frame too large''), c2)
                 else
                   (case (if masked then read_full 4 c2 else (Inr [0, 0, 0, 0], c2)) of
                      (Inl e, c3) \<Rightarrow> (Inl e, c3)
                    | (Inr key, c3) \<Rightarrow>
                       (case read_full len c3 of
                          (Inl e, c4) \<Rightarrow> (Inl e, c4)
                        | (Inr payload, c4) \<Rightarrow>
                           (Inr (fin, opcode, if masked then mask_payload key payload else payload), c4))))))"

definition frame_header :: "wsOpcode \<Rightarrow> bool \<Rightarrow> nat \<Rightarrow> bytes" where
  "frame_header opcode masked n =
     (let maskBit = (if masked then 0x80 else 0)
      in (0x80 OR opcode) #
         (if n \<le> 125 then [maskBit OR byte_of_nat n]
          else if n \<le> 0xFFFF then (maskBit OR 126) # be_put 2 n
          else (maskBit OR 127) # be_put 8 n))"

definition writeFrame :: "wsOpcode \<Rightarrow> bytes \<Rightarrow> wsConn \<Rightarrow> unit res \<times> wsConn" where
  "writeFrame opcode payload c =
     (let header = frame_header opcode (maskOutgoing c) (length payload)
      in if maskOutgoing c then
           (case rand_read 4 c of
              (Inl e, c1) \<Rightarrow> (Inl e, c1)
            | (Inr key, c1) \<Rightarrow> conn_write (header @ key @ mask_payload key payload) c1)
         else conn_write (header @ payload) c)"

definition WriteMessage :: "bytes \<Rightarrow> wsConn \<Rightarrow> unit res \<times> wsConn" where
  "WriteMessage payload c = writeFrame opText payload c"

definition WriteBinary :: "bytes \<Rightarrow> wsConn \<Rightarrow> unit res \<times> wsConn" where
  "WriteBinary payload c = writeFrame opBinary payload c"

text \<open>\<open>Close\<close>; named apart from the file operation.\<close>

definition ws_Close :: "wsConn \<Rightarrow> unit res \<times> wsConn" where
  "ws_Close c = conn_close (snd (writeFrame opClose [] c))"

subsection \<open>What reading and writing leave alone\<close>

lemma read_full_cases:
  assumes "read_full n c = (r, c')"
  obtains (ok) "n \<le> length (c_in c)" "r = Inr (take n (c_in c))" "c' = c\<lparr>c_in := drop n (c_in c)\<rparr>"
    | (short) e where "length (c_in c) < n" "r = Inl e" "c' = c\<lparr>c_in := []\<rparr>"
  using assms by (auto simp: read_full_def split: if_splits)

lemma read_full_rest:
  "read_full n c = (r, c') \<Longrightarrow> \<exists>k. c' = c\<lparr>c_in := drop k (c_in c)\<rparr>"
  by (erule read_full_cases) (auto intro: exI [of _ "length (c_in c)"])

lemma read_full_Inr:
  "read_full n c = (Inr d, c') \<Longrightarrow> length d = n \<and> c' = c\<lparr>c_in := drop n (c_in c)\<rparr> \<and> n \<le> length (c_in c)
     \<and> d = take n (c_in c)"
  by (erule read_full_cases) auto

lemma read_full_append [simp]:
  "c_in c = a @ b \<Longrightarrow> read_full (length a) c = (Inr a, c\<lparr>c_in := b\<rparr>)"
  by (simp add: read_full_def)

lemma conn_write_same:
  "conn_write d c = (r, c') \<Longrightarrow> c_in c' = c_in c \<and> c_end c' = c_end c \<and> c_rand c' = c_rand c
     \<and> c_closed c' = c_closed c \<and> maskOutgoing c' = maskOutgoing c \<and> prefix (c_out c) (c_out c')"
  by (auto simp: conn_write_def split: option.splits if_splits)

lemma rand_read_same:
  "rand_read n c = (r, c') \<Longrightarrow> c_in c' = c_in c \<and> c_end c' = c_end c \<and> c_out c' = c_out c
     \<and> c_quota c' = c_quota c \<and> c_closed c' = c_closed c \<and> maskOutgoing c' = maskOutgoing c"
  by (auto simp: rand_read_def split: if_splits)

lemma writeFrame_same:
  "writeFrame opcode p c = (r, c') \<Longrightarrow> c_in c' = c_in c \<and> c_end c' = c_end c
     \<and> c_closed c' = c_closed c \<and> maskOutgoing c' = maskOutgoing c \<and> prefix (c_out c) (c_out c')"
  by (auto simp: writeFrame_def Let_def split: if_splits prod.splits sum.splits
      dest!: conn_write_same rand_read_same)

lemma readFrame_rest:
  assumes "readFrame c = (r, c')"
  shows "\<exists>k. c' = c\<lparr>c_in := drop k (c_in c)\<rparr>"
proof -
  have len: "\<exists>k. c' = c\<lparr>c_in := drop k (c_in c)\<rparr>" if "read_length b c = (r, c')" for b c r c'
    using that read_full_rest
    by (fastforce simp: read_length_def Let_def split: if_splits prod.splits sum.splits
        intro: exI [of _ 0])
  show ?thesis using assms
    by (auto simp: readFrame_def Let_def split: prod.splits sum.splits if_splits
        dest!: len read_full_rest)
qed

text \<open>A frame read took at least its first two bytes off the input.\<close>

lemma read_length_rest: "read_length b c = (r, c') \<Longrightarrow> \<exists>k. c' = c\<lparr>c_in := drop k (c_in c)\<rparr>"
  using read_full_rest
  by (fastforce simp: read_length_def Let_def split: if_splits prod.splits sum.splits
      intro: exI [of _ 0])

lemma readFrame_Inr:
  assumes "readFrame c = (Inr (fin, opcode, p), c')"
  obtains h c1 len c2 c3 d where "read_full 2 c = (Inr h, c1)" "read_length (h ! 1) c1 = (Inr len, c2)"
    "len \<le> maxFrameSize" "\<exists>k. c3 = c2\<lparr>c_in := drop k (c_in c2)\<rparr>" "read_full len c3 = (Inr d, c')"
    "length p = length d" "opcode = h ! 0 AND 0x0F"
proof -
  obtain h c1 where 1: "read_full 2 c = (Inr h, c1)"
    using assms by (auto simp: readFrame_def split: prod.splits sum.splits)
  obtain len c2 where 2: "read_length (h ! 1) c1 = (Inr len, c2)"
    using assms 1 by (auto simp: readFrame_def Let_def split: prod.splits sum.splits)
  let ?m = "h ! 1 AND 0x80 \<noteq> 0"
  obtain key c3 where 3: "(if ?m then read_full 4 c2 else (Inr [0, 0, 0, 0], c2)) = (Inr key, c3)"
    and 4: "len \<le> maxFrameSize"
    using assms 1 2 by (auto simp: readFrame_def Let_def split: prod.splits sum.splits if_splits)
  obtain d where 5: "read_full len c3 = (Inr d, c')" "p = (if ?m then mask_payload key d else d)"
      "opcode = h ! 0 AND 0x0F"
    using assms 1 2 3 4
    by (simp add: readFrame_def Let_def split: prod.splits sum.splits if_split_asm)
  have "\<exists>k. c3 = c2\<lparr>c_in := drop k (c_in c2)\<rparr>"
    using 3 read_full_rest by (fastforce split: if_splits intro: exI [of _ 0])
  then show ?thesis using that 1 2 4 5 by (simp add: mask_payload_def)
qed

lemma readFrame_consumes:
  assumes "readFrame c = (Inr f, c')"
  shows "length (c_in c') < length (c_in c)"
proof -
  obtain fin opcode p where f: "f = (fin, opcode, p)" by (metis prod_cases3)
  from assms [unfolded f] show ?thesis
    by (rule readFrame_Inr) (auto dest!: read_full_Inr read_length_rest)
qed

text \<open>No frame is larger than the cap, whatever its length field says.\<close>

lemma readFrame_bound:
  "readFrame c = (Inr (fin, opcode, p), c') \<Longrightarrow> length p \<le> maxFrameSize"
  by (erule readFrame_Inr) (auto dest: read_full_Inr)

subsection \<open>What is written reads back\<close>

text \<open>A frame on the wire, of either side, with any masking key: what RFC 6455 lets a peer send.\<close>

definition frame_bytes :: "bool \<Rightarrow> wsOpcode \<Rightarrow> bytes option \<Rightarrow> bytes \<Rightarrow> bytes" where
  "frame_bytes fin opcode key p =
     ((if fin then 0x80 else 0) OR opcode) # tl (frame_header opcode (key \<noteq> None) (length p))
       @ (case key of None \<Rightarrow> p | Some k \<Rightarrow> k @ mask_payload k p)"

definition frame_wf :: "wsOpcode \<Rightarrow> bytes option \<Rightarrow> bytes \<Rightarrow> bool" where
  "frame_wf opcode key p \<longleftrightarrow> opcode AND 0x0F = opcode \<and> length p \<le> maxFrameSize
     \<and> (case key of None \<Rightarrow> True | Some k \<Rightarrow> length k = 4)"

lemma mask_payload_length [simp]: "length (mask_payload key p) = length p"
  by (simp add: mask_payload_def)

lemma mask_payload_invol [simp]: "mask_payload key (mask_payload key p) = p"
  by (rule nth_equalityI) (simp_all add: mask_payload_def nth_enumerate_eq xor.assoc)

lemma low7: "unat w < 128 \<Longrightarrow> w AND 0x7F = (w :: byte)"
proof -
  assume "unat w < 128"
  then have "unat (take_bit 7 w) = unat w"
    by (simp only: unsigned_take_bit_eq) (simp add: take_bit_eq_mod)
  then have "take_bit 7 w = w" by (rule word_unat_eq_iff [THEN iffD2])
  then show ?thesis by (simp add: take_bit_eq_mask mask_eq_exp_minus_1)
qed

lemma low_bit7: "w AND 0x7F = w \<Longrightarrow> w AND 0x80 = (0 :: byte)"
proof -
  assume "w AND 0x7F = w"
  then have "w AND 0x80 = w AND (0x7F AND 0x80)" by (metis and.assoc)
  then show ?thesis by simp
qed

lemma flag_bits:
  "(0x80 OR w) AND 0x7F = w AND (0x7F :: byte)"
  "(0x80 OR w) AND 0x80 = (0x80 :: byte)"
  "(0x80 OR w) AND 0x0F = w AND (0x0F :: byte)"
  by (simp_all add: word_ao_dist word_ao_absorbs)

lemma read_length_header:
  assumes "frame_header opcode masked n = x # y # ext" "n \<le> maxFrameSize" "c_in c = ext @ rest"
  shows "read_length y c = (Inr n, c\<lparr>c_in := rest\<rparr>)"
    "y AND 0x80 = (if masked then 0x80 else 0)"
proof -
  have n: "byte_of_nat n AND 0x7F = byte_of_nat n" if "n \<le> 125"
    by (rule low7) (use that in simp)
  have e: "length ext = 2 \<longrightarrow> read_full 2 c = (Inr ext, c\<lparr>c_in := rest\<rparr>)"
    "length ext = 8 \<longrightarrow> read_full 8 c = (Inr ext, c\<lparr>c_in := rest\<rparr>)"
    using read_full_append [OF assms(3)] by metis+
  consider "n \<le> 125" | "125 < n" "n \<le> 0xFFFF" | "0xFFFF < n" by linarith
  then have "read_length y c = (Inr n, c\<lparr>c_in := rest\<rparr>) \<and> y AND 0x80 = (if masked then 0x80 else 0)"
  proof cases
    case 1
    then have [simp]: "byte_of_nat n AND 0x80 = 0" using n low_bit7 by blast
    show ?thesis using assms 1 n
      by (cases masked) (auto simp: frame_header_def Let_def read_length_def flag_bits)
  next
    case 2
    then have "ext = be_put 2 n" and y: "y = (if masked then 0x80 else 0) OR 126"
      using assms(1) by (auto simp: frame_header_def Let_def)
    then show ?thesis using e 2 be_get_put [of n 2]
      by (cases masked) (simp_all add: read_length_def flag_bits)
  next
    case 3
    then have "ext = be_put 8 n" and y: "y = (if masked then 0x80 else 0) OR 127"
      using assms(1) by (auto simp: frame_header_def Let_def)
    then show ?thesis using e 3 be_get_put [of n 8] assms(2)
      by (cases masked) (simp_all add: read_length_def flag_bits maxFrameSize_def)
  qed
  then show "read_length y c = (Inr n, c\<lparr>c_in := rest\<rparr>)"
    "y AND 0x80 = (if masked then 0x80 else 0)" by simp_all
qed

lemma frame_header_shape: "\<exists>x y ext. frame_header opcode m n = x # y # ext"
  by (simp add: frame_header_def Let_def split: if_split)

lemma readFrame_frame:
  assumes wf: "frame_wf opcode key p" and inp: "c_in c = frame_bytes fin opcode key p @ rest"
  shows "readFrame c = (Inr (fin, opcode, p), c\<lparr>c_in := rest\<rparr>)"
proof -
  let ?m = "key \<noteq> None" let ?x = "(if fin then 0x80 else 0) OR opcode"
  let ?body = "case key of None \<Rightarrow> p | Some k \<Rightarrow> k @ mask_payload k p"
  obtain x y ext where h: "frame_header opcode ?m (length p) = x # y # ext"
    using frame_header_shape by blast
  have i: "c_in c = [?x, y] @ ext @ ?body @ rest" using inp h by (simp add: frame_bytes_def)
  define c1 where "c1 = c\<lparr>c_in := ext @ ?body @ rest\<rparr>"
  define c2 where "c2 = c\<lparr>c_in := ?body @ rest\<rparr>"
  have 1: "read_full 2 c = (Inr [?x, y], c1)" using i by (simp add: c1_def read_full_def)
  have 2: "read_length y c1 = (Inr (length p), c2)" and y: "y AND 0x80 = (if ?m then 0x80 else 0)"
    using read_length_header [OF h, of c1 "?body @ rest"] wf by (simp_all add: frame_wf_def c1_def c2_def)
  have x: "?x AND 0x0F = opcode" "?x AND 0x80 \<noteq> 0 \<longleftrightarrow> fin"
  proof -
    have op: "opcode AND 0x0F = opcode" using wf by (simp add: frame_wf_def)
    then show "?x AND 0x0F = opcode" by (simp add: flag_bits)
    have "opcode AND 0x7F = opcode AND (0x0F AND 0x7F)" using op by (metis and.assoc)
    then have "opcode AND 0x80 = 0" using op by (intro low_bit7) simp
    then show "?x AND 0x80 \<noteq> 0 \<longleftrightarrow> fin" by (simp add: flag_bits)
  qed
  show ?thesis
  proof (cases key)
    case None
    have "read_full (length p) c2 = (Inr p, c\<lparr>c_in := rest\<rparr>)"
      using read_full_append [of c2 p rest] None by (simp add: c2_def)
    then show ?thesis using 1 2 x y None wf by (simp add: readFrame_def Let_def frame_wf_def)
  next
    case (Some k)
    have "read_full (length k) c2 = (Inr k, c2\<lparr>c_in := mask_payload k p @ rest\<rparr>)"
      using Some by (intro read_full_append) (simp add: c2_def)
    moreover have "read_full (length (mask_payload k p)) (c2\<lparr>c_in := mask_payload k p @ rest\<rparr>)
        = (Inr (mask_payload k p), c\<lparr>c_in := rest\<rparr>)"
      by (simp add: c2_def read_full_def)
    ultimately show ?thesis using 1 2 x y Some wf
      by (simp add: readFrame_def Let_def frame_wf_def)
  qed
qed

text \<open>What \<open>writeFrame\<close> puts on the wire when the transport takes it.\<close>

lemma writeFrame_server:
  assumes "\<not> maskOutgoing c" "c_quota c = None"
  shows "writeFrame opcode p c = (Inr (), c\<lparr>c_out := c_out c @ frame_bytes True opcode None p\<rparr>)"
proof -
  have "frame_header opcode False (length p) @ p = frame_bytes True opcode None p"
    by (simp add: frame_bytes_def frame_header_def Let_def)
  then show ?thesis using assms by (simp add: writeFrame_def Let_def conn_write_def)
qed

lemma writeFrame_client:
  assumes "maskOutgoing c" "c_quota c = None" "c_rand c = key @ r" "length key = 4"
  shows "writeFrame opcode p c
    = (Inr (), c\<lparr>c_rand := r, c_out := c_out c @ frame_bytes True opcode (Some key) p\<rparr>)"
proof -
  have "frame_header opcode True (length p) @ x = frame_bytes True opcode (Some key) p"
    if "x = key @ mask_payload key p" for x
    using that by (simp add: frame_bytes_def frame_header_def Let_def)
  then show ?thesis using assms
    by (simp add: writeFrame_def Let_def conn_write_def rand_read_def)
qed

end
