(* ===== verification/Hash.thy ===== *)
theory Hash
  imports GoEncoding
begin

text \<open>
  The hash functions the program takes from Go's standard library: \<open>crypto/sha1\<close> (the WebSocket
  handshake), \<open>crypto/sha256\<close> and \<open>crypto/hmac\<close> (key derivation), as FIPS 180-4 and RFC 2104
  define them.
\<close>

unbundle bit_operations_syntax

type_synonym word32 = "32 word"

definition rotl32 :: "nat \<Rightarrow> word32 \<Rightarrow> word32" where
  "rotl32 n x = push_bit n x OR drop_bit (32 - n) x"

definition rotr32 :: "nat \<Rightarrow> word32 \<Rightarrow> word32" where
  "rotr32 n x = drop_bit n x OR push_bit (32 - n) x"

text \<open>Padding to blocks of 64 bytes, and the words of a block.\<close>

definition md_pad :: "bytes \<Rightarrow> bytes" where
  "md_pad m = m @ [0x80] @ replicate ((119 - length m mod 64) mod 64) 0 @ be_put 8 (8 * length m)"

fun words32 :: "bytes \<Rightarrow> word32 list" where
  "words32 (a # b # c # d # rest) = word_of_nat (be_get [a, b, c, d]) # words32 rest"
| "words32 _ = []"

fun blocks16 :: "word32 list \<Rightarrow> word32 list list" where
  "blocks16 [] = []"
| "blocks16 (w # ws) = take 16 (w # ws) # blocks16 (drop 15 ws)"

definition word_bytes :: "word32 list \<Rightarrow> bytes" where
  "word_bytes ws = concat (map (\<lambda>w. be_put 4 (unat w)) ws)"

subsection \<open>SHA-1\<close>

text \<open>The schedule is built newest word first.\<close>

fun sha1_extend :: "nat \<Rightarrow> word32 list \<Rightarrow> word32 list" where
  "sha1_extend 0 ws = ws"
| "sha1_extend (Suc n) ws = sha1_extend n (rotl32 1 (ws ! 2 XOR ws ! 7 XOR ws ! 13 XOR ws ! 15) # ws)"

definition sha1_fk :: "nat \<Rightarrow> word32 \<Rightarrow> word32 \<Rightarrow> word32 \<Rightarrow> word32" where
  "sha1_fk t b c d =
     (if t < 20 then ((b AND c) OR (NOT b AND d)) + 0x5A827999
      else if t < 40 then (b XOR c XOR d) + 0x6ED9EBA1
      else if t < 60 then ((b AND c) OR (b AND d) OR (c AND d)) + 0x8F1BBCDC
      else (b XOR c XOR d) + 0xCA62C1D6)"

fun sha1_rounds :: "nat \<Rightarrow> word32 list
    \<Rightarrow> word32 \<times> word32 \<times> word32 \<times> word32 \<times> word32 \<Rightarrow> word32 \<times> word32 \<times> word32 \<times> word32 \<times> word32" where
  "sha1_rounds t [] s = s"
| "sha1_rounds t (w # ws) (a, b, c, d, e) =
     sha1_rounds (Suc t) ws (rotl32 5 a + sha1_fk t b c d + e + w, a, rotl32 30 b, c, d)"

definition sha1_block :: "word32 list
    \<Rightarrow> word32 \<times> word32 \<times> word32 \<times> word32 \<times> word32 \<Rightarrow> word32 \<times> word32 \<times> word32 \<times> word32 \<times> word32" where
  "sha1_block ws s =
     (case (s, sha1_rounds 0 (rev (sha1_extend 64 (rev ws))) s) of
        ((a, b, c, d, e), (a', b', c', d', e')) \<Rightarrow> (a + a', b + b', c + c', d + d', e + e'))"

definition sha1 :: "bytes \<Rightarrow> bytes" where
  "sha1 m =
     (case fold sha1_block (blocks16 (words32 (md_pad m)))
             (0x67452301, 0xEFCDAB89, 0x98BADCFE, 0x10325476, 0xC3D2E1F0) of
        (a, b, c, d, e) \<Rightarrow> word_bytes [a, b, c, d, e])"

subsection \<open>SHA-256\<close>

text \<open>The constants are the first 32 bits of the fractional parts of roots of the first primes: cube
  roots for the rounds, square roots for the initial state.\<close>

definition first_primes :: "nat list" where
  "first_primes = filter (\<lambda>n. list_all (\<lambda>d. n mod d \<noteq> 0) [2..<n]) [2..<312]"

definition root_frac :: "nat \<Rightarrow> nat \<Rightarrow> word32" where
  "root_frac k p =
     word_of_nat (fold (\<lambda>i r. if (r + 2 ^ i) ^ k \<le> p * 2 ^ (32 * k) then r + 2 ^ i else r) (rev [0..<38]) 0)"

text \<open>Samples against the tables of the standard.\<close>

lemma sha256_constants:
  "root_frac 2 2 = 0x6a09e667" "root_frac 2 19 = 0x5be0cd19"
  "root_frac 3 2 = 0x428a2f98" "root_frac 3 311 = 0xc67178f2"
  by (simp_all add: root_frac_def upt_rec)

definition sha256_k :: "word32 list" where
  "sha256_k = map (root_frac 3) first_primes"

fun sha256_extend :: "nat \<Rightarrow> word32 list \<Rightarrow> word32 list" where
  "sha256_extend 0 ws = ws"
| "sha256_extend (Suc n) ws =
     (let x = ws ! 14; y = ws ! 1;
          s0 = rotr32 7 x XOR rotr32 18 x XOR drop_bit 3 x;
          s1 = rotr32 17 y XOR rotr32 19 y XOR drop_bit 10 y
      in sha256_extend n ((ws ! 15 + s0 + ws ! 6 + s1) # ws))"

type_synonym sha256_state =
  "word32 \<times> word32 \<times> word32 \<times> word32 \<times> word32 \<times> word32 \<times> word32 \<times> word32"

definition sha256_round :: "word32 \<times> word32 \<Rightarrow> sha256_state \<Rightarrow> sha256_state" where
  "sha256_round kw s =
     (case (kw, s) of ((k, w), (a, b, c, d, e, f, g, h)) \<Rightarrow>
        (let s1 = rotr32 6 e XOR rotr32 11 e XOR rotr32 25 e;
             ch = (e AND f) XOR (NOT e AND g);
             t1 = h + s1 + ch + k + w;
             s0 = rotr32 2 a XOR rotr32 13 a XOR rotr32 22 a;
             maj = (a AND b) XOR (a AND c) XOR (b AND c)
         in (t1 + s0 + maj, a, b, c, d + t1, e, f, g)))"

definition sha256_block :: "word32 list \<Rightarrow> sha256_state \<Rightarrow> sha256_state" where
  "sha256_block ws s =
     (case (s, fold sha256_round (zip sha256_k (rev (sha256_extend 48 (rev ws)))) s) of
        ((a, b, c, d, e, f, g, h), (a', b', c', d', e', f', g', h')) \<Rightarrow>
          (a + a', b + b', c + c', d + d', e + e', f + f', g + g', h + h'))"

definition sha256_init :: sha256_state where
  "sha256_init =
     (let h = root_frac 2 in (h 2, h 3, h 5, h 7, h 11, h 13, h 17, h 19))"

definition sha256 :: "bytes \<Rightarrow> bytes" where
  "sha256 m =
     (case fold sha256_block (blocks16 (words32 (md_pad m))) sha256_init of
        (a, b, c, d, e, f, g, h) \<Rightarrow> word_bytes [a, b, c, d, e, f, g, h])"

subsection \<open>HMAC\<close>

definition hmac_key :: "bytes \<Rightarrow> bytes" where
  "hmac_key k = (let k' = (if length k > 64 then sha256 k else k) in k' @ replicate (64 - length k') 0)"

definition hmac_sha256 :: "bytes \<Rightarrow> bytes \<Rightarrow> bytes" where
  "hmac_sha256 k m =
     (let key = hmac_key k
      in sha256 (map (\<lambda>b. b XOR 0x5c) key @ sha256 (map (\<lambda>b. b XOR 0x36) key @ m)))"

subsection \<open>Digest sizes\<close>

lemma length_word_bytes [simp]: "length (word_bytes ws) = 4 * length ws"
  by (induction ws) (auto simp: word_bytes_def)

lemma length_sha1 [simp]: "length (sha1 m) = 20"
  by (simp add: sha1_def split: prod.split)

lemma length_sha256 [simp]: "length (sha256 m) = 32"
  by (simp add: sha256_def split: prod.split)

lemma length_hmac_sha256 [simp]: "length (hmac_sha256 k m) = 32"
  by (simp add: hmac_sha256_def Let_def)

end
