(* ===== verification/Crypto.thy ===== *)
theory Crypto
  imports WsFrame Hash
begin

text \<open>
  \<open>crypto.go\<close>: base64 helpers, X25519 keys, HKDF and AES-GCM.  HKDF is modelled down to SHA-256;
  X25519, AES-GCM and Ed25519 are arguments (the record \<open>crypto_ops\<close>), with what the program relies
  on as \<open>crypto_laws\<close>.
\<close>

text \<open>
  \<open>x_pub\<close> is the public key of a private key, \<open>x_ecdh\<close> the shared secret (\<open>None\<close>: all zero, an
  error in Go), \<open>gcm_seal\<close> and \<open>gcm_open\<close> AES-GCM with a 12-byte nonce, \<open>ed_verify\<close> Ed25519.
\<close>

record crypto_ops =
  x_pub :: "bytes \<Rightarrow> bytes"
  x_ecdh :: "bytes \<Rightarrow> bytes \<Rightarrow> bytes option"
  gcm_seal :: "bytes \<Rightarrow> bytes \<Rightarrow> bytes \<Rightarrow> bytes"
  gcm_open :: "bytes \<Rightarrow> bytes \<Rightarrow> bytes \<Rightarrow> bytes option"
  ed_verify :: "bytes \<Rightarrow> bytes \<Rightarrow> bytes \<Rightarrow> bool"

definition crypto_laws :: "crypto_ops \<Rightarrow> bool" where
  "crypto_laws cr \<longleftrightarrow>
     (\<forall>k. length (x_pub cr k) = 32)
     \<and> (\<forall>a b. x_ecdh cr a (x_pub cr b) = x_ecdh cr b (x_pub cr a))
     \<and> (\<forall>k n p. gcm_open cr k n (gcm_seal cr k n p) = Some p)"

definition authKeyInfo :: string where
  "authKeyInfo = ''bitphase-fileshare-auth-v1''"

definition aeadKeySize :: nat where
  "aeadKeySize = 32"

definition b64 :: "bytes \<Rightarrow> string" where
  "b64 b = std_encode b"

definition unb64 :: "string \<Rightarrow> bytes option" where
  "unb64 s = std_decode s"

definition generateX25519Keypair :: "wsConn \<Rightarrow> bytes res \<times> wsConn" where
  "generateX25519Keypair c = rand_read 32 c"

definition parseX25519Public :: "bytes \<Rightarrow> bytes res" where
  "parseX25519Public raw =
     (if length raw = 32 then Inr raw else Inl (Err ''crypto/ecdh: invalid public key''))"

subsection \<open>HKDF\<close>

text \<open>The expansion loop: the counter is a byte and wraps around.\<close>

function hkdf_loop :: "bytes \<Rightarrow> bytes \<Rightarrow> nat \<Rightarrow> byte \<Rightarrow> bytes \<Rightarrow> bytes \<Rightarrow> bytes" where
  "hkdf_loop prk info len counter prev out =
     (if length out < len then
        (let t = hmac_sha256 prk (prev @ info @ [counter])
         in hkdf_loop prk info len (counter + 1) t (out @ t))
      else out)"
  by pat_completeness auto
termination
  by (relation "measure (\<lambda>(prk, info, len, counter, prev, out). len - length out)") auto

declare hkdf_loop.simps [simp del]

definition hkdf :: "bytes \<Rightarrow> string \<Rightarrow> nat \<Rightarrow> bytes" where
  "hkdf secret info len =
     (let prk = hmac_sha256 (replicate 32 0) secret
      in take len (hkdf_loop prk (bytes_of info) len 1 [] []))"

definition deriveAuthKey :: "bytes \<Rightarrow> bytes" where
  "deriveAuthKey shared = hkdf shared authKeyInfo aeadKeySize"

text \<open>RFC 5869's expansion: \<open>T(0)\<close> is empty, \<open>T(i)\<close> the HMAC of \<open>T(i-1)\<close>, the info and \<open>i\<close>.\<close>

fun hkdf_T :: "bytes \<Rightarrow> bytes \<Rightarrow> nat \<Rightarrow> bytes" where
  "hkdf_T prk info 0 = []"
| "hkdf_T prk info (Suc i) = hmac_sha256 prk (hkdf_T prk info i @ info @ [byte_of_nat (Suc i)])"

definition hkdf_blocks :: "bytes \<Rightarrow> bytes \<Rightarrow> nat \<Rightarrow> bytes" where
  "hkdf_blocks prk info n = concat (map (\<lambda>i. hkdf_T prk info (Suc i)) [0..<n])"

lemma length_hkdf_blocks [simp]: "length (hkdf_blocks prk info n) = 32 * n"
  by (induction n) (auto simp: hkdf_blocks_def)

lemma hkdf_blocks_Suc:
  "hkdf_blocks prk info (Suc n) = hkdf_blocks prk info n @ hkdf_T prk info (Suc n)"
  by (simp add: hkdf_blocks_def)

lemma byte_of_nat_Suc: "byte_of_nat n + 1 = byte_of_nat (Suc n)"
  by (simp add: byte_of_nat_def add.commute)

lemma hkdf_loop_blocks:
  "n \<le> m \<Longrightarrow> len \<le> 32 * m \<Longrightarrow> \<exists>k \<le> m. len \<le> 32 * k \<and>
     hkdf_loop prk info len (byte_of_nat (Suc n)) (hkdf_T prk info n) (hkdf_blocks prk info n)
       = hkdf_blocks prk info (max n k)"
proof (induction "m - n" arbitrary: n)
  case 0
  then show ?case by (subst hkdf_loop.simps) auto
next
  case (Suc d)
  show ?case
  proof (cases "32 * n < len")
    case True
    have "hkdf_loop prk info len (byte_of_nat (Suc n)) (hkdf_T prk info n) (hkdf_blocks prk info n)
        = hkdf_loop prk info len (byte_of_nat (Suc (Suc n))) (hkdf_T prk info (Suc n)) (hkdf_blocks prk info (Suc n))"
      using True by (subst hkdf_loop.simps) (simp add: Let_def hkdf_blocks_Suc byte_of_nat_Suc)
    moreover have "d = m - Suc n" "Suc n \<le> m" using Suc.hyps(2) by simp_all
    from Suc.hyps(1) [OF this Suc.prems(2)] obtain k where "k \<le> m" "len \<le> 32 * k"
      "hkdf_loop prk info len (byte_of_nat (Suc (Suc n))) (hkdf_T prk info (Suc n)) (hkdf_blocks prk info (Suc n))
        = hkdf_blocks prk info (max (Suc n) k)" by blast
    ultimately show ?thesis using True by (intro exI [of _ k]) (auto simp: max_def)
  next
    case False
    then show ?thesis using Suc.prems by (subst hkdf_loop.simps) (auto intro!: exI [of _ n])
  qed
qed

lemma hkdf_blocks_take: "n \<le> m \<Longrightarrow> take (32 * n) (hkdf_blocks prk info m) = hkdf_blocks prk info n"
proof (induction m)
  case (Suc m)
  then show ?case by (cases "n = Suc m") (auto simp: hkdf_blocks_Suc)
qed (simp add: hkdf_blocks_def)

lemma hkdf_reference:
  assumes "len \<le> 32 * m"
  shows "hkdf secret info len
    = take len (hkdf_blocks (hmac_sha256 (replicate 32 0) secret) (bytes_of info) m)"
proof -
  let ?b = "hkdf_blocks (hmac_sha256 (replicate 32 0) secret) (bytes_of info)"
  obtain k where k: "k \<le> m" "len \<le> 32 * k"
    "hkdf_loop (hmac_sha256 (replicate 32 0) secret) (bytes_of info) len (byte_of_nat (Suc 0)) [] (?b 0) = ?b k"
    using hkdf_loop_blocks [of 0 m len "hmac_sha256 (replicate 32 0) secret" "bytes_of info"] assms by auto
  have "take len (?b k) = take len (?b m)"
    using hkdf_blocks_take [OF k(1)] k(2) by (metis take_take min.absorb1)
  then show ?thesis using k(3)
    by (simp add: hkdf_def Let_def hkdf_blocks_def [of _ _ 0] byte_of_nat_def)
qed

lemma length_hkdf [simp]: "length (hkdf secret info len) = len"
  using hkdf_reference [of len len secret info] by simp

subsection \<open>AES-GCM\<close>

definition nonceSize :: nat where
  "nonceSize = 12"

text \<open>\<open>newAEAD\<close> accepts the AES key sizes.\<close>

definition newAEAD :: "bytes \<Rightarrow> unit res" where
  "newAEAD key =
     (if length key \<in> {16, 24, 32} then Inr () else Inl (Err ''crypto/aes: invalid key size''))"

definition seal :: "crypto_ops \<Rightarrow> bytes \<Rightarrow> bytes \<Rightarrow> wsConn \<Rightarrow> (bytes \<times> bytes) res \<times> wsConn" where
  "seal cr key plaintext c =
     (case newAEAD key of
        Inl e \<Rightarrow> (Inl e, c)
      | Inr _ \<Rightarrow>
         (case rand_read nonceSize c of
            (Inl e, c1) \<Rightarrow> (Inl e, c1)
          | (Inr nonce, c1) \<Rightarrow> (Inr (nonce, gcm_seal cr key nonce plaintext), c1)))"

text \<open>\<open>open\<close>, renamed: it clashes with a HOL constant.\<close>

definition open_aead :: "crypto_ops \<Rightarrow> bytes \<Rightarrow> bytes \<Rightarrow> bytes \<Rightarrow> bytes res" where
  "open_aead cr key nonce ciphertext =
     (case newAEAD key of
        Inl e \<Rightarrow> Inl e
      | Inr _ \<Rightarrow>
         (if length nonce \<noteq> nonceSize then Inl (Err ''bad nonce size'')
          else (case gcm_open cr key nonce ciphertext of
              None \<Rightarrow> Inl (Err ''cipher: message authentication failed'')
            | Some p \<Rightarrow> Inr p)))"

lemma open_seal:
  assumes "crypto_laws cr" "seal cr key p c = (Inr (nonce, ct), c')"
  shows "open_aead cr key nonce ct = Inr p"
  using assms
  by (auto simp: seal_def open_aead_def crypto_laws_def rand_read_def split: sum.splits if_splits)

lemma length_deriveAuthKey [simp]: "length (deriveAuthKey s) = 32"
  by (simp add: deriveAuthKey_def aeadKeySize_def)

lemma newAEAD_authKey [simp]: "newAEAD (deriveAuthKey s) = Inr ()"
  by (simp add: newAEAD_def)

lemma unb64_b64 [simp]: "unb64 (b64 b) = Some b"
  by (simp add: unb64_def b64_def)

end
