(* ===== verification/Types.thy ===== *)
theory Types
  imports Store Token Crypto
begin

text \<open>
  \<open>types.go\<close>: the control messages of the WebSocket protocol, and the JSON coding of everything the
  server sends or receives.
\<close>

text \<open>\<open>wsEnvelope\<close> with the source's fields, prefixed.\<close>

record wsEnvelope =
  env_Type :: string
  env_PubKey :: string
  env_Token :: string
  env_ServerEphemeralPub :: bytes
  env_Nonce :: bytes
  env_Ciphertext :: bytes
  env_Response :: bytes
  env_OK :: bool
  env_Error :: string
  env_TransferID :: string
  env_To :: string
  env_TotalChunks :: int
  env_Shareable :: bool
  env_Index :: int
  env_ReceivedIndices :: "int list"
  env_Transfers :: "transferSummary list"

text \<open>An envelope of a type, with Go's zero values elsewhere; and the error reply.\<close>

definition envelope :: "string \<Rightarrow> wsEnvelope" where
  "envelope t =
     \<lparr>env_Type = t, env_PubKey = [], env_Token = [], env_ServerEphemeralPub = [], env_Nonce = [],
      env_Ciphertext = [], env_Response = [], env_OK = False, env_Error = [], env_TransferID = [],
      env_To = [], env_TotalChunks = 0, env_Shareable = False, env_Index = 0,
      env_ReceivedIndices = [], env_Transfers = []\<rparr>"

definition error_envelope :: "string \<Rightarrow> string \<Rightarrow> wsEnvelope" where
  "error_envelope t msg = (envelope t)\<lparr>env_Error := msg\<rparr>"

record linkStartRequest =
  ls_Token :: string
  ls_TotalChunks :: int
  ls_OneTime :: bool
  ls_SecretOnly :: bool

text \<open>
  What the server takes from elsewhere: the cryptographic primitives, \<open>encoding/json\<close> on the
  program's types (\<open>Marshal\<close> can fail, on a time stamp outside the years JSON knows), and the order
  in which a map is ranged over.
\<close>

record deps =
  d_crypto :: crypto_ops
  d_token :: "bytes \<Rightarrow> clientToken option"
  d_enc :: "wsEnvelope \<Rightarrow> bytes option"
  d_dec :: "bytes \<Rightarrow> wsEnvelope option"
  d_start :: "bytes \<Rightarrow> linkStartRequest option"
  d_meta :: meta_codec
  d_iter :: "string list \<Rightarrow> string list"

end
