(* ===== verification/Delegate.thy ===== *)
theory Delegate
  imports Token Crypto FileSys
begin

text \<open>
  \<open>delegate.go\<close>: the key access tokens are verified against, pinned or certified by an offline root
  and refreshed every 30 minutes.  The broker's answers are arguments; the lemmas hold whatever it,
  or whoever stands between, answers.
\<close>

record delegateCertBody =
  DelegatePubKey :: string
  RootPubKey :: string
  dc_IssuedAt :: int
  dc_ExpiresAt :: int

record brokerKeySource =
  ks_pub :: bytes
  ks_expiresAt :: int

definition newStaticKeySource :: "bytes \<Rightarrow> brokerKeySource" where
  "newStaticKeySource pub = \<lparr>ks_pub = pub, ks_expiresAt = 0\<rparr>"

text \<open>\<open>now\<close> is \<open>time.Now().Unix()\<close>.\<close>

definition current :: "brokerKeySource \<Rightarrow> int \<Rightarrow> bytes res" where
  "current ks now =
     (if ks_expiresAt ks \<noteq> 0 \<and> now > ks_expiresAt ks
      then Inl (Err (''cached delegate certificate has expired and could not be refreshed '' @ em_dash
                      @ '' refusing to verify''))
      else Inr (ks_pub ks))"

definition set_key :: "bytes \<Rightarrow> int \<Rightarrow> brokerKeySource \<Rightarrow> brokerKeySource" where
  "set_key pub expiresAt ks = ks\<lparr>ks_pub := pub, ks_expiresAt := expiresAt\<rparr>"

text \<open>The text of a JSON error, which the decoder gives, is left out of the message.  What
  \<open>client.Get\<close> answers: an error, or a response whose body may fail to be read.\<close>

record http_resp =
  StatusCode :: int
  Status :: string
  Body :: "bytes res"
  SigHeader :: string

definition resolveDelegateKey ::
  "crypto_ops \<Rightarrow> (bytes \<Rightarrow> delegateCertBody option) \<Rightarrow> http_resp res \<Rightarrow> bytes \<Rightarrow> int \<Rightarrow> (bytes \<times> int) res" where
  "resolveDelegateKey cr dec got rootPub now =
     (case got of
        Inl e \<Rightarrow> Inl (Err (''fetching delegate cert: '' @ error_text e))
      | Inr resp \<Rightarrow>
         (case Body resp of
            Inl e \<Rightarrow> Inl e
          | Inr body \<Rightarrow>
             (if StatusCode resp \<noteq> 200 then
                Inl (Err (''delegate cert request failed: '' @ Status resp @ '': '' @ string_of body))
              else
                (case unb64 (SigHeader resp) of
                   None \<Rightarrow> Inl (Err ''missing/invalid X-Signature header on delegate cert'')
                 | Some sig \<Rightarrow>
                    (if \<not> ed_verify cr rootPub body sig then
                       Inl (Err (''delegate certificate signature verification FAILED against the pinned root pubkey ''
                         @ em_dash @ '' refusing to trust it''))
                     else
                       (case dec body of
                          None \<Rightarrow> Inl (Err ''delegate cert is not valid JSON: '')
                        | Some cert \<Rightarrow>
                           (if RootPubKey cert \<noteq> b64 rootPub then
                              Inl (Err ''delegate cert was minted for a different root pubkey than the one pinned here'')
                            else if now < dc_IssuedAt cert \<or> now > dc_ExpiresAt cert then
                              Inl (Err (''delegate cert is not currently valid (issued_at='' @ itoa (dc_IssuedAt cert)
                          @ '' expires_at='' @ itoa (dc_ExpiresAt cert) @ '' now='' @ itoa now @ '')''))
                            else
                              (case unb64 (DelegatePubKey cert) of
                                 None \<Rightarrow> Inl (Err (''delegate cert'' @ [CHR 0x27] @ ''s delegate_pubkey is not a valid Ed25519 public key''))
                               | Some raw \<Rightarrow>
                                  (if length raw \<noteq> 32 then
                                     Inl (Err (''delegate cert'' @ [CHR 0x27] @ ''s delegate_pubkey is not a valid Ed25519 public key''))
                                   else Inr (raw, dc_ExpiresAt cert))))))))))"

definition newDelegateKeySource ::
  "crypto_ops \<Rightarrow> (bytes \<Rightarrow> delegateCertBody option) \<Rightarrow> http_resp res \<Rightarrow> bytes \<Rightarrow> int \<Rightarrow> brokerKeySource res" where
  "newDelegateKeySource cr dec got rootPub now =
     (case resolveDelegateKey cr dec got rootPub now of
        Inl e \<Rightarrow> Inl (Err (''resolving initial delegate key: '' @ error_text e))
      | Inr (pub, expiresAt) \<Rightarrow> Inr \<lparr>ks_pub = pub, ks_expiresAt = expiresAt\<rparr>)"

text \<open>One tick of the background loop: keep the last good key when the refresh fails.\<close>

definition refresh_tick ::
  "crypto_ops \<Rightarrow> (bytes \<Rightarrow> delegateCertBody option) \<Rightarrow> bytes \<Rightarrow> http_resp res \<times> int
     \<Rightarrow> brokerKeySource \<Rightarrow> brokerKeySource" where
  "refresh_tick cr dec rootPub tick ks =
     (case resolveDelegateKey cr dec (fst tick) rootPub (snd tick) of
        Inl e \<Rightarrow> ks
      | Inr (pub, expiresAt) \<Rightarrow> set_key pub expiresAt ks)"

subsection \<open>What the operator is told\<close>

text \<open>
  The lines \<open>newDelegateKeySource\<close> and the refresh loop log.  \<open>nowNs\<close> is \<open>time.Now()\<close> in
  nanoseconds; \<open>time_sub\<close> is \<open>Sub\<close>, which saturates, and \<open>hours_text\<close> what \<open>Round(time.Hour)\<close> prints.
\<close>

definition hour :: int where
  "hour = 3600 * 10 ^ 9"

definition time_sub :: "int \<Rightarrow> int \<Rightarrow> int" where
  "time_sub a b = max (- (2 ^ 63)) (min (2 ^ 63 - 1) (a - b))"

definition round_hours :: "int \<Rightarrow> int" where
  "round_hours x = (if x < 0 then - ((- x + hour div 2) div hour) else (x + hour div 2) div hour)"

definition hours_text :: "int \<Rightarrow> string" where
  "hours_text x = (if round_hours x = 0 then ''0s'' else itoa (round_hours x) @ ''h0m0s'')"

definition expiry_warning :: "int \<Rightarrow> int \<Rightarrow> string list" where
  "expiry_warning nowNs expiresAt =
     (let remaining = time_sub (expiresAt * 10 ^ 9) nowNs
      in if remaining < 7 * 24 * hour
         then [''WARNING: broker delegate certificate expires in '' @ hours_text remaining @ '' '' @ em_dash
               @ '' mint and deploy a replacement soon'']
         else [])"

definition newDelegate_log :: "int \<Rightarrow> brokerKeySource res \<Rightarrow> string list" where
  "newDelegate_log nowNs r = (case r of Inl e \<Rightarrow> [] | Inr ks \<Rightarrow> expiry_warning nowNs (ks_expiresAt ks))"

definition refresh_log ::
  "crypto_ops \<Rightarrow> (bytes \<Rightarrow> delegateCertBody option) \<Rightarrow> bytes \<Rightarrow> http_resp res \<times> int \<Rightarrow> int \<Rightarrow> string list" where
  "refresh_log cr dec rootPub tick nowNs =
     (case resolveDelegateKey cr dec (fst tick) rootPub (snd tick) of
        Inl e \<Rightarrow> [''WARNING: delegate key refresh failed, keeping last-known-good key: '' @ error_text e]
      | Inr (pub, expiresAt) \<Rightarrow> expiry_warning nowNs expiresAt)"

text \<open>A turn of the loop that leaves a key with less than a week to live has said so.\<close>

lemma expiring_key_is_logged:
  assumes "ks_expiresAt (refresh_tick cr dec rootPub tick ks) * 10 ^ 9 < nowNs + 7 * 24 * hour"
  shows "refresh_log cr dec rootPub tick nowNs \<noteq> []"
  using assms
  by (auto simp: refresh_log_def refresh_tick_def expiry_warning_def set_key_def time_sub_def Let_def hour_def
      split: sum.splits)

subsection \<open>Only certified keys, only while their certificate lasts\<close>

text \<open>\<open>root_certified\<close>: the root signed a certificate that names this key and this expiry.\<close>

definition root_certified ::
  "crypto_ops \<Rightarrow> (bytes \<Rightarrow> delegateCertBody option) \<Rightarrow> bytes \<Rightarrow> bytes \<Rightarrow> int \<Rightarrow> bool" where
  "root_certified cr dec rootPub pub expiresAt \<longleftrightarrow>
     (\<exists>body sig cert. ed_verify cr rootPub body sig \<and> dec body = Some cert
        \<and> RootPubKey cert = b64 rootPub \<and> unb64 (DelegatePubKey cert) = Some pub
        \<and> length pub = 32 \<and> dc_ExpiresAt cert = expiresAt)"

lemma resolve_sound:
  assumes "resolveDelegateKey cr dec got rootPub now = Inr (pub, expiresAt)"
  shows "root_certified cr dec rootPub pub expiresAt \<and> now \<le> expiresAt"
  using assms
  by (auto simp: resolveDelegateKey_def root_certified_def split: sum.splits option.splits if_splits)

definition key_source_inv :: "crypto_ops \<Rightarrow> (bytes \<Rightarrow> delegateCertBody option) \<Rightarrow> bytes \<Rightarrow> brokerKeySource \<Rightarrow> bool" where
  "key_source_inv cr dec rootPub ks \<longleftrightarrow>
     root_certified cr dec rootPub (ks_pub ks) (ks_expiresAt ks) \<and> 0 < ks_expiresAt ks"

lemma newDelegate_inv:
  "newDelegateKeySource cr dec got rootPub now = Inr ks \<Longrightarrow> 0 < now \<Longrightarrow> key_source_inv cr dec rootPub ks"
  by (auto simp: newDelegateKeySource_def key_source_inv_def dest!: resolve_sound split: sum.splits)

lemma refresh_inv:
  "key_source_inv cr dec rootPub ks \<Longrightarrow> 0 < snd tick
     \<Longrightarrow> key_source_inv cr dec rootPub (refresh_tick cr dec rootPub tick ks)"
  by (auto simp: refresh_tick_def key_source_inv_def set_key_def dest!: resolve_sound split: sum.splits)

interpretation delegate_machine: guarded_machine "refresh_tick cr dec rootPub"
  "\<lambda>tick ks. 0 < snd tick" "key_source_inv cr dec rootPub" for cr dec rootPub
  by unfold_locales (rule refresh_inv)

lemma guarded_ticks:
  "guarded_run step (\<lambda>tick ks. P tick) ticks ks \<longleftrightarrow> list_all P ticks"
  by (induction ticks arbitrary: ks) auto

lemma current_certified:
  assumes "key_source_inv cr dec rootPub ks" "current ks now = Inr pub"
  shows "\<exists>expiresAt. root_certified cr dec rootPub pub expiresAt \<and> now \<le> expiresAt"
  using assms by (auto simp: key_source_inv_def current_def split: if_splits)

lemma refreshed_key_certified:
  assumes "newDelegateKeySource cr dec got rootPub start = Inr ks" "0 < start"
    "list_all (\<lambda>tick. 0 < snd tick) ticks"
    "current (run (refresh_tick cr dec rootPub) ticks ks) now = Inr pub"
  shows "\<exists>expiresAt. root_certified cr dec rootPub pub expiresAt \<and> now \<le> expiresAt"
proof (rule current_certified [OF _ assms(4)])
  show "key_source_inv cr dec rootPub (run (refresh_tick cr dec rootPub) ticks ks)"
    using delegate_machine.run_inv [OF newDelegate_inv [OF assms(1,2)]] assms(3)
    by (simp add: guarded_ticks)
qed

end
