(* ===== verification/WsMessage.thy ===== *)
theory WsMessage
  imports WsFrame
begin

text \<open>
  \<open>ReadMessage\<close> of \<open>ws.go\<close>: the loop that puts a message together from its fragments, answers
  pings and gives up on a close frame, an error, or a message larger than the cap.  The lemmas say
  that it always returns (each turn consumes input), that what it returns is within the cap and of
  one of the two data opcodes, and that any fragmentation of a message, with control frames between
  the fragments, reads as that message.
\<close>

subsection \<open>The loop\<close>

text \<open>
  One pass through the loop's body either returns or goes on with the payload so far and the first
  data opcode (\<open>None\<close> while \<open>haveFirst\<close> is not set).  \<open>limit\<close> is the variable \<open>maxMessageSize\<close>.
\<close>

datatype read_turn = Return "(bytes \<times> wsOpcode) res" | Continue bytes "wsOpcode option"

definition read_body :: "nat \<Rightarrow> bytes \<Rightarrow> wsOpcode option \<Rightarrow> wsConn \<Rightarrow> read_turn \<times> wsConn" where
  "read_body limit payload first c =
     (case readFrame c of
        (Inl e, c1) \<Rightarrow> (Return (Inl e), c1)
      | (Inr (fin, opcode, data), c1) \<Rightarrow>
         (if opcode = opPing then
            (case writeFrame opPong data c1 of
               (Inl e, c2) \<Rightarrow> (Return (Inl e), c2)
             | (Inr _, c2) \<Rightarrow> (Continue payload first, c2))
          else if opcode = opPong then (Continue payload first, c1)
          else if opcode = opClose then (Return (Inl IO_EOF), c1)
          else
            (let firstOpcode = (case first of None \<Rightarrow> opcode | Some o1 \<Rightarrow> o1)
             in if length payload + length data > limit then (Return (Inl (Err ''message too large'')), c1)
                else if fin then
                  (if firstOpcode \<noteq> opText \<and> firstOpcode \<noteq> opBinary
                   then (Return (Inl (Err ''unsupported opcode'')), c1)
                   else (Return (Inr (payload @ data, firstOpcode)), c1))
                else (Continue (payload @ data) (Some firstOpcode), c1))))"

text \<open>Every pass that goes on, or that returns a message, has taken a frame off the input.\<close>

lemma read_body_consumes:
  assumes "read_body limit payload first c = (t, c')" "\<And>e. t \<noteq> Return (Inl e)"
  shows "length (c_in c') < length (c_in c)"
proof -
  obtain fin opcode data c1 where f: "readFrame c = (Inr (fin, opcode, data), c1)"
    using assms by (auto simp: read_body_def split: prod.splits sum.splits)
  have "c_in c' = c_in c1"
    using assms f by (auto simp: read_body_def Let_def split: prod.splits sum.splits if_splits
        dest: writeFrame_same)
  then show ?thesis using readFrame_consumes [OF f] by simp
qed

function read_loop :: "nat \<Rightarrow> bytes \<Rightarrow> wsOpcode option \<Rightarrow> wsConn \<Rightarrow> (bytes \<times> wsOpcode) res \<times> wsConn" where
  "read_loop limit payload first c =
     (case read_body limit payload first c of
        (Return r, c1) \<Rightarrow> (r, c1)
      | (Continue payload' first', c1) \<Rightarrow> read_loop limit payload' first' c1)"
  by pat_completeness auto
termination
  by (relation "measure (\<lambda>(limit, payload, first, c). length (c_in c))")
     (auto dest: read_body_consumes [OF sym])

declare read_loop.simps [simp del]

definition ReadMessage :: "wsConn \<Rightarrow> (bytes \<times> wsOpcode) res \<times> wsConn" where
  "ReadMessage c = read_loop maxMessageSize [] None c"

subsection \<open>Whatever the input\<close>

text \<open>What reading does to a connection: input is taken from the front, output only added.\<close>

definition conn_grows :: "wsConn \<Rightarrow> wsConn \<Rightarrow> bool" where
  "conn_grows c c' \<longleftrightarrow> suffix (c_in c') (c_in c) \<and> prefix (c_out c) (c_out c')
     \<and> c_end c' = c_end c \<and> c_closed c' = c_closed c \<and> maskOutgoing c' = maskOutgoing c"

lemma conn_grows_refl [simp]: "conn_grows c c"
  by (simp add: conn_grows_def)

lemma conn_grows_trans: "conn_grows a b \<Longrightarrow> conn_grows b c \<Longrightarrow> conn_grows a c"
  by (auto simp: conn_grows_def intro: suffix_order.trans prefix_order.trans)

lemma readFrame_grows: "readFrame c = (r, c') \<Longrightarrow> conn_grows c c'"
  by (auto simp: conn_grows_def suffix_drop dest!: readFrame_rest)

lemma writeFrame_grows: "writeFrame opcode p c = (r, c') \<Longrightarrow> conn_grows c c'"
  by (auto simp: conn_grows_def dest: writeFrame_same)

lemma read_body_grows: "read_body limit payload first c = (t, c') \<Longrightarrow> conn_grows c c'"
  by (auto simp: read_body_def Let_def split: prod.splits sum.splits if_splits
      intro: conn_grows_trans dest!: readFrame_grows writeFrame_grows)

lemma read_body_Return:
  "read_body limit payload first c = (Return (Inr (p, opcode)), c') \<Longrightarrow>
     length p \<le> limit \<and> opcode \<in> {opText, opBinary} \<and> prefix payload p"
  by (auto simp: read_body_def Let_def split: prod.splits sum.splits if_splits option.splits)

lemma read_body_Continue:
  "read_body limit payload first c = (Continue p first', c') \<Longrightarrow> length payload \<le> limit \<Longrightarrow>
     length p \<le> limit \<and> prefix payload p"
  by (auto simp: read_body_def Let_def split: prod.splits sum.splits if_splits)

lemma read_loop_ok:
  "read_loop limit payload first c = (r, c') \<Longrightarrow> length payload \<le> limit \<Longrightarrow>
     conn_grows c c' \<and> (\<forall>p opcode. r = Inr (p, opcode) \<longrightarrow>
       length p \<le> limit \<and> opcode \<in> {opText, opBinary} \<and> length (c_in c') < length (c_in c))"
proof (induction limit payload first c arbitrary: r c' rule: read_loop.induct)
  case (1 limit payload first c)
  obtain t c1 where b: "read_body limit payload first c = (t, c1)" by fastforce
  note g = read_body_grows [OF b]
  show ?case
  proof (cases t)
    case (Return r1)
    then have "r = r1" "c' = c1" using 1(2) b by (simp_all add: read_loop.simps [of limit])
    then show ?thesis using b Return g read_body_consumes [OF b] read_body_Return by blast
  next
    case (Continue p first')
    then have r: "read_loop limit p first' c1 = (r, c')"
      using 1(2) b by (simp add: read_loop.simps [of limit _ _ c])
    have "length p \<le> limit" using read_body_Continue [OF b [unfolded Continue] 1(3)] by simp
    from 1(1) [OF b [symmetric] Continue r this]
    show ?thesis using conn_grows_trans [OF g] read_body_consumes [OF b] Continue by fastforce
  qed
qed

lemma ReadMessage_ok:
  assumes "ReadMessage c = (r, c')"
  shows "conn_grows c c'"
    "r = Inr (p, opcode) \<Longrightarrow> length p \<le> maxMessageSize \<and> opcode \<in> {opText, opBinary}
       \<and> length (c_in c') < length (c_in c)"
  using read_loop_ok [OF assms [unfolded ReadMessage_def]] by auto

subsection \<open>Fragmented messages\<close>

text \<open>Frames on the wire, and what a reader is to make of a run of them: the data they carry, the
  pings to be answered.\<close>

datatype wframe = WFrame (w_fin: bool) (w_op: wsOpcode) (w_key: "bytes option") (w_data: bytes)

definition wire :: "wframe list \<Rightarrow> bytes" where
  "wire fs = concat (map (\<lambda>f. frame_bytes (w_fin f) (w_op f) (w_key f) (w_data f)) fs)"

definition is_control :: "wframe \<Rightarrow> bool" where
  "is_control f \<longleftrightarrow> w_op f = opPing \<or> w_op f = opPong"

definition data_of :: "wframe list \<Rightarrow> bytes" where
  "data_of fs = concat (map w_data (filter (\<lambda>f. \<not> is_control f) fs))"

definition pongs :: "wframe list \<Rightarrow> bytes" where
  "pongs fs = concat (map (\<lambda>f. frame_bytes True opPong None (w_data f)) (filter (\<lambda>f. w_op f = opPing) fs))"


definition sound_frame :: "wframe \<Rightarrow> bool" where
  "sound_frame f \<longleftrightarrow> frame_wf (w_op f) (w_key f) (w_data f)"

text \<open>\<open>message_frames opcode first fs\<close>: the frames \<open>fs\<close> carry a message of that opcode to its
  end, \<open>first\<close> telling whether its first fragment has been seen.\<close>

fun message_frames :: "wsOpcode \<Rightarrow> bool \<Rightarrow> wframe list \<Rightarrow> bool" where
  "message_frames opcode seen [] = False"
| "message_frames opcode seen (f # fs) =
     (if is_control f then message_frames opcode seen fs
      else w_op f = (if seen then opContinuation else opcode)
           \<and> (if w_fin f then fs = [] else message_frames opcode True fs))"

lemma read_loop_message:
  assumes "opcode = opText \<or> opcode = opBinary"
  shows "message_frames opcode (first \<noteq> None) fs \<Longrightarrow> list_all sound_frame fs \<Longrightarrow>
    first = None \<or> first = Some opcode \<Longrightarrow> c_in c = wire fs @ rest \<Longrightarrow>
    \<not> maskOutgoing c \<Longrightarrow> c_quota c = None \<Longrightarrow> length payload + length (data_of fs) \<le> limit \<Longrightarrow>
    read_loop limit payload first c
      = (Inr (payload @ data_of fs, opcode), c\<lparr>c_in := rest, c_out := c_out c @ pongs fs\<rparr>)"
proof (induction fs arbitrary: payload first c)
  case Nil
  then show ?case by simp
next
  case (Cons f fs)
  let ?c1 = "c\<lparr>c_in := wire fs @ rest\<rparr>"
  have rf: "readFrame c = (Inr (w_fin f, w_op f, w_data f), ?c1)"
    using Cons.prems(2,4) by (intro readFrame_frame) (simp_all add: sound_frame_def wire_def)
  consider "w_op f = opPing" | "w_op f = opPong" | "\<not> is_control f"
    by (auto simp: is_control_def)
  then show ?case
  proof cases
    case 1
    let ?c2 = "?c1\<lparr>c_out := c_out c @ frame_bytes True opPong None (w_data f)\<rparr>"
    have "writeFrame opPong (w_data f) ?c1 = (Inr (), ?c2)"
      using Cons.prems(5,6) by (subst writeFrame_server) simp_all
    then have "read_loop limit payload first c = read_loop limit payload first ?c2"
      using rf 1 by (simp add: read_loop.simps [of limit _ _ c] read_body_def)
    also have "\<dots> = (Inr (payload @ data_of fs, opcode),
        ?c2\<lparr>c_in := rest, c_out := c_out ?c2 @ pongs fs\<rparr>)"
      using Cons.prems 1 by (intro Cons.IH) (simp_all add: is_control_def data_of_def)
    finally show ?thesis using 1 by (simp add: is_control_def data_of_def pongs_def)
  next
    case 2
    then have "w_op f \<noteq> opPing" by (simp add: opcode_defs)
    then have "read_loop limit payload first c = read_loop limit payload first ?c1"
      using rf 2 by (simp add: read_loop.simps [of limit _ _ c] read_body_def)
    also have "\<dots> = (Inr (payload @ data_of fs, opcode), ?c1\<lparr>c_in := rest, c_out := c_out ?c1 @ pongs fs\<rparr>)"
      using Cons.prems 2 by (intro Cons.IH) (simp_all add: is_control_def data_of_def)
    finally show ?thesis using 2 \<open>w_op f \<noteq> opPing\<close> by (simp add: is_control_def data_of_def pongs_def)
  next
    case 3
    then have op: "w_op f = (if first \<noteq> None then opContinuation else opcode)"
      and no: "w_op f \<noteq> opPing" "w_op f \<noteq> opPong" "w_op f \<noteq> opClose"
      using Cons.prems(1) assms by (auto simp: is_control_def opcode_defs)
    have fo: "(case first of None \<Rightarrow> w_op f | Some o1 \<Rightarrow> o1) = opcode"
      using op Cons.prems(3) by auto
    have len: "length payload + length (w_data f) + length (data_of fs) \<le> limit"
      using Cons.prems(7) 3 by (simp add: data_of_def)
    show ?thesis
    proof (cases "w_fin f")
      case True
      then have "fs = []" using Cons.prems(1) 3 by simp
      then show ?thesis using rf no fo len assms True 3
        by (auto simp: read_loop.simps [of limit] read_body_def Let_def data_of_def wire_def pongs_def)
    next
      case False
      have "read_loop limit payload first c = read_loop limit (payload @ w_data f) (Some opcode) ?c1"
        using rf no fo len False by (simp add: read_loop.simps [of limit _ _ c] read_body_def Let_def)
      also have "\<dots> = (Inr ((payload @ w_data f) @ data_of fs, opcode),
          ?c1\<lparr>c_in := rest, c_out := c_out ?c1 @ pongs fs\<rparr>)"
        using Cons.prems 3 False len by (intro Cons.IH) simp_all
      finally show ?thesis using 3 no by (simp add: data_of_def pongs_def)
    qed
  qed
qed

end
