(* ===== verification/StoreInv.thy ===== *)
theory StoreInv
  imports Store
begin

text \<open>
  The store's invariant and where on disk each operation writes.  \<open>store_inv\<close> is about the maps;
  \<open>disk_inv\<close> says the data directory is there; both survive every operation under every pattern
  of disk faults.  The frame lemmas say an operation on a transfer leaves all paths outside that
  transfer's directory alone.
\<close>

subsection \<open>Where a transfer lives\<close>

lemma id_char_no_path:
  assumes "id_char c"
  shows "c \<noteq> CHR ''/''" "c \<noteq> CHR ''.''"
  using assms by (auto simp: id_char_def)

lemma validTransferID_plain: "validTransferID i \<Longrightarrow> plain_name i"
  by (cases i) (auto simp: validTransferID_def plain_name_def list_all_iff dest: id_char_no_path)

abbreviation store_root :: "store \<Rightarrow> gopath" where
  "store_root s \<equiv> clean_path (dataDir s)"

lemma transferDir_child:
  "dataDir s \<noteq> [] \<Longrightarrow> validTransferID i \<Longrightarrow> transferDir s i = child (store_root s) i"
  by (simp add: transferDir_def filepath_join_eq join_path_child validTransferID_plain)

lemma transferDir_cong: "dataDir s' = dataDir s \<Longrightarrow> transferDir s' i = transferDir s i"
  by (simp add: transferDir_def)

lemma plain_meta_names [simp]: "plain_name ''meta.json''" "plain_name ''meta.json.tmp''"
  by (simp_all add: plain_name_def)

lemma digits_no_slash: "CHR ''/'' \<notin> set (nat_digits n)"
  using nat_digits_chars digit_char_not_sign(3) by fastforce

lemma plain_chunk_name [simp]: "plain_name (chunk_name i)"
proof -
  have "CHR ''/'' \<notin> set (itoa i)" by (auto simp: itoa_def digits_no_slash)
  moreover have "length (chunk_name i) > 2" by (simp add: chunk_name_def)
  ultimately show ?thesis by (auto simp: plain_name_def chunk_name_def)
qed

lemma meta_path_child: "meta_path d = child d ''meta.json''"
  by (simp add: meta_path_def join_path_child)

lemma tmp_path_child: "tmp_path d = child d ''meta.json.tmp''"
  by (simp add: tmp_path_def join_path_child)

lemma chunk_path_child: "chunk_path d i = child d (chunk_name i)"
  by (simp add: chunk_path_def join_path_child)

lemmas path_simps = meta_path_child tmp_path_child chunk_path_child

lemma chunk_name_inject: "int64_range i \<Longrightarrow> int64_range j \<Longrightarrow> chunk_name i = chunk_name j \<longleftrightarrow> i = j"
  by (simp add: chunk_name_def itoa_inject)

lemma chunk_index_name: "int64_range i \<Longrightarrow> chunk_index (chunk_name i) = Some i"
  by (simp add: chunk_index_def chunk_name_def)

lemma no_chunk_index [simp]:
  "chunk_index ''meta.json'' = None" "chunk_index ''meta.json.tmp'' = None"
  by (simp_all add: chunk_index_def cut_suffix_def suffix_def)

lemma chunk_name_not_meta [simp]:
  "chunk_name i \<noteq> ''meta.json''" "chunk_name i \<noteq> ''meta.json.tmp''"
  "''meta.json'' \<noteq> chunk_name i" "''meta.json.tmp'' \<noteq> chunk_name i"
  by (auto simp: chunk_name_def dest: arg_cong [where f = rev])

subsection \<open>The invariant of the maps\<close>

definition direct_form :: "transferMeta \<Rightarrow> bool" where
  "direct_form m \<longleftrightarrow> Mode m = [] \<and> From m \<noteq> [] \<and> To m \<noteq> [] \<and> ManageToken m = [] \<and> \<not> OneTime m"

definition link_form :: "transferMeta \<Rightarrow> bool" where
  "link_form m \<longleftrightarrow> Mode m = ''link'' \<and> From m = [] \<and> To m = [] \<and> \<not> Shareable m"

definition meta_wf :: "string \<Rightarrow> transferMeta \<Rightarrow> bool" where
  "meta_wf i m \<longleftrightarrow> TransferID m = i \<and> validTransferID i \<and> 0 < TotalChunks m
     \<and> int64_range (TotalChunks m) \<and> (direct_form m \<or> link_form m)"

definition received_wf :: "transferMeta \<Rightarrow> intset \<Rightarrow> bool" where
  "received_wf m xs \<longleftrightarrow> distinct xs \<and> set xs \<subseteq> {0..<TotalChunks m}"

text \<open>A one-time transfer that is still there has a chunk that was never served.\<close>

definition served_wf :: "transferMeta \<Rightarrow> intset \<Rightarrow> bool" where
  "served_wf m xs \<longleftrightarrow> Mode m = ''link'' \<and> received_wf m xs
     \<and> (OneTime m \<longrightarrow> int (length xs) < TotalChunks m)"

definition over_meta :: "store \<Rightarrow> (transferMeta \<Rightarrow> intset \<Rightarrow> bool) \<Rightarrow> (string, intset) gomap \<Rightarrow> bool" where
  "over_meta s P f \<longleftrightarrow>
     (\<forall>i xs. mget f i = Some xs \<longrightarrow> (\<exists>m. mget (meta s) i = Some m \<and> P m xs))"

definition store_inv :: "store \<Rightarrow> bool" where
  "store_inv s \<longleftrightarrow> dataDir s \<noteq> []
     \<and> keys_distinct (meta s) \<and> keys_distinct (received s) \<and> keys_distinct (served s)
     \<and> (\<forall>i m. mget (meta s) i = Some m \<longrightarrow> meta_wf i m)
     \<and> over_meta s received_wf (received s)
     \<and> over_meta s served_wf (served s)
     \<and> (\<forall>u. u \<noteq> [] \<longrightarrow> senderCount s u \<le> maxTransfersPerSender)"

lemma store_inv_meta: "store_inv s \<Longrightarrow> mget (meta s) i = Some m \<Longrightarrow> meta_wf i m"
  by (simp add: store_inv_def)

lemma store_inv_dir: "store_inv s \<Longrightarrow> dataDir s \<noteq> []"
  by (simp add: store_inv_def)

lemma over_metaD:
  "over_meta s P f \<Longrightarrow> mget f i = Some xs \<Longrightarrow> \<exists>m. mget (meta s) i = Some m \<and> P m xs"
  by (simp add: over_meta_def)

lemma store_inv_over:
  assumes "store_inv s"
  shows "over_meta s received_wf (received s)" "over_meta s served_wf (served s)"
  using assms by (simp_all add: store_inv_def)

lemma store_inv_received:
  "store_inv s \<Longrightarrow> mget (received s) i = Some xs \<Longrightarrow> mget (meta s) i = Some m \<Longrightarrow> received_wf m xs"
  using over_metaD [OF store_inv_over(1)] by fastforce

lemma store_inv_served:
  "store_inv s \<Longrightarrow> mget (served s) i = Some xs \<Longrightarrow> mget (meta s) i = Some m \<Longrightarrow> served_wf m xs"
  using over_metaD [OF store_inv_over(2)] by fastforce

lemma store_inv_no_received: "store_inv s \<Longrightarrow> mget (meta s) i = None \<Longrightarrow> mget (received s) i = None"
  by (cases "mget (received s) i") (auto dest: over_metaD [OF store_inv_over(1)])

lemma store_inv_no_served: "store_inv s \<Longrightarrow> mget (meta s) i = None \<Longrightarrow> mget (served s) i = None"
  by (cases "mget (served s) i") (auto dest: over_metaD [OF store_inv_over(2)])

lemma store_inv_empty [simp]: "dir \<noteq> [] \<Longrightarrow> store_inv (empty_store dir life)"
  by (simp add: store_inv_def empty_store_def over_meta_def senderCount_def count_vals_def)

lemma store_inv_transferDir:
  "store_inv s \<Longrightarrow> mget (meta s) i = Some m \<Longrightarrow> transferDir s i = child (store_root s) i"
  by (rule transferDir_child) (auto simp: store_inv_dir dest: store_inv_meta simp: meta_wf_def)

subsection \<open>Each change of the maps keeps it\<close>

text \<open>How the facts tied to the transfers follow the maps.\<close>

lemma over_meta_fields [simp]:
  "over_meta (s\<lparr>received := r\<rparr>) P f = over_meta s P f"
  "over_meta (s\<lparr>served := r\<rparr>) P f = over_meta s P f"
  by (simp_all add: over_meta_def)

lemma over_meta_put:
  "over_meta s P f \<Longrightarrow> mget (meta s) i = Some m \<Longrightarrow> P m xs \<Longrightarrow> over_meta s P (mput i xs f)"
  by (simp add: over_meta_def)

lemma over_meta_new:
  "over_meta s P f \<Longrightarrow> mget (meta s) i = None \<Longrightarrow> over_meta (s\<lparr>meta := mput i m (meta s)\<rparr>) P f"
  by (fastforce simp: over_meta_def)

lemma over_meta_change:
  assumes "over_meta s P f" "mget (meta s) i = Some m" "\<And>xs. P m' xs = P m xs"
  shows "over_meta (s\<lparr>meta := mput i m' (meta s)\<rparr>) P f"
  unfolding over_meta_def
proof (intro allI impI)
  fix j xs assume "mget f j = Some xs"
  with assms(1) obtain x where "mget (meta s) j = Some x" "P x xs"
    using over_metaD by blast
  then show "\<exists>x. mget (meta (s\<lparr>meta := mput i m' (meta s)\<rparr>)) j = Some x \<and> P x xs"
    using assms(2,3) by (cases "j = i") simp_all
qed

lemma over_meta_del:
  "over_meta s P f \<Longrightarrow> over_meta (s\<lparr>meta := mdel i (meta s)\<rparr>) P (mdel i f)"
  by (simp add: over_meta_def)

lemma senderCount_fields [simp]:
  "senderCount (s\<lparr>received := r\<rparr>) u = senderCount s u"
  "senderCount (s\<lparr>served := r\<rparr>) u = senderCount s u"
  by (simp_all add: senderCount_def)

lemma senderCount_new:
  "mget (meta s) i = None \<Longrightarrow>
     senderCount (s\<lparr>meta := mput i m (meta s)\<rparr>) u = senderCount s u + (if From m = u then 1 else 0)"
  by (simp add: senderCount_def count_vals_new)

lemma senderCount_change:
  "mget (meta s) i = Some m \<Longrightarrow> From m' = From m \<Longrightarrow>
     senderCount (s\<lparr>meta := mput i m' (meta s)\<rparr>) u = senderCount s u"
  by (simp add: senderCount_def count_vals_same)

lemma senderCount_del: "senderCount (s\<lparr>meta := mdel i (meta s)\<rparr>) u \<le> senderCount s u"
  by (simp add: senderCount_def count_vals_mdel)

lemma store_invI [inv_intros]:
  assumes "dataDir s \<noteq> []" "keys_distinct (meta s)" "keys_distinct (received s)"
    "keys_distinct (served s)" "\<And>i m. mget (meta s) i = Some m \<Longrightarrow> meta_wf i m"
    "over_meta s received_wf (received s)" "over_meta s served_wf (served s)"
    "\<And>u. u \<noteq> [] \<Longrightarrow> senderCount s u \<le> maxTransfersPerSender"
  shows "store_inv s"
  using assms by (simp add: store_inv_def)

lemma store_invD:
  assumes "store_inv s"
  shows "dataDir s \<noteq> []" "keys_distinct (meta s)" "keys_distinct (received s)"
    "keys_distinct (served s)" "mget (meta s) i = Some m \<Longrightarrow> meta_wf i m"
    "over_meta s received_wf (received s)" "over_meta s served_wf (served s)"
    "u \<noteq> [] \<Longrightarrow> senderCount s u \<le> maxTransfersPerSender"
  using assms by (simp_all add: store_inv_def)

lemma install_inv:
  assumes inv: "store_inv s" and new: "mget (meta s) (TransferID m) = None"
    and wf: "meta_wf (TransferID m) m"
    and room: "From m \<noteq> [] \<Longrightarrow> senderCount s (From m) < maxTransfersPerSender"
  shows "store_inv (s\<lparr>meta := mput (TransferID m) m (meta s),
                      received := mput (TransferID m) [] (received s)\<rparr>)"
proof (rule store_invI)
  fix u :: string assume "u \<noteq> []"
  then show "senderCount (s\<lparr>meta := mput (TransferID m) m (meta s),
      received := mput (TransferID m) [] (received s)\<rparr>) u \<le> maxTransfersPerSender"
    using room store_invD(8) [OF inv, of u] by (cases "From m = u") (auto simp: senderCount_new new)
next
  show "over_meta (s\<lparr>meta := mput (TransferID m) m (meta s),
      received := mput (TransferID m) [] (received s)\<rparr>) received_wf
    (received (s\<lparr>meta := mput (TransferID m) m (meta s),
      received := mput (TransferID m) [] (received s)\<rparr>))"
    using over_meta_put [OF over_meta_new [OF store_invD(6) [OF inv] new, of m], of "TransferID m" m "[]"]
    by (simp add: received_wf_def)
qed (use inv new wf in \<open>auto simp: store_inv_def over_meta_new split: if_splits\<close>)

text \<open>Storing a transfer's metadata again, with another time stamp.\<close>

lemma touch_wf [simp]:
  "meta_wf i (m\<lparr>TouchedAt := now\<rparr>) = meta_wf i m"
  "received_wf (m\<lparr>TouchedAt := now\<rparr>) xs = received_wf m xs"
  "served_wf (m\<lparr>TouchedAt := now\<rparr>) xs = served_wf m xs"
  by (simp_all add: meta_wf_def direct_form_def link_form_def received_wf_def served_wf_def)

lemma touch_inv:
  assumes inv: "store_inv s" and m: "mget (meta s) i = Some m"
  shows "store_inv (s\<lparr>meta := mput i (m\<lparr>TouchedAt := now\<rparr>) (meta s)\<rparr>)"
proof (rule store_invI)
  fix j x assume "mget (meta (s\<lparr>meta := mput i (m\<lparr>TouchedAt := now\<rparr>) (meta s)\<rparr>)) j = Some x"
  then show "meta_wf j x" using store_invD(5) [OF inv] m by (auto split: if_splits)
qed (use inv m in \<open>auto simp: store_invD over_meta_change senderCount_change\<close>)

lemma received_insert_inv:
  assumes inv: "store_inv s" and m: "mget (meta s) i = Some m"
    and ix: "0 \<le> index" "index < TotalChunks m"
  shows "store_inv (s\<lparr>received := mput i (set_index index
    (case mget (received s) i of None \<Rightarrow> [] | Some xs \<Rightarrow> xs)) (received s)\<rparr>)"
proof -
  have "received_wf m (set_index index (case mget (received s) i of None \<Rightarrow> [] | Some xs \<Rightarrow> xs))"
    using inv m ix store_inv_received
    by (cases "mget (received s) i") (auto simp: received_wf_def)
  then show ?thesis using inv m
    by (intro store_invI) (auto simp: store_invD intro: over_meta_put)
qed

lemma writeChunk_commit_inv:
  assumes "store_inv s" "mget (meta s) i = Some m" "0 \<le> index" "index < TotalChunks m"
  shows "store_inv (writeChunk_commit m i index now s)"
  using received_insert_inv [OF touch_inv [OF assms(1,2), of now], of i "m\<lparr>TouchedAt := now\<rparr>" index]
    assms(3,4) by (simp add: writeChunk_commit_def Let_def)

lemma forget_inv:
  assumes inv: "store_inv s"
  shows "store_inv (forget i s)"
proof (rule store_invI)
  fix u :: string assume "u \<noteq> []"
  then show "senderCount (forget i s) u \<le> maxTransfersPerSender"
    using senderCount_del [where s = s and i = i and u = u] store_invD(8) [OF inv] by (force simp: forget_def)
next
  fix j x assume "mget (meta (forget i s)) j = Some x"
  then show "meta_wf j x" using store_invD(5) [OF inv] by (auto simp: forget_def split: if_splits)
qed (use inv in \<open>auto simp: forget_def store_invD intro: over_meta_del\<close>)

lemma mark_served_inv:
  assumes inv: "store_inv s" and m: "mget (meta s) i = Some m" and link: "Mode m = ''link''"
    and ix: "0 \<le> index" "index < TotalChunks m" and mark: "mark_served i index s = (False, s')"
  shows "store_inv s'"
proof -
  let ?old = "case mget (served s) i of None \<Rightarrow> [] | Some xs \<Rightarrow> xs"
  have s': "s' = s\<lparr>served := mput i (set_index index ?old) (served s)\<rparr>"
    and burn: "OneTime m \<Longrightarrow> int (length (set_index index ?old)) < TotalChunks m"
    using mark m link by (auto simp: mark_served_def Let_def)
  have "served_wf m (set_index index ?old)"
    using inv m store_inv_served ix burn link
    by (cases "mget (served s) i") (auto simp: received_wf_def served_wf_def)
  then show ?thesis using inv m
    by (intro store_invI) (auto simp: s' store_invD intro: over_meta_put)
qed

subsection \<open>The data directory and the frame\<close>

definition disk_inv :: "store \<Rightarrow> world \<Rightarrow> bool" where
  "disk_inv s w \<longleftrightarrow> keys_distinct (w_fs w)
     \<and> (\<forall>q \<in> set (prefixes_of (store_root s)). mget (w_fs w) q = Some Dir)"

text \<open>\<open>same_outside d w w'\<close>: nothing outside the directory \<open>d\<close> differs.\<close>

definition same_outside :: "gopath \<Rightarrow> world \<Rightarrow> world \<Rightarrow> bool" where
  "same_outside d w w' \<longleftrightarrow> (\<forall>q. \<not> below d q \<longrightarrow> mget (w_fs w') q = mget (w_fs w) q)"

lemma same_outside_refl [simp, intro]: "same_outside d w w"
  by (simp add: same_outside_def)

lemma same_outside_trans: "same_outside d w w1 \<Longrightarrow> same_outside d w1 w2 \<Longrightarrow> same_outside d w w2"
  by (simp add: same_outside_def)

lemma same_outside_below: "same_outside d w w' \<Longrightarrow> below e d \<Longrightarrow> same_outside e w w'"
  by (auto simp: same_outside_def dest: below_trans)

lemma prefixes_of_child: "prefixes_of (child p n) = prefixes_of p @ [child p n]"
  by (simp add: prefixes_of_def child_def)

lemma prefixes_of_below: "q \<in> set (prefixes_of p) \<Longrightarrow> below q p"
  by (auto simp: prefixes_of_def below_def take_is_prefix)

lemma not_below_prefix: "q \<in> set (prefixes_of p) \<Longrightarrow> \<not> below (child p n) q"
  by (metis below_trans not_below_child_self prefixes_of_below)

lemma disk_inv_fs_get: "disk_inv s w \<Longrightarrow> fs_get (w_fs w) (store_root s) = Some Dir"
proof (cases "comps (store_root s) = []")
  case False
  assume "disk_inv s w"
  moreover have "store_root s \<in> set (prefixes_of (store_root s))"
    using False by (force simp: prefixes_of_def image_iff intro: gopath.expand bexI [of _ "length (comps (store_root s)) - 1"])
  ultimately show ?thesis using False by (simp add: disk_inv_def fs_get_def)
qed simp

lemma disk_inv_same:
  assumes "disk_inv s w" "same_outside (child (store_root s) i) w w'" "keys_distinct (w_fs w')"
  shows "disk_inv s w'"
  using assms by (simp add: disk_inv_def same_outside_def not_below_prefix)

end
