(* ===== verification/StoreOps.thy ===== *)
theory StoreOps
  imports StoreInv
begin

text \<open>
  Every operation of the store keeps the invariant, leaves the other transfers and their files
  alone, and writes nowhere but in the directory of the transfer it is given: proved operation by
  operation as \<open>keeps\<close>, under every pattern of disk faults.  \<open>store_op\<close> collects the operations,
  with the guards their callers check, into one machine.
\<close>

subsection \<open>What an operation on one transfer keeps\<close>

type_synonym state = "store \<times> world"

definition same_transfer :: "string \<Rightarrow> store \<Rightarrow> store \<Rightarrow> bool" where
  "same_transfer i s s' \<longleftrightarrow> mget (meta s') i = mget (meta s) i
     \<and> mget (received s') i = mget (received s) i \<and> mget (served s') i = mget (served s) i"

definition state_inv :: "state \<Rightarrow> bool" where
  "state_inv x \<longleftrightarrow> store_inv (fst x) \<and> disk_inv (fst x) (snd x)"

definition same_config :: "store \<Rightarrow> store \<Rightarrow> bool" where
  "same_config s s' \<longleftrightarrow> dataDir s' = dataDir s \<and> ttl s' = ttl s"

definition keeps :: "string \<Rightarrow> state \<Rightarrow> state \<Rightarrow> bool" where
  "keeps i x y \<longleftrightarrow> state_inv y \<and> same_config (fst x) (fst y)
     \<and> same_outside (child (store_root (fst x)) i) (snd x) (snd y)
     \<and> (\<forall>j. j \<noteq> i \<longrightarrow> same_transfer j (fst x) (fst y))"

lemma keepsI:
  assumes "store_inv s'" "disk_inv s w" "dataDir s' = dataDir s" "ttl s' = ttl s"
    "same_outside (child (store_root s) i) w w'" "keys_distinct (w_fs w')"
    "\<And>j. j \<noteq> i \<Longrightarrow> same_transfer j s s'"
  shows "keeps i (s, w) (s', w')"
  using assms disk_inv_same [of s w i w']
  by (simp add: keeps_def state_inv_def same_config_def disk_inv_def)

lemma keeps_refl: "state_inv x \<Longrightarrow> keeps i x x"
  by (simp add: keeps_def same_config_def same_transfer_def)

lemma keeps_trans: "keeps i x y \<Longrightarrow> keeps i y z \<Longrightarrow> keeps i x z"
  by (auto simp: keeps_def same_config_def same_transfer_def intro: same_outside_trans)

lemma keeps_inv: "keeps i x y \<Longrightarrow> state_inv y"
  by (simp add: keeps_def)

lemma keeps_other:
  assumes "keeps i (s, w) (s', w')" "j \<noteq> i"
  shows "mget (meta s') j = mget (meta s) j" "mget (received s') j = mget (received s) j"
    "mget (served s') j = mget (served s) j"
  using assms by (auto simp: keeps_def same_transfer_def)

subsection \<open>Files\<close>

lemma WriteFile_written:
  "comps p \<noteq> [] \<Longrightarrow> WriteFile p d w = (Inr (), w') \<Longrightarrow> mget (w_fs w') p = Some (File d)"
  by (auto simp: WriteFile_def Let_def split: prod.splits option.splits fault.splits if_splits)

lemma WriteFile_outside: "below e p \<Longrightarrow> same_outside e w (snd (WriteFile p d w))"
  unfolding same_outside_def using WriteFile_frame by metis

lemma MkdirAll_outside:
  assumes "disk_inv s w"
  shows "same_outside (child (store_root s) i) w (snd (MkdirAll (child (store_root s) i) w))"
proof -
  have *: "below (child (store_root s) i) q"
    if "q \<in> set (prefixes_of (child (store_root s) i))" "mget (w_fs w) q = None" for q
    using that assms by (auto simp: prefixes_of_child disk_inv_def)
  show ?thesis unfolding same_outside_def
    by (auto simp: MkdirAll_def Let_def fold_mput_Dir split: prod.splits fault.splits
        dest!: next_fault_fs in_set_takeD dest: *)
qed

lemma writeMeta_spec:
  assumes dir: "transferDir s (TransferID m) = child (store_root s) (TransferID m)"
    and distinct: "keys_distinct (w_fs w)"
  shows "same_outside (child (store_root s) (TransferID m)) w (snd (writeMeta c s m w))
    \<and> keys_distinct (w_fs (snd (writeMeta c s m w)))"
proof (cases "enc_meta c m")
  case None
  then show ?thesis using distinct by (simp add: writeMeta_def)
next
  case (Some raw)
  let ?d = "child (store_root s) (TransferID m)"
  obtain r w1 where w1: "WriteFile (tmp_path ?d) raw w = (r, w1)" by fastforce
  have b: "below ?d (tmp_path ?d)" "below ?d (meta_path ?d)" by (simp_all add: path_simps)
  have out1: "same_outside ?d w w1" and d1: "keys_distinct (w_fs w1)"
    using WriteFile_outside [OF b(1), of w raw] WriteFile_distinct [OF distinct, of "tmp_path ?d" raw]
    by (simp_all add: w1)
  show ?thesis
  proof (cases r)
    case (Inl e)
    then show ?thesis using Some w1 out1 d1 by (simp add: writeMeta_def dir Let_def)
  next
    case (Inr u)
    then have "mget (w_fs w1) (tmp_path ?d) = Some (File raw)"
      using w1 by (intro WriteFile_written) (auto simp: path_simps)
    then have nodir: "fs_get (w_fs w1) (tmp_path ?d) \<noteq> Some Dir"
      by (simp add: path_simps)
    have "same_outside ?d w1 (snd (Rename (tmp_path ?d) (meta_path ?d) w1))"
      unfolding same_outside_def using Rename_frame [OF nodir] b by metis
    then show ?thesis
      using Some w1 Inr out1 Rename_distinct [OF d1 nodir]
      by (auto simp: writeMeta_def dir Let_def intro: same_outside_trans)
  qed
qed

subsection \<open>The operations\<close>

lemma install_keeps:
  assumes inv: "state_inv (s, w)" and new: "mget (meta s) (TransferID m) = None"
    and wf: "meta_wf (TransferID m) m"
    and room: "From m \<noteq> [] \<Longrightarrow> senderCount s (From m) < maxTransfersPerSender"
  shows "keeps (TransferID m) (s, w) (snd (install_transfer c m s w))"
proof -
  let ?i = "TransferID m" and ?d = "child (store_root s) (TransferID m)"
  have si: "store_inv s" and di: "disk_inv s w" using inv by (simp_all add: state_inv_def)
  have dir: "transferDir s ?i = ?d"
    using wf store_inv_dir [OF si] by (simp add: meta_wf_def transferDir_child)
  obtain r1 w1 where w1: "MkdirAll ?d w = (r1, w1)" by fastforce
  obtain r2 w2 where w2: "writeMeta c s m w1 = (r2, w2)" by fastforce
  have o1: "same_outside ?d w w1" using MkdirAll_outside [OF di, of ?i] w1 by simp
  have k1: "keys_distinct (w_fs w1)"
    using MkdirAll_distinct [of w ?d] di w1 by (simp add: disk_inv_def)
  have o2: "same_outside ?d w1 w2" and k2: "keys_distinct (w_fs w2)"
    using writeMeta_spec [OF dir k1, of c] w2 by simp_all
  show ?thesis
    using w1 w2 o1 k1 same_outside_trans [OF o1 o2] k2 si di install_inv [OF si new wf room]
    by (auto simp: install_transfer_def dir same_transfer_def split: sum.split intro!: keepsI)
qed

lemma createTransfer_keeps:
  assumes inv: "state_inv (s, w)" and "u \<noteq> []" "r \<noteq> []" "0 < n" "int64_range n"
  shows "keeps i (s, w) (snd (createTransfer c i u r n share now s w))"
proof -
  let ?m = "direct_meta i u r n share now"
  have id: "TransferID ?m = i" and fr: "From ?m = u" by (simp_all add: direct_meta_def)
  show ?thesis
  proof (cases "mget (meta s) i = None \<and> validTransferID i \<and> senderCount s u < maxTransfersPerSender")
    case True
    then have "meta_wf (TransferID ?m) ?m"
      using assms by (simp add: meta_wf_def direct_meta_def direct_form_def)
    then show ?thesis using install_keeps [OF inv, of ?m c] True
      by (simp add: id fr createTransfer_def)
  next
    case False
    then show ?thesis using keeps_refl [OF inv] by (auto simp: createTransfer_def)
  qed
qed

lemma createLinkTransfer_keeps:
  assumes inv: "state_inv (s, w)" and "0 < n" "int64_range n"
  shows "keeps i (s, w) (snd (createLinkTransfer c i token n once now s w))"
proof -
  let ?m = "link_meta i token n once now"
  have id: "TransferID ?m = i" and fr: "From ?m = []" by (simp_all add: link_meta_def)
  show ?thesis
  proof (cases "mget (meta s) i = None \<and> validTransferID i")
    case True
    then have "meta_wf (TransferID ?m) ?m"
      using assms by (simp add: meta_wf_def link_meta_def link_form_def)
    then show ?thesis using install_keeps [OF inv, of ?m c] True
      by (simp add: id fr createLinkTransfer_def)
  next
    case False
    then show ?thesis using keeps_refl [OF inv] by (auto simp: createLinkTransfer_def)
  qed
qed

text \<open>Rewriting a stored transfer's \<open>meta.json\<close>.\<close>

lemma rewrite_meta_spec:
  assumes si: "store_inv s" and m: "mget (meta s) i = Some m" and k: "keys_distinct (w_fs w)"
    and s': "dataDir s' = dataDir s" and m': "TransferID m' = TransferID m"
  shows "same_outside (child (store_root s) i) w (snd (writeMeta c s' m' w))
    \<and> keys_distinct (w_fs (snd (writeMeta c s' m' w)))"
proof -
  have i: "TransferID m' = i" using store_inv_meta [OF si m] m' by (simp add: meta_wf_def)
  have "transferDir s' i = child (store_root s') i"
    using store_inv_transferDir [OF si m] transferDir_cong [OF s'] by (simp add: s')
  then show ?thesis using writeMeta_spec [of s' m' w c] k by (simp add: i s')
qed

lemma touchLinkTransfer_keeps:
  assumes inv: "state_inv (s, w)"
  shows "keeps i (s, w) (touchLinkTransfer c i now s w)"
proof (cases "mget (meta s) i")
  case None
  then show ?thesis using keeps_refl [OF inv] by (simp add: touchLinkTransfer_def)
next
  case (Some m)
  have si: "store_inv s" and di: "disk_inv s w" using inv by (simp_all add: state_inv_def)
  let ?m = "m\<lparr>TouchedAt := now\<rparr>" let ?s = "s\<lparr>meta := mput i ?m (meta s)\<rparr>"
  have "same_outside (child (store_root s) i) w (snd (writeMeta c ?s ?m w))
      \<and> keys_distinct (w_fs (snd (writeMeta c ?s ?m w)))"
    using di by (intro rewrite_meta_spec [OF si Some]) (simp_all add: disk_inv_def)
  then show ?thesis using Some di touch_inv [OF si Some]
    by (auto simp: touchLinkTransfer_def Let_def same_transfer_def intro!: keepsI)
qed

lemma writeChunk_file_spec:
  assumes si: "store_inv s" and m: "mget (meta s) i = Some m" and k: "keys_distinct (w_fs w)"
  shows "same_outside (child (store_root s) i) w (snd (writeChunk_file s m i index data w))
    \<and> keys_distinct (w_fs (snd (writeChunk_file s m i index data w)))"
proof -
  let ?d = "child (store_root s) i"
  have "below ?d (chunk_path ?d index)" by (simp add: path_simps)
  from WriteFile_outside [OF this] show ?thesis
    using k WriteFile_distinct [OF k]
    by (simp add: writeChunk_file_def store_inv_transferDir [OF si m])
qed

lemma writeChunk_keeps:
  assumes inv: "state_inv (s, w)"
  shows "keeps i (s, w) (snd (writeChunk c i index data now s w))"
proof (cases "mget (meta s) i")
  case None
  then show ?thesis using keeps_refl [OF inv] by (simp add: writeChunk_def)
next
  case (Some m)
  have si: "store_inv s" and di: "disk_inv s w" using inv by (simp_all add: state_inv_def)
  let ?d = "child (store_root s) i"
  let ?s = "writeChunk_commit m i index now s" and ?m = "m\<lparr>TouchedAt := now\<rparr>"
  obtain r1 w1 where w1: "writeChunk_file s m i index data w = (r1, w1)" by fastforce
  have o1: "same_outside ?d w w1" and k1: "keys_distinct (w_fs w1)"
    using writeChunk_file_spec [OF si Some, of w index data] di w1 by (simp_all add: disk_inv_def)
  show ?thesis
  proof (cases r1)
    case (Inl e)
    then show ?thesis using Some w1 o1 k1 si di
      by (auto simp: writeChunk_def same_transfer_def intro!: keepsI)
  next
    case (Inr u)
    then have ix: "0 \<le> index" "index < TotalChunks m"
      using w1 by (auto simp: writeChunk_file_def split: if_splits)
    obtain r2 w2 where w2: "writeMeta c ?s ?m w1 = (r2, w2)" by fastforce
    have "dataDir ?s = dataDir s" by (simp add: writeChunk_commit_def Let_def)
    from rewrite_meta_spec [OF si Some k1 this, of ?m c]
    have o2: "same_outside ?d w1 w2" and k2: "keys_distinct (w_fs w2)" using w2 by simp_all
    have "keeps i (s, w) (?s, w2)"
      using writeChunk_commit_inv [OF si Some ix] di same_outside_trans [OF o1 o2] k2
      by (intro keepsI) (simp_all add: writeChunk_commit_def Let_def same_transfer_def)
    then show ?thesis using Some w1 w2 Inr by (simp add: writeChunk_def Let_def)
  qed
qed

lemma deleteTransfer_keeps:
  assumes inv: "state_inv (s, w)" and m: "mget (meta s) i = Some m"
  shows "keeps i (s, w) (snd (deleteTransfer i s w))"
proof -
  have si: "store_inv s" and di: "disk_inv s w" using inv by (simp_all add: state_inv_def)
  have "same_outside (child (store_root s) i) w (snd (RemoveAll (child (store_root s) i) w))"
    by (simp add: same_outside_def RemoveAll_frame)
  moreover have "keys_distinct (w_fs (snd (RemoveAll (child (store_root s) i) w)))"
    using di by (intro RemoveAll_distinct) (simp add: disk_inv_def)
  ultimately show ?thesis using forget_inv [OF si, of i] di
    by (auto simp: deleteTransfer_def store_inv_transferDir [OF si m] same_transfer_def forget_def
        split: prod.split intro!: keepsI)
qed

lemma mark_served_unchanged:
  "mark_served i index s = (b, s') \<Longrightarrow> meta s' = meta s \<and> received s' = received s
     \<and> dataDir s' = dataDir s \<and> ttl s' = ttl s \<and> (\<forall>j. j \<noteq> i \<longrightarrow> mget (served s') j = mget (served s) j)"
  by (auto simp: mark_served_def Let_def split: option.splits if_splits)

lemma forget_mark: "mark_served i index s = (b, s') \<Longrightarrow> forget i s' = forget i s"
  by (auto simp: mark_served_def forget_def Let_def delete_update_same split: option.splits if_splits)

lemma markLinkChunkServed_burns:
  "mark_served i index s = (True, s1) \<Longrightarrow>
     markLinkChunkServed i index s w = (True, snd (deleteTransfer i s w))"
  by (auto simp: markLinkChunkServed_def deleteTransfer_def forget_mark
      transferDir_cong [of s1 s] dest: mark_served_unchanged split: prod.splits)

lemma markLinkChunkServed_keeps:
  assumes inv: "state_inv (s, w)"
    and ix: "\<And>m. mget (meta s) i = Some m \<Longrightarrow> 0 \<le> index \<and> index < TotalChunks m"
  shows "keeps i (s, w) (snd (markLinkChunkServed i index s w))"
proof -
  obtain burn s1 where mark: "mark_served i index s = (burn, s1)" by fastforce
  show ?thesis
  proof (cases "\<exists>m. mget (meta s) i = Some m \<and> Mode m = ''link''")
    case False
    then have "burn = False" "s1 = s"
      using mark by (auto simp: mark_served_def split: option.splits if_splits)
    then show ?thesis using mark keeps_refl [OF inv] by (simp add: markLinkChunkServed_def)
  next
    case True
    then obtain m where m: "mget (meta s) i = Some m" "Mode m = ''link''" by blast
    show ?thesis
    proof (cases burn)
      case True
      then show ?thesis using mark deleteTransfer_keeps [OF inv m(1)]
        by (simp add: markLinkChunkServed_burns)
    next
      case False
      then have "store_inv s1"
        using mark_served_inv [OF _ m, of index s1] ix [OF m(1)] inv mark
        by (simp add: state_inv_def)
      then have "keeps i (s, w) (s1, w)"
        using inv mark_served_unchanged [OF mark]
        by (intro keepsI) (auto simp: state_inv_def disk_inv_def same_transfer_def)
      then show ?thesis using mark False by (simp add: markLinkChunkServed_def)
    qed
  qed
qed

text \<open>\<open>sweep\<close> deletes one transfer after the other; \<open>delete_all\<close> is that loop.\<close>

lemma forget_meta_other: "j \<noteq> i \<Longrightarrow> mget (meta (forget i s)) j = mget (meta s) j"
  by (simp add: forget_def)

lemma delete_all_keeps:
  assumes "state_inv (s, w)" "distinct is" "\<And>i. i \<in> set is \<Longrightarrow> mget (meta s) i \<noteq> None"
  shows "state_inv (delete_all is s w) \<and> same_config s (fst (delete_all is s w))
    \<and> same_outside (store_root s) w (snd (delete_all is s w))
    \<and> (\<forall>j. j \<notin> set is \<longrightarrow> same_transfer j s (fst (delete_all is s w))
         \<and> (\<forall>q. below (child (store_root s) j) q \<longrightarrow>
               mget (w_fs (snd (delete_all is s w))) q = mget (w_fs w) q))"
  using assms
proof (induction "is" arbitrary: s w)
  case Nil
  then show ?case by (simp add: same_config_def same_transfer_def)
next
  case (Cons i js)
  have "mget (meta s) i \<noteq> None" by (rule Cons.prems(3)) simp
  then obtain m where m: "mget (meta s) i = Some m" by blast
  obtain r s1 w1 where d: "deleteTransfer i s w = (r, s1, w1)" by (metis prod_cases3)
  have k: "keeps i (s, w) (s1, w1)" using deleteTransfer_keeps [OF Cons.prems(1) m] d by simp
  have inv: "state_inv (s1, w1)" using keeps_inv [OF k] .
  have c: "same_config s s1" and o: "same_outside (child (store_root s) i) w w1"
    using k by (simp_all add: keeps_def)
  have root: "store_root s1 = store_root s" using c by (simp add: same_config_def)
  have present: "mget (meta s1) j \<noteq> None" if "j \<in> set js" for j
  proof -
    have "j \<noteq> i" using that Cons.prems(2) by auto
    then show ?thesis using Cons.prems(3) [of j] that keeps_other(1) [OF k] by simp
  qed
  have ih: "state_inv (delete_all js s1 w1) \<and> same_config s1 (fst (delete_all js s1 w1))
    \<and> same_outside (store_root s) w1 (snd (delete_all js s1 w1))
    \<and> (\<forall>j. j \<notin> set js \<longrightarrow> same_transfer j s1 (fst (delete_all js s1 w1))
         \<and> (\<forall>q. below (child (store_root s) j) q \<longrightarrow>
               mget (w_fs (snd (delete_all js s1 w1))) q = mget (w_fs w1) q))"
    using Cons.IH [OF inv _ present] Cons.prems(2) by (simp add: root)
  have "same_outside (store_root s) w w1" using same_outside_below [OF o] by simp
  moreover have "mget (w_fs w1) q = mget (w_fs w) q"
    if "below (child (store_root s) j) q" "j \<noteq> i" for j q
    using o below_child_other [OF that] by (simp add: same_outside_def)
  moreover have "same_transfer j s s1" if "j \<noteq> i" for j
    using k that by (simp add: keeps_def)
  ultimately show ?case using ih c
    by (auto simp: d same_config_def same_transfer_def intro: same_outside_trans)
qed

lemma expired_ids_present: "i \<in> set (expired_ids iter now s) \<Longrightarrow> mget (meta s) i \<noteq> None"
  by (auto simp: expired_ids_def split: option.splits)

lemma expired_ids_set:
  assumes "map_iteration iter"
  shows "i \<in> set (expired_ids iter now s) \<longleftrightarrow>
    (\<exists>m. mget (meta s) i = Some m \<and> TouchedAt m < now - ttl s)"
  using map_iteration_set [OF assms, of "map fst (meta s)"]
  by (auto simp: expired_ids_def dest: mget_key split: option.splits)

lemma expired_ids_distinct:
  "map_iteration iter \<Longrightarrow> store_inv s \<Longrightarrow> distinct (expired_ids iter now s)"
  using map_iteration_distinct [of iter "map fst (meta s)"] store_invD(2) [of s]
  by (simp add: expired_ids_def)

lemma sweep_keeps:
  assumes "state_inv (s, w)" "map_iteration iter"
  shows "state_inv (sweep iter now s w) \<and> same_config s (fst (sweep iter now s w))
    \<and> same_outside (store_root s) w (snd (sweep iter now s w))
    \<and> (\<forall>j. j \<notin> set (expired_ids iter now s) \<longrightarrow> same_transfer j s (fst (sweep iter now s w))
         \<and> (\<forall>q. below (child (store_root s) j) q \<longrightarrow>
               mget (w_fs (snd (sweep iter now s w))) q = mget (w_fs w) q))"
  unfolding sweep_def
  using assms expired_ids_distinct [OF assms(2), of s now]
  by (intro delete_all_keeps) (auto simp: state_inv_def dest: expired_ids_present)

subsection \<open>The store as a machine\<close>

datatype store_op =
    OpCreate string string string int bool int
  | OpCreateLink string string int bool int
  | OpTouch string int
  | OpWriteChunk string int bytes int
  | OpDelete string
  | OpMarkServed string int
  | OpSweep int

fun store_step ::
  "meta_codec \<Rightarrow> (string list \<Rightarrow> string list) \<Rightarrow> store_op \<Rightarrow> state \<Rightarrow> state" where
  "store_step c iter (OpCreate i u r n share now) (s, w) = snd (createTransfer c i u r n share now s w)"
| "store_step c iter (OpCreateLink i token n once now) (s, w) =
     snd (createLinkTransfer c i token n once now s w)"
| "store_step c iter (OpTouch i now) (s, w) = touchLinkTransfer c i now s w"
| "store_step c iter (OpWriteChunk i index data now) (s, w) = snd (writeChunk c i index data now s w)"
| "store_step c iter (OpDelete i) (s, w) = snd (deleteTransfer i s w)"
| "store_step c iter (OpMarkServed i index) (s, w) = snd (markLinkChunkServed i index s w)"
| "store_step c iter (OpSweep now) (s, w) = sweep iter now s w"

text \<open>
  What the callers in \<open>server.go\<close> make sure of before each call: identities and chunk counts that
  are not empty, a transfer that is there, an index in range.
\<close>

fun store_guard :: "store_op \<Rightarrow> state \<Rightarrow> bool" where
  "store_guard (OpCreate i u r n share now) (s, w) = (u \<noteq> [] \<and> r \<noteq> [] \<and> 0 < n \<and> int64_range n)"
| "store_guard (OpCreateLink i token n once now) (s, w) = (0 < n \<and> int64_range n)"
| "store_guard (OpDelete i) (s, w) = (getMeta s i \<noteq> None)"
| "store_guard (OpMarkServed i index) (s, w) =
     (case getMeta s i of None \<Rightarrow> True | Some m \<Rightarrow> 0 \<le> index \<and> index < TotalChunks m)"
| "store_guard _ _ = True"

text \<open>The transfers an operation is about.\<close>

fun op_targets :: "(string list \<Rightarrow> string list) \<Rightarrow> store_op \<Rightarrow> store \<Rightarrow> string set" where
  "op_targets iter (OpCreate i _ _ _ _ _) s = {i}"
| "op_targets iter (OpCreateLink i _ _ _ _) s = {i}"
| "op_targets iter (OpTouch i _) s = {i}"
| "op_targets iter (OpWriteChunk i _ _ _) s = {i}"
| "op_targets iter (OpDelete i) s = {i}"
| "op_targets iter (OpMarkServed i _) s = {i}"
| "op_targets iter (OpSweep now) s = set (expired_ids iter now s)"

text \<open>The transfer an operation names; the sweep names none.\<close>

fun op_id :: "store_op \<Rightarrow> string option" where
  "op_id (OpCreate i _ _ _ _ _) = Some i"
| "op_id (OpCreateLink i _ _ _ _) = Some i"
| "op_id (OpTouch i _) = Some i"
| "op_id (OpWriteChunk i _ _ _) = Some i"
| "op_id (OpDelete i) = Some i"
| "op_id (OpMarkServed i _) = Some i"
| "op_id (OpSweep _) = None"

lemma op_targets_id: "op_id op = Some i \<Longrightarrow> op_targets iter op s = {i}"
  by (cases op) auto

lemma store_step_keeps:
  assumes "state_inv (s, w)" "store_guard x (s, w)" "\<And>now. x \<noteq> OpSweep now"
  shows "\<exists>i. op_targets iter x s = {i} \<and> keeps i (s, w) (store_step c iter x (s, w))"
  using assms
  by (cases x)
     (auto simp: getMeta_def intro!: createTransfer_keeps createLinkTransfer_keeps
        touchLinkTransfer_keeps writeChunk_keeps deleteTransfer_keeps markLinkChunkServed_keeps
        split: option.splits)

lemma store_step_inv:
  assumes inv: "state_inv x" and g: "store_guard y x" and iter: "map_iteration iter"
  shows "state_inv (store_step c iter y x)"
proof (cases "\<exists>now. y = OpSweep now")
  case True
  then show ?thesis using sweep_keeps [OF _ iter] inv by (cases x) auto
next
  case False
  then obtain i where "keeps i x (store_step c iter y x)"
    using store_step_keeps [of "fst x" "snd x" y iter c] inv g by auto
  then show ?thesis by (rule keeps_inv)
qed

text \<open>Isolation: what an operation is not about, it does not change, in memory or on disk.\<close>

lemma store_step_isolation:
  assumes inv: "state_inv (s, w)" and g: "store_guard x (s, w)" and iter: "map_iteration iter"
    and j: "j \<notin> op_targets iter x s" and step: "store_step c iter x (s, w) = (s', w')"
  shows "same_transfer j s s'" "below (child (store_root s) j) q \<Longrightarrow> mget (w_fs w') q = mget (w_fs w) q"
proof -
  have "same_transfer j s s' \<and> (below (child (store_root s) j) q \<longrightarrow> mget (w_fs w') q = mget (w_fs w) q)"
  proof (cases "\<exists>now. x = OpSweep now")
    case True
    then obtain now where x: "x = OpSweep now" by blast
    show ?thesis using sweep_keeps [OF inv iter, of now] j step by (simp add: x)
  next
    case False
    then obtain i where i: "op_targets iter x s = {i}" and k: "keeps i (s, w) (s', w')"
      using store_step_keeps [OF inv g, of iter c] step by auto
    have "\<not> below (child (store_root s) i) q" if "below (child (store_root s) j) q"
      using below_child_other [OF that] i j by auto
    then show ?thesis using i k j by (simp add: keeps_def same_outside_def)
  qed
  then show "same_transfer j s s'" "below (child (store_root s) j) q \<Longrightarrow> mget (w_fs w') q = mget (w_fs w) q"
    by simp_all
qed

lemma store_step_confined:
  assumes inv: "state_inv (s, w)" and g: "store_guard x (s, w)" and iter: "map_iteration iter"
  shows "same_outside (store_root s) w (snd (store_step c iter x (s, w)))
    \<and> same_config s (fst (store_step c iter x (s, w)))"
proof (cases "\<exists>now. x = OpSweep now")
  case True
  then show ?thesis using sweep_keeps [OF inv iter] by auto
next
  case False
  then obtain i where "keeps i (s, w) (store_step c iter x (s, w))"
    using store_step_keeps [OF inv g, of iter c] by auto
  then show ?thesis
    by (auto simp: keeps_def intro: same_outside_below [OF _ below_child])
qed

end
