(* ===== verification/StoreDisk.thy ===== *)
theory StoreDisk
  imports StoreOps
begin

text \<open>
  What is on disk for the transfers in memory.  \<open>durable\<close> says that every transfer in the maps has
  its directory, a \<open>meta.json\<close> that decodes to its metadata (up to the time stamp) and a file for
  every received chunk; it survives every operation under every pattern of faults, because
  \<open>writeMeta\<close> writes to a temporary file first.  \<open>exact\<close> adds that the data directory holds nothing
  else; it survives every operation on a disk that works.
\<close>

subsection \<open>Reading the disk\<close>

definition file_at :: "world \<Rightarrow> gopath \<Rightarrow> bytes option" where
  "file_at w p = (case mget (w_fs w) p of Some (File d) \<Rightarrow> Some d | _ \<Rightarrow> None)"

definition chunk_data :: "store \<Rightarrow> world \<Rightarrow> string \<Rightarrow> int \<Rightarrow> bytes option" where
  "chunk_data s w i index = file_at w (chunk_path (transferDir s i) index)"

definition meta_on_disk :: "meta_codec \<Rightarrow> store \<Rightarrow> world \<Rightarrow> string \<Rightarrow> transferMeta option" where
  "meta_on_disk c s w i =
     (case file_at w (meta_path (transferDir s i)) of None \<Rightarrow> None | Some raw \<Rightarrow> dec_meta c raw)"

definition received_set :: "store \<Rightarrow> string \<Rightarrow> int set" where
  "received_set s i = (case mget (received s) i of None \<Rightarrow> {} | Some xs \<Rightarrow> set xs)"

definition same_but_touch :: "transferMeta \<Rightarrow> transferMeta \<Rightarrow> bool" where
  "same_but_touch m m' \<longleftrightarrow> m'\<lparr>TouchedAt := TouchedAt m\<rparr> = m"

lemma same_but_touch_refl [simp]: "same_but_touch m m"
  by (simp add: same_but_touch_def)

lemma same_but_touch_touched [simp]:
  "same_but_touch (m\<lparr>TouchedAt := t\<rparr>) m' = same_but_touch m m'"
  by (cases m; cases m') (auto simp: same_but_touch_def)

lemma file_at_cong: "mget (w_fs w') p = mget (w_fs w) p \<Longrightarrow> file_at w' p = file_at w p"
  by (simp add: file_at_def)

lemma receivedIndices_set [simp]: "set (receivedIndices s i) = received_set s i"
  by (simp add: receivedIndices_def received_set_def split: option.split)

lemma receivedIndices_sorted: "sorted (receivedIndices s i)"
  by (simp add: receivedIndices_def)

lemma receivedIndices_distinct: "store_inv s \<Longrightarrow> distinct (receivedIndices s i)"
  using over_metaD [OF store_inv_over(1)]
  by (fastforce simp: receivedIndices_def received_wf_def split: option.split)

lemma receivedIndices_eq:
  assumes "store_inv s" "store_inv s'" "received_set s i = received_set s' i"
  shows "receivedIndices s i = receivedIndices s' i"
  using assms
  by (intro sorted_distinct_set_unique) (simp_all add: receivedIndices_sorted receivedIndices_distinct)

definition durable_at :: "meta_codec \<Rightarrow> state \<Rightarrow> string \<Rightarrow> bool" where
  "durable_at c x i \<longleftrightarrow> (case x of (s, w) \<Rightarrow>
     (case mget (meta s) i of None \<Rightarrow> True
      | Some m \<Rightarrow> mget (w_fs w) (transferDir s i) = Some Dir
          \<and> (\<exists>m'. meta_on_disk c s w i = Some m' \<and> same_but_touch m m')
          \<and> (\<forall>index \<in> received_set s i. chunk_data s w i index \<noteq> None)))"

definition durable :: "meta_codec \<Rightarrow> state \<Rightarrow> bool" where
  "durable c x \<longleftrightarrow> (\<forall>i. durable_at c x i)"

lemma durable_at_absent: "mget (meta s) i = None \<Longrightarrow> durable_at c (s, w) i"
  by (simp add: durable_at_def)

lemma durable_at_cong:
  assumes "state_inv (s, w)" "same_transfer i s s'" "dataDir s' = dataDir s"
    "\<And>q. below (child (store_root s) i) q \<Longrightarrow> mget (w_fs w') q = mget (w_fs w) q"
    "durable_at c (s, w) i"
  shows "durable_at c (s', w') i"
proof (cases "mget (meta s) i")
  case None
  then show ?thesis using assms(2) by (simp add: durable_at_def same_transfer_def)
next
  case (Some m)
  have dir: "transferDir s i = child (store_root s) i"
    using assms(1) Some by (auto simp: state_inv_def intro: store_inv_transferDir)
  have t: "transferDir s' i = transferDir s i" using assms(3) by (rule transferDir_cong)
  have "mget (w_fs w') (child (child (store_root s) i) n) = mget (w_fs w) (child (child (store_root s) i) n)"
    for n by (rule assms(4)) (simp add: below_child_of)
  then have "file_at w' (child (child (store_root s) i) n) = file_at w (child (child (store_root s) i) n)"
    for n by (rule file_at_cong)
  moreover have "mget (w_fs w') (child (store_root s) i) = mget (w_fs w) (child (store_root s) i)"
    by (rule assms(4)) simp
  ultimately show ?thesis using assms(2,5) Some
    by (simp add: durable_at_def same_transfer_def received_set_def chunk_data_def meta_on_disk_def
        t dir path_simps)
qed

subsection \<open>What \<open>writeMeta\<close> leaves on disk\<close>

lemma file_at_child_fs_get: "file_at w (child p n) = Some d \<Longrightarrow> fs_get (w_fs w) (child p n) = Some (File d)"
  by (auto simp: file_at_def split: option.splits node.splits)

lemma Rename_effect:
  assumes "mget (w_fs w) old = Some (File d)" "old \<noteq> new" "comps old \<noteq> []"
  shows "case Rename old new w of
      (Inr _, w') \<Rightarrow> mget (w_fs w') new = Some (File d) \<and> mget (w_fs w') old = None
    | (Inl _, w') \<Rightarrow> w_fs w' = w_fs w"
  using assms
  by (auto simp: Rename_def Let_def fs_get_def split: prod.splits option.splits node.splits
      dest: next_fault_fs)

lemma WriteFile_effect:
  assumes "comps p \<noteq> []"
  shows "case WriteFile p d w of
      (Inr _, w') \<Rightarrow> mget (w_fs w') p = Some (File d)
    | (Inl _, w') \<Rightarrow> mget (w_fs w') p = mget (w_fs w) p
        \<or> (mget (w_fs w) p \<noteq> Some Dir \<and> (\<exists>d'. mget (w_fs w') p = Some (File d')))"
  using assms
  by (auto simp: WriteFile_def Let_def fs_get_def split: prod.splits option.splits fault.splits
      dest: next_fault_fs)

text \<open>All that \<open>writeMeta\<close> can do to the tree: \<open>meta.json\<close> is the old one, or, after success, the new
  one; the temporary file is anything; the rest is untouched.\<close>

lemma writeMeta_effect:
  fixes s m
  defines "d \<equiv> transferDir s (TransferID m)"
  assumes "writeMeta c s m w = (r, w')"
  shows "q \<noteq> meta_path d \<Longrightarrow> q \<noteq> tmp_path d \<Longrightarrow> mget (w_fs w') q = mget (w_fs w) q"
    and "is_ok r \<Longrightarrow> \<exists>raw. enc_meta c m = Some raw \<and> mget (w_fs w') (meta_path d) = Some (File raw)
      \<and> mget (w_fs w') (tmp_path d) = None"
    and "\<not> is_ok r \<Longrightarrow> mget (w_fs w') (meta_path d) = mget (w_fs w) (meta_path d)"
proof -
  have ne: "meta_path d \<noteq> tmp_path d" by (simp add: path_simps)
  have "(q \<noteq> meta_path d \<and> q \<noteq> tmp_path d \<longrightarrow> mget (w_fs w') q = mget (w_fs w) q)
    \<and> (is_ok r \<longrightarrow> (\<exists>raw. enc_meta c m = Some raw \<and> mget (w_fs w') (meta_path d) = Some (File raw)
        \<and> mget (w_fs w') (tmp_path d) = None))
    \<and> (\<not> is_ok r \<longrightarrow> mget (w_fs w') (meta_path d) = mget (w_fs w) (meta_path d))"
  proof (cases "enc_meta c m")
    case None
    then show ?thesis using assms(2) by (auto simp: writeMeta_def)
  next
    case (Some raw)
    obtain r1 w1 where w1: "WriteFile (tmp_path d) raw w = (r1, w1)" by fastforce
    have f1: "p \<noteq> tmp_path d \<Longrightarrow> mget (w_fs w1) p = mget (w_fs w) p" for p
      using WriteFile_frame [of p "tmp_path d" raw w] by (simp add: w1)
    show ?thesis
    proof (cases r1)
      case (Inl e)
      then have "r = Inl e" "w' = w1" using assms(2) Some w1 by (simp_all add: writeMeta_def Let_def d_def)
      then show ?thesis using f1 ne by simp
    next
      case (Inr u)
      then have rn: "Rename (tmp_path d) (meta_path d) w1 = (r, w')"
        using assms(2) Some w1 by (simp add: writeMeta_def Let_def d_def)
      have tmp: "mget (w_fs w1) (tmp_path d) = Some (File raw)"
        using WriteFile_written [of "tmp_path d" raw w w1] w1 Inr by (simp add: path_simps)
      then have nodir: "fs_get (w_fs w1) (tmp_path d) \<noteq> Some Dir" by (simp add: path_simps)
      have "p \<noteq> tmp_path d \<Longrightarrow> p \<noteq> meta_path d \<Longrightarrow> mget (w_fs w') p = mget (w_fs w) p" for p
        using Rename_frame [OF nodir, of p "meta_path d"] f1 by (simp add: rn)
      moreover have "case (r, w') of
          (Inr _, w') \<Rightarrow> mget (w_fs w') (meta_path d) = Some (File raw) \<and> mget (w_fs w') (tmp_path d) = None
        | (Inl _, w') \<Rightarrow> w_fs w' = w_fs w1"
        using Rename_effect [OF tmp ne [symmetric]] unfolding rn by (simp add: path_simps)
      ultimately show ?thesis using Some f1 ne by (cases r) auto
    qed
  qed
  then show "q \<noteq> meta_path d \<Longrightarrow> q \<noteq> tmp_path d \<Longrightarrow> mget (w_fs w') q = mget (w_fs w) q"
    "is_ok r \<Longrightarrow> \<exists>raw. enc_meta c m = Some raw \<and> mget (w_fs w') (meta_path d) = Some (File raw)
      \<and> mget (w_fs w') (tmp_path d) = None"
    "\<not> is_ok r \<Longrightarrow> mget (w_fs w') (meta_path d) = mget (w_fs w) (meta_path d)"
    by simp_all
qed

lemma MkdirAll_made:
  "comps p \<noteq> [] \<Longrightarrow> MkdirAll p w = (Inr (), w') \<Longrightarrow> mget (w_fs w') p = Some Dir"
proof -
  assume p: "comps p \<noteq> []" and mk: "MkdirAll p w = (Inr (), w')"
  have "p \<in> set (prefixes_of p)"
    using p by (force simp: prefixes_of_def image_iff intro: gopath.expand bexI [of _ "length (comps p) - 1"])
  moreover obtain f w2 where "next_fault w = (f, w2)" by fastforce
  ultimately show ?thesis using mk
    by (cases "mget (w_fs w2) p"; cases "the (mget (w_fs w2) p)")
       (auto simp: MkdirAll_def Let_def fold_mput_Dir split: fault.splits if_splits)
qed

subsection \<open>Durability, operation by operation\<close>

lemma durable_install:
  assumes codec: "meta_codec_ok c" and inv: "state_inv (s, w)" and wf: "meta_wf (TransferID m) m"
    and ok: "install_transfer c m s w = (Inr (), s', w')"
  shows "durable_at c (s', w') (TransferID m)"
proof -
  let ?i = "TransferID m" and ?d = "child (store_root s) (TransferID m)"
  have dir: "transferDir s ?i = ?d"
    using wf inv by (simp add: meta_wf_def state_inv_def store_inv_dir transferDir_child)
  obtain w1 where w1: "MkdirAll ?d w = (Inr (), w1)" and w2: "writeMeta c s m w1 = (Inr (), w')"
    and s': "s' = s\<lparr>meta := mput ?i m (meta s), received := mput ?i [] (received s)\<rparr>"
    using ok by (auto simp: install_transfer_def dir split: prod.splits sum.splits)
  have "mget (w_fs w1) ?d = Some Dir" using MkdirAll_made [OF _ w1] by simp
  then have "mget (w_fs w') ?d = Some Dir"
    using writeMeta_effect(1) [OF w2, of ?d] by (simp add: dir path_simps)
  moreover obtain raw where "enc_meta c m = Some raw" "mget (w_fs w') (meta_path ?d) = Some (File raw)"
    using writeMeta_effect(2) [OF w2] by (auto simp: dir)
  moreover have "transferDir s' ?i = ?d" using dir transferDir_cong [of s' s ?i] by (simp add: s')
  moreover have "mget (meta s') ?i = Some m" "received_set s' ?i = {}"
    by (simp_all add: s' received_set_def)
  ultimately show ?thesis using codec
    by (auto simp: durable_at_def meta_on_disk_def file_at_def meta_codec_ok_def)
qed

text \<open>Rewriting \<open>meta.json\<close> of a transfer whose files are in order.\<close>

lemma durable_rewrite:
  assumes codec: "meta_codec_ok c" and inv: "store_inv s" and m: "mget (meta s) i = Some m"
    and s': "mget (meta s') i = Some (m\<lparr>TouchedAt := now\<rparr>)" "dataDir s' = dataDir s"
    and wr: "writeMeta c s' (m\<lparr>TouchedAt := now\<rparr>) w = (r, w')"
    and dir: "mget (w_fs w) (transferDir s i) = Some Dir"
    and old: "meta_on_disk c s w i = Some m'" "same_but_touch m m'"
    and chunks: "\<forall>index \<in> received_set s' i. chunk_data s w i index \<noteq> None"
  shows "durable_at c (s', w') i"
proof -
  have i: "TransferID m = i" using store_inv_meta [OF inv m] by (simp add: meta_wf_def)
  have t: "transferDir s' i = transferDir s i" using s'(2) by (rule transferDir_cong)
  let ?d = "transferDir s i"
  have frame: "q \<noteq> meta_path ?d \<Longrightarrow> q \<noteq> tmp_path ?d \<Longrightarrow> mget (w_fs w') q = mget (w_fs w) q" for q
    using writeMeta_effect(1) [OF wr] by (simp add: i t)
  have "mget (w_fs w') ?d = Some Dir" using frame [of ?d] dir by (simp add: path_simps)
  moreover have "chunk_data s' w' i index = chunk_data s w i index" for index
    unfolding chunk_data_def t by (rule file_at_cong, rule frame) (simp_all add: path_simps)
  moreover have "\<exists>m'. meta_on_disk c s' w' i = Some m' \<and> same_but_touch m m'"
  proof (cases "is_ok r")
    case True
    then obtain raw where "enc_meta c (m\<lparr>TouchedAt := now\<rparr>) = Some raw"
      "mget (w_fs w') (meta_path ?d) = Some (File raw)"
      using writeMeta_effect(2) [OF wr] by (auto simp: i t)
    then show ?thesis using codec
      by (auto simp: meta_on_disk_def t file_at_def meta_codec_ok_def same_but_touch_def)
  next
    case False
    then have "file_at w' (meta_path ?d) = file_at w (meta_path ?d)"
      using writeMeta_effect(3) [OF wr] by (intro file_at_cong) (simp add: i t)
    then show ?thesis using old by (simp add: meta_on_disk_def t)
  qed
  ultimately show ?thesis using s'(1) chunks by (simp add: durable_at_def t)
qed

lemma durable_touch:
  assumes codec: "meta_codec_ok c" and inv: "state_inv (s, w)" and d: "durable_at c (s, w) i"
  shows "durable_at c (touchLinkTransfer c i now s w) i"
proof (cases "mget (meta s) i")
  case None
  then show ?thesis using d by (simp add: touchLinkTransfer_def)
next
  case (Some m)
  let ?m = "m\<lparr>TouchedAt := now\<rparr>" let ?s = "s\<lparr>meta := mput i ?m (meta s)\<rparr>"
  obtain r w' where wr: "writeMeta c ?s ?m w = (r, w')" by fastforce
  obtain m' where "meta_on_disk c s w i = Some m'" "same_but_touch m m'"
    and "mget (w_fs w) (transferDir s i) = Some Dir"
    and "\<forall>index \<in> received_set s i. chunk_data s w i index \<noteq> None"
    using d Some by (auto simp: durable_at_def)
  then have "durable_at c (?s, w') i"
    using inv Some wr
    by (intro durable_rewrite [OF codec, of s i m ?s]) (simp_all add: state_inv_def received_set_def)
  then show ?thesis using Some wr by (simp add: touchLinkTransfer_def Let_def)
qed

lemma writeChunk_file_effect:
  assumes "writeChunk_file s m i index data w = (r, w')"
  shows "q \<noteq> chunk_path (transferDir s i) index \<Longrightarrow> mget (w_fs w') q = mget (w_fs w) q"
    and "is_ok r \<Longrightarrow> chunk_data s w' i index = Some data"
    and "chunk_data s w i j \<noteq> None \<Longrightarrow> chunk_data s w' i j \<noteq> None"
proof -
  let ?p = "chunk_path (transferDir s i) index"
  have comps: "comps ?p \<noteq> []" by (simp add: path_simps)
  show frame: "q \<noteq> ?p \<Longrightarrow> mget (w_fs w') q = mget (w_fs w) q" for q
    using assms WriteFile_frame [of q ?p data w]
    by (auto simp: writeChunk_file_def split: if_splits)
  show "is_ok r \<Longrightarrow> chunk_data s w' i index = Some data"
    using assms WriteFile_written [OF comps, where d = data and w = w and w' = w']
    by (cases r) (auto simp: writeChunk_file_def chunk_data_def file_at_def split: if_splits)
  assume old: "chunk_data s w i j \<noteq> None"
  show "chunk_data s w' i j \<noteq> None"
  proof (cases "chunk_path (transferDir s i) j = ?p")
    case False
    then show ?thesis using old frame file_at_cong by (metis chunk_data_def)
  next
    case True
    then show ?thesis using old assms WriteFile_effect [OF comps, where d = data and w = w]
      by (cases r) (auto simp: writeChunk_file_def chunk_data_def file_at_def
          split: if_splits option.splits node.splits)
  qed
qed

lemma durable_writeChunk:
  assumes codec: "meta_codec_ok c" and inv: "state_inv (s, w)" and d: "durable_at c (s, w) i"
  shows "durable_at c (snd (writeChunk c i index data now s w)) i"
proof (cases "mget (meta s) i")
  case None
  then show ?thesis using d by (simp add: writeChunk_def)
next
  case (Some m)
  let ?m = "m\<lparr>TouchedAt := now\<rparr>" let ?s = "writeChunk_commit m i index now s"
  let ?d = "transferDir s i"
  obtain r1 w1 where w1: "writeChunk_file s m i index data w = (r1, w1)" by fastforce
  note eff = writeChunk_file_effect [OF w1]
  obtain m' where md: "meta_on_disk c s w i = Some m'" "same_but_touch m m'"
    and dir: "mget (w_fs w) ?d = Some Dir"
    and ch: "\<forall>index \<in> received_set s i. chunk_data s w i index \<noteq> None"
    using d Some by (auto simp: durable_at_def)
  have dir1: "mget (w_fs w1) ?d = Some Dir" using eff(1) [of ?d] dir by (simp add: path_simps)
  have md1: "meta_on_disk c s w1 i = Some m'"
    using file_at_cong [OF eff(1) [of "meta_path ?d"]] md(1) by (simp add: meta_on_disk_def path_simps)
  show ?thesis
  proof (cases r1)
    case (Inl e)
    have "\<forall>j \<in> received_set s i. chunk_data s w1 i j \<noteq> None" using ch eff(3) by blast
    then have "durable_at c (s, w1) i" using Some md(2) dir1 md1 by (simp add: durable_at_def)
    then show ?thesis using Some w1 Inl by (simp add: writeChunk_def)
  next
    case (Inr u)
    obtain r2 w2 where w2: "writeMeta c ?s ?m w1 = (r2, w2)" by fastforce
    have rs: "received_set ?s i = insert index (received_set s i)"
      by (simp add: received_set_def writeChunk_commit_def Let_def split: option.split)
    have "\<forall>j \<in> received_set ?s i. chunk_data s w1 i j \<noteq> None"
      using ch eff(2,3) Inr by (auto simp: rs)
    then have "durable_at c (?s, w2) i"
      using inv Some w2 dir1 md1 md(2)
      by (intro durable_rewrite [OF codec, of s i m ?s])
         (simp_all add: state_inv_def writeChunk_commit_def Let_def)
    then show ?thesis using Some w1 Inr w2 by (simp add: writeChunk_def Let_def)
  qed
qed

lemma delete_gone: "mget (meta (fst (snd (deleteTransfer i s w)))) i = None"
  by (simp add: deleteTransfer_def forget_def split: prod.split)

lemma delete_all_gone:
  "j \<in> set is \<or> mget (meta s) j = None \<Longrightarrow> mget (meta (fst (delete_all is s w))) j = None"
proof (induction "is" arbitrary: s w)
  case (Cons i js)
  obtain r s1 w1 where d: "deleteTransfer i s w = (r, s1, w1)" by (metis prod_cases3)
  then have "s1 = forget i s" by (auto simp: deleteTransfer_def split: prod.splits)
  then have "j \<in> set js \<or> mget (meta s1) j = None"
    using Cons.prems by (auto simp: forget_def)
  then show ?case using Cons.IH d by simp
qed simp

lemma durable_mark:
  assumes inv: "state_inv (s, w)" and d: "durable_at c (s, w) i"
  shows "durable_at c (snd (markLinkChunkServed i index s w)) i"
proof -
  obtain burn s1 where mark: "mark_served i index s = (burn, s1)" by fastforce
  show ?thesis
  proof (cases burn)
    case True
    then show ?thesis using mark delete_gone [of i s w] durable_at_absent
      by (simp add: markLinkChunkServed_burns) (metis prod.collapse)
  next
    case False
    then show ?thesis using mark d mark_served_unchanged [OF mark] transferDir_cong [of s1 s i]
      by (simp add: markLinkChunkServed_def durable_at_def meta_on_disk_def chunk_data_def
          received_set_def split: option.splits)
  qed
qed

lemma durable_create:
  assumes "meta_codec_ok c" "state_inv (s, w)" "durable_at c (s, w) i"
  shows "u \<noteq> [] \<Longrightarrow> v \<noteq> [] \<Longrightarrow> 0 < n \<Longrightarrow> int64_range n
      \<Longrightarrow> durable_at c (snd (createTransfer c i u v n share now s w)) i"
    and "0 < n \<Longrightarrow> int64_range n
      \<Longrightarrow> durable_at c (snd (createLinkTransfer c i token n once now s w)) i"
proof -
  have inst: "durable_at c (snd (install_transfer c m s w)) i"
    if "meta_wf (TransferID m) m" "TransferID m = i" "mget (meta s) i = None" for m
  proof -
    obtain r s' w' where r: "install_transfer c m s w = (r, s', w')" by (metis prod_cases3)
    show ?thesis
    proof (cases r)
      case (Inl e)
      then have "s' = s" using r by (auto simp: install_transfer_def split: prod.splits sum.splits)
      then show ?thesis using that(3) r durable_at_absent by simp
    next
      case (Inr u)
      then show ?thesis using durable_install [OF assms(1,2) that(1), of s' w'] r that(2) by simp
    qed
  qed
  show "durable_at c (snd (createTransfer c i u v n share now s w)) i"
    if "u \<noteq> []" "v \<noteq> []" "0 < n" "int64_range n"
    using that assms(3) inst [of "direct_meta i u v n share now"]
    by (auto simp: createTransfer_def meta_wf_def direct_meta_def direct_form_def)
  show "durable_at c (snd (createLinkTransfer c i token n once now s w)) i"
    if "0 < n" "int64_range n"
    using that assms(3) inst [of "link_meta i token n once now"]
    by (auto simp: createLinkTransfer_def meta_wf_def link_meta_def link_form_def)
qed

lemma durable_step:
  assumes codec: "meta_codec_ok c" and inv: "state_inv x" and g: "store_guard y x"
    and iter: "map_iteration iter" and d: "durable c x"
  shows "durable c (store_step c iter y x)"
  unfolding durable_def
proof
  fix j
  obtain s w where x: "x = (s, w)" by fastforce
  obtain s' w' where y: "store_step c iter y (s, w) = (s', w')" by fastforce
  have dj: "durable_at c (s, w) j" for j using d by (simp add: durable_def x)
  have gone: "durable_at c z k" if "mget (meta (fst z)) k = None" for z k
    using that by (cases z) (simp add: durable_at_absent)
  show "durable_at c (store_step c iter y x) j"
  proof (cases "j \<in> op_targets iter y s")
    case False
    note iso = store_step_isolation [OF inv [unfolded x] g [unfolded x] iter False y]
    have "dataDir s' = dataDir s"
      using store_step_confined [OF inv [unfolded x] g [unfolded x] iter, of c] y
      by (simp add: same_config_def)
    then show ?thesis using durable_at_cong [OF inv [unfolded x] iso(1) _ iso(2) dj] y x by simp
  next
    case True
    note inv' = inv [unfolded x]
    show ?thesis
    proof (cases y)
      case (OpCreate i u v n share now)
      then show ?thesis using g True durable_create(1) [OF codec inv' dj] by (simp add: x)
    next
      case (OpCreateLink i token n once now)
      then show ?thesis using g True durable_create(2) [OF codec inv' dj] by (simp add: x)
    next
      case (OpTouch i now)
      then show ?thesis using True durable_touch [OF codec inv' dj] by (simp add: x)
    next
      case (OpWriteChunk i index data now)
      then show ?thesis using True durable_writeChunk [OF codec inv' dj] by (simp add: x)
    next
      case (OpDelete i)
      then show ?thesis using True gone delete_gone by (simp add: x)
    next
      case (OpMarkServed i index)
      then show ?thesis using True durable_mark [OF inv' dj] by (simp add: x)
    next
      case (OpSweep now)
      then show ?thesis using True by (simp add: x sweep_def gone delete_all_gone)
    qed
  qed
qed

end
