(* ===== verification/StoreRestart.thy ===== *)
theory StoreRestart
  imports StoreDisk
begin

text \<open>
  \<open>newStore\<close> after a crash or a restart.  On a disk that works, \<open>loadExisting\<close> computes exactly what
  the directory tree says; so the store it returns has every transfer of a durable state, and is
  the old store again, up to the served sets, when the state was exact.
\<close>

subsection \<open>What \<open>loadExisting\<close> reads\<close>

definition dir_entries :: "world \<Rightarrow> gopath \<Rightarrow> (string \<times> bool) list" where
  "dir_entries w p = sort_key fst (map (\<lambda>(n, x). (n, x = Dir)) (children (w_fs w) p))"

lemma ReadDir_entries:
  "w_faults w = [] \<Longrightarrow> fs_get (w_fs w) p = Some Dir \<Longrightarrow> ReadDir p w = (Inr (dir_entries w p), w)"
  by (simp add: ReadDir_ok dir_entries_def)

lemma ReadDir_not_dir:
  assumes "w_faults w = []" "fs_get (w_fs w) p \<noteq> Some Dir"
  shows "\<exists>e. ReadDir p w = (Inl e, w)"
  using assms
  by (cases "fs_get (w_fs w) p"; cases "the (fs_get (w_fs w) p)") (auto simp: ReadDir_def)

lemma dir_entries_iff:
  "keys_distinct (w_fs w) \<Longrightarrow>
     (n, b) \<in> set (dir_entries w p) \<longleftrightarrow> (\<exists>x. mget (w_fs w) (child p n) = Some x \<and> b = (x = Dir))"
  by (force simp: dir_entries_def children_iff)

lemma dir_entries_distinct: "keys_distinct (w_fs w) \<Longrightarrow> distinct (map fst (dir_entries w p))"
proof -
  assume "keys_distinct (w_fs w)"
  then have "distinct (map fst (children (w_fs w) p))" by (rule distinct_children)
  then have "distinct (map fst (map (\<lambda>(n, x). (n, x = Dir)) (children (w_fs w) p)))"
    by (simp add: case_prod_unfold comp_def)
  then show ?thesis unfolding dir_entries_def
    by (simp only: distinct_map distinct_sort set_sort)
qed

lemma chunk_set_fold:
  "set (fold (\<lambda>(n, d) acc. case chunk_index n of None \<Rightarrow> acc | Some i \<Rightarrow> set_index i acc) es acc)
     = set acc \<union> {i. \<exists>n d. (n, d) \<in> set es \<and> chunk_index n = Some i}"
  by (induction es arbitrary: acc) (auto split: option.splits)

lemma set_chunk_set: "set (chunk_set es) = {i. \<exists>n d. (n, d) \<in> set es \<and> chunk_index n = Some i}"
  by (simp add: chunk_set_def chunk_set_fold)

lemma distinct_chunk_set: "distinct (chunk_set es)"
proof -
  have "distinct acc \<Longrightarrow> distinct (fold (\<lambda>(n, d) acc. case chunk_index n of None \<Rightarrow> acc
      | Some i \<Rightarrow> set_index i acc) es acc)" for acc
    by (induction es arbitrary: acc) (simp_all add: case_prod_unfold split: option.split)
  then show ?thesis by (simp add: chunk_set_def)
qed

text \<open>The indices the names in a transfer's directory stand for.\<close>

definition indices_on_disk :: "world \<Rightarrow> gopath \<Rightarrow> int set" where
  "indices_on_disk w p =
     {i. \<exists>n x. mget (w_fs w) (child p n) = Some x \<and> chunk_index n = Some i}"

lemma chunk_set_entries:
  "keys_distinct (w_fs w) \<Longrightarrow> set (chunk_set (dir_entries w p)) = indices_on_disk w p"
  by (force simp: set_chunk_set indices_on_disk_def dir_entries_iff)

definition loads :: "meta_codec \<Rightarrow> (string \<times> bool) list \<Rightarrow> store \<Rightarrow> world \<Rightarrow> string \<Rightarrow> bool" where
  "loads c es s w k \<longleftrightarrow> (k, True) \<in> set es \<and> meta_on_disk c s w k \<noteq> None"

lemma load_entry_ok:
  assumes "w_faults w = []" "load_entry c (i, b) s w = (s', w')"
  shows "w' = w \<and> dataDir s' = dataDir s \<and> ttl s' = ttl s \<and> served s' = served s
    \<and> (\<forall>k. mget (meta s') k = (if k = i \<and> loads c [(i, b)] s w i then meta_on_disk c s w i
           else mget (meta s) k))
    \<and> (\<forall>k. mget (received s') k =
          (if k = i \<and> loads c [(i, b)] s w i \<and> fs_get (w_fs w) (transferDir s i) = Some Dir
           then Some (chunk_set (dir_entries w (transferDir s i))) else mget (received s) k))"
proof (cases "b \<and> meta_on_disk c s w i \<noteq> None")
  case False
  then show ?thesis using assms
    by (auto simp: load_entry_def loads_def ReadFile_def meta_on_disk_def file_at_def transferDir_def
        path_simps split: if_splits option.splits node.splits)
next
  case True
  then obtain raw m where raw: "mget (w_fs w) (meta_path (transferDir s i)) = Some (File raw)"
    and m: "dec_meta c raw = Some m"
    by (auto simp: meta_on_disk_def file_at_def split: option.splits node.splits)
  then have rd: "ReadFile (meta_path (filepath_join (dataDir s) i)) w = (Inr raw, w)"
    using assms(1) by (intro ReadFile_ok) (simp_all add: transferDir_def path_simps)
  have md: "meta_on_disk c s w i = Some m" using raw m by (simp add: meta_on_disk_def file_at_def)
  show ?thesis
  proof (cases "fs_get (w_fs w) (transferDir s i) = Some Dir")
    case d: True
    then have "ReadDir (filepath_join (dataDir s) i) w = (Inr (dir_entries w (transferDir s i)), w)"
      using assms(1) by (simp add: ReadDir_entries transferDir_def)
    then show ?thesis using assms(2) True d rd m md
      by (auto simp: load_entry_def loads_def Let_def)
  next
    case d: False
    then obtain e where "ReadDir (filepath_join (dataDir s) i) w = (Inl e, w)"
      using ReadDir_not_dir [OF assms(1)] by (auto simp: transferDir_def)
    then show ?thesis using assms(2) True d rd m md
      by (auto simp: load_entry_def loads_def Let_def)
  qed
qed

lemma load_entries_ok:
  assumes "w_faults w = []" "distinct (map fst es)" "load_entries c es s w = (s', w')"
  shows "w' = w \<and> dataDir s' = dataDir s \<and> ttl s' = ttl s \<and> served s' = served s
    \<and> (\<forall>k. mget (meta s') k = (if loads c es s w k then meta_on_disk c s w k else mget (meta s) k))
    \<and> (\<forall>k. mget (received s') k =
          (if loads c es s w k \<and> fs_get (w_fs w) (transferDir s k) = Some Dir
           then Some (chunk_set (dir_entries w (transferDir s k))) else mget (received s) k))"
  using assms
proof (induction es arbitrary: s)
  case Nil
  then show ?case by (simp add: loads_def)
next
  case (Cons e es)
  obtain i b where e: "e = (i, b)" by fastforce
  obtain s1 w1 where l1: "load_entry c (i, b) s w = (s1, w1)" by fastforce
  note f1 = load_entry_ok [OF Cons.prems(1) l1]
  then have w1: "w1 = w" by simp
  have l2: "load_entries c es s1 w = (s', w')" using Cons.prems(3) l1 by (simp add: e w1)
  have t: "transferDir s1 k = transferDir s k" for k using f1 by (simp add: transferDir_def)
  have md: "meta_on_disk c s1 w k = meta_on_disk c s w k" for k by (simp add: meta_on_disk_def t)
  have i: "i \<notin> fst ` set es" using Cons.prems(2) by (simp add: e)
  have ld: "loads c es s1 w k = loads c es s w k" for k by (simp add: loads_def md)
  have split: "loads c (e # es) s w k \<longleftrightarrow> (k = i \<and> loads c [(i, b)] s w i) \<or> loads c es s w k" for k
    by (auto simp: loads_def e)
  have other: "\<not> loads c es s w i" using i by (force simp: loads_def)
  note f2 = Cons.IH [OF Cons.prems(1) _ l2] 
  show ?case using f1 f2 Cons.prems(2) other unfolding split md t ld by (auto simp: e)
qed

lemma MkdirAll_present:
  "w_faults w = [] \<Longrightarrow> \<forall>q \<in> set (prefixes_of p). mget (w_fs w) q = Some Dir
     \<Longrightarrow> MkdirAll p w = (Inr (), w)"
  by (auto simp: MkdirAll_def Let_def filter_empty_conv [THEN iffD2])

text \<open>The store a restart gives, read off the tree.\<close>

lemma newStore_reads:
  fixes life :: int
  assumes "w_faults w = []" "dir \<noteq> []" "keys_distinct (w_fs w)"
    "\<forall>q \<in> set (prefixes_of (clean_path dir)). mget (w_fs w) q = Some Dir"
    "fs_get (w_fs w) (clean_path dir) = Some Dir"
  defines "s0 \<equiv> empty_store dir life"
  shows "\<exists>s'. newStore c dir life w = (Inr s', w) \<and> dataDir s' = dir \<and> ttl s' = life \<and> served s' = []
    \<and> (\<forall>k. mget (meta s') k =
         (if mget (w_fs w) (child (clean_path dir) k) = Some Dir then meta_on_disk c s0 w k else None))
    \<and> (\<forall>k. mget (received s') k =
         (if mget (w_fs w) (child (clean_path dir) k) = Some Dir \<and> meta_on_disk c s0 w k \<noteq> None
             \<and> fs_get (w_fs w) (transferDir s0 k) = Some Dir
          then Some (chunk_set (dir_entries w (transferDir s0 k))) else None))"
proof -
  let ?es = "dir_entries w (clean_path dir)"
  obtain s' w' where l: "load_entries c ?es s0 w = (s', w')" by fastforce
  note f = load_entries_ok [OF assms(1) dir_entries_distinct [OF assms(3)] l]
  have s0: "dataDir s0 = dir" "ttl s0 = life" "meta s0 = []" "received s0 = []" "served s0 = []"
    by (simp_all add: s0_def empty_store_def)
  have entry: "(k, True) \<in> set ?es \<longleftrightarrow> mget (w_fs w) (child (clean_path dir) k) = Some Dir" for k
    by (auto simp: dir_entries_iff [OF assms(3)])
  have "newStore c dir life w = (Inr s', w)"
    using assms(2) l f MkdirAll_present [OF assms(1,4)] ReadDir_entries [OF assms(1,5)]
    by (simp add: newStore_def loadExisting_def s0 s0_def [symmetric])
  then show ?thesis using f s0 by (auto simp: loads_def entry)
qed

lemma durableD:
  assumes "durable c (s, w)" "mget (meta s) i = Some m"
  shows "mget (w_fs w) (transferDir s i) = Some Dir"
    "\<exists>m'. meta_on_disk c s w i = Some m' \<and> same_but_touch m m'"
    "index \<in> received_set s i \<Longrightarrow> chunk_data s w i index \<noteq> None"
proof -
  have "durable_at c (s, w) i" using assms(1) by (simp add: durable_def)
  then show "mget (w_fs w) (transferDir s i) = Some Dir"
    "\<exists>m'. meta_on_disk c s w i = Some m' \<and> same_but_touch m m'"
    "index \<in> received_set s i \<Longrightarrow> chunk_data s w i index \<noteq> None"
    using assms(2) by (simp_all add: durable_at_def)
qed

lemma indices_on_disk_received:
  assumes "state_inv (s, w)" "durable c (s, w)" "mget (meta s) i = Some m"
  shows "received_set s i \<subseteq> indices_on_disk w (transferDir s i)"
proof
  fix index assume ix: "index \<in> received_set s i"
  have "chunk_data s w i index \<noteq> None"
    using durableD(3) [OF assms(2,3) ix] .
  then obtain d where "mget (w_fs w) (child (transferDir s i) (chunk_name index)) = Some (File d)"
    by (auto simp: chunk_data_def file_at_def path_simps split: option.splits node.splits)
  moreover have "int64_range index"
    using assms(1,3) ix store_inv_received store_inv_meta
    by (fastforce simp: state_inv_def received_set_def received_wf_def meta_wf_def int64_range_def
        split: option.splits)
  ultimately show "index \<in> indices_on_disk w (transferDir s i)"
    using chunk_index_name by (force simp: indices_on_disk_def)
qed

text \<open>Nothing that was stored is lost by a restart.\<close>

theorem restart_durable:
  assumes inv: "state_inv (s, w)" and d: "durable c (s, w)" and nf: "w_faults w = []"
  shows "\<exists>s'. newStore c (dataDir s) (ttl s) w = (Inr s', w)
    \<and> (\<forall>i m. mget (meta s) i = Some m \<longrightarrow>
         (\<exists>m'. mget (meta s') i = Some m' \<and> same_but_touch m m') \<and> received_set s i \<subseteq> received_set s' i)"
proof -
  have k: "keys_distinct (w_fs w)" and di: "disk_inv s w" and si: "store_inv s"
    using inv by (simp_all add: state_inv_def disk_inv_def)
  let ?s0 = "empty_store (dataDir s) (ttl s)"
  obtain s' where s': "newStore c (dataDir s) (ttl s) w = (Inr s', w)"
    and meta: "\<And>k. mget (meta s') k =
         (if mget (w_fs w) (child (store_root s) k) = Some Dir then meta_on_disk c ?s0 w k else None)"
    and rec: "\<And>k. mget (received s') k =
         (if mget (w_fs w) (child (store_root s) k) = Some Dir \<and> meta_on_disk c ?s0 w k \<noteq> None
             \<and> fs_get (w_fs w) (transferDir ?s0 k) = Some Dir
          then Some (chunk_set (dir_entries w (transferDir ?s0 k))) else None)"
    using newStore_reads [OF nf store_inv_dir [OF si] k _ disk_inv_fs_get [OF di], of c "ttl s"] di
    by (auto simp: disk_inv_def)
  have t: "transferDir ?s0 i = transferDir s i" for i by (simp add: transferDir_def empty_store_def)
  have md: "meta_on_disk c ?s0 w i = meta_on_disk c s w i" for i by (simp add: meta_on_disk_def t)
  have "(\<exists>m'. mget (meta s') i = Some m' \<and> same_but_touch m m') \<and> received_set s i \<subseteq> received_set s' i"
    if m: "mget (meta s) i = Some m" for i m
  proof -
    have dir: "transferDir s i = child (store_root s) i" using si m by (rule store_inv_transferDir)
    obtain m' where "meta_on_disk c s w i = Some m'" "same_but_touch m m'"
      "mget (w_fs w) (transferDir s i) = Some Dir"
      using durableD(1,2) [OF d m] by blast
    moreover from this have "received_set s' i = indices_on_disk w (transferDir s i)"
      by (simp add: received_set_def rec md t dir chunk_set_entries [OF k])
    ultimately show ?thesis
      using indices_on_disk_received [OF inv d m] by (simp add: meta md dir)
  qed
  then show ?thesis using s' by blast
qed

end
