(* ===== verification/StoreExact.thy ===== *)
theory StoreExact
  imports StoreRestart
begin

text \<open>
  On a disk that works every operation leaves the data directory holding exactly what the maps say:
  for each transfer its directory, its current \<open>meta.json\<close> and one file per received chunk, and
  nothing for any other name.  A restart is then the identity on the maps (the served sets, kept in
  memory only, start empty).
\<close>

subsection \<open>A working disk keeps working\<close>

lemma no_faults [simp]:
  assumes "w_faults w = []"
  shows "w_faults (snd (WriteFile p d w)) = []" "w_faults (snd (Rename old new w)) = []"
    "w_faults (snd (MkdirAll p w)) = []" "w_faults (snd (RemoveAll p w)) = []"
    "w_faults (snd (ReadFile p w)) = []" "w_faults (snd (ReadDir p w)) = []"
  using assms
  by (auto simp: WriteFile_def Rename_def MkdirAll_def RemoveAll_def ReadFile_def ReadDir_def Let_def
      split: option.splits node.splits)

lemma writeMeta_no_faults [simp]: "w_faults w = [] \<Longrightarrow> w_faults (snd (writeMeta c s m w)) = []"
  by (auto simp: writeMeta_def Let_def split: option.splits prod.splits sum.splits)
     (metis no_faults(1,2) snd_conv)+

definition codec_total :: "meta_codec \<Rightarrow> bool" where
  "codec_total c \<longleftrightarrow> (\<forall>m. enc_meta c m \<noteq> None)"

lemma writeMeta_ok:
  fixes s m
  defines "d \<equiv> transferDir s (TransferID m)"
  assumes "w_faults w = []" "codec_total c" "mget (w_fs w) d = Some Dir" "comps d \<noteq> []"
    "mget (w_fs w) (tmp_path d) \<noteq> Some Dir" "mget (w_fs w) (meta_path d) \<noteq> Some Dir"
  shows "\<exists>w'. writeMeta c s m w = (Inr (), w')"
proof -
  obtain raw where raw: "enc_meta c m = Some raw" using assms(3) by (auto simp: codec_total_def)
  let ?w = "w\<lparr>w_fs := mput (tmp_path d) (File raw) (w_fs w)\<rparr>"
  have dir: "fs_get (w_fs w) d = Some Dir" using assms(4,5) by (simp add: fs_get_def)
  have wr: "WriteFile (tmp_path d) raw w = (Inr (), ?w)"
    using assms(2,6) dir by (intro WriteFile_ok) (simp_all add: path_simps)
  have "Rename (tmp_path d) (meta_path d) ?w
      = (Inr (), ?w\<lparr>w_fs := mput (meta_path d) (File raw) (mdel (tmp_path d) (w_fs ?w))\<rparr>)"
    using assms(2,7) dir
    by (intro Rename_ok) (auto simp: path_simps fs_get_def)
  then show ?thesis using raw wr by (simp add: writeMeta_def Let_def d_def)
qed

subsection \<open>The exact state\<close>

definition exact_at :: "meta_codec \<Rightarrow> state \<Rightarrow> string \<Rightarrow> bool" where
  "exact_at c x i \<longleftrightarrow> (case x of (s, w) \<Rightarrow>
     (case mget (meta s) i of
        None \<Rightarrow> (\<forall>q. below (child (store_root s) i) q \<longrightarrow> mget (w_fs w) q = None)
      | Some m \<Rightarrow> meta_on_disk c s w i = Some m
          \<and> (\<forall>q y. below (child (store_root s) i) q \<longrightarrow> mget (w_fs w) q = Some y \<longrightarrow>
               q = child (store_root s) i
               \<or> (\<exists>d. y = File d) \<and> (q = meta_path (transferDir s i)
                    \<or> (\<exists>index \<in> received_set s i. q = chunk_path (transferDir s i) index)))))"

definition exact :: "meta_codec \<Rightarrow> state \<Rightarrow> bool" where
  "exact c x \<longleftrightarrow> durable c x \<and> (\<forall>i. exact_at c x i) \<and> w_faults (snd x) = []"

lemma exact_at_absent:
  assumes "mget (meta s) i = None" "\<And>q. below (child (store_root s) i) q \<Longrightarrow> mget (w_fs w) q = None"
  shows "exact_at c (s, w) i"
  using assms by (simp add: exact_at_def)

lemma exact_at_present:
  assumes "mget (meta s) i = Some m" "meta_on_disk c s w i = Some m"
    "\<And>q y. below (child (store_root s) i) q \<Longrightarrow> mget (w_fs w) q = Some y \<Longrightarrow> q \<noteq> child (store_root s) i
       \<Longrightarrow> (\<exists>d. y = File d) \<and> (q = meta_path (transferDir s i)
             \<or> (\<exists>index \<in> received_set s i. q = chunk_path (transferDir s i) index))"
  shows "exact_at c (s, w) i"
  using assms by (auto simp: exact_at_def)

lemma exact_atD:
  assumes "exact_at c (s, w) i" "mget (meta s) i = Some m"
  shows "meta_on_disk c s w i = Some m"
    "below (child (store_root s) i) q \<Longrightarrow> mget (w_fs w) q = Some y \<Longrightarrow> q \<noteq> child (store_root s) i
       \<Longrightarrow> (\<exists>d. y = File d) \<and> (q = meta_path (transferDir s i)
             \<or> (\<exists>index \<in> received_set s i. q = chunk_path (transferDir s i) index))"
  using assms by (auto simp: exact_at_def)

lemma exact_at_cong:
  assumes "state_inv (s, w)" "same_transfer i s s'" "dataDir s' = dataDir s"
    "\<And>q. below (child (store_root s) i) q \<Longrightarrow> mget (w_fs w') q = mget (w_fs w) q"
    "exact_at c (s, w) i"
  shows "exact_at c (s', w') i"
proof (cases "mget (meta s) i")
  case None
  then show ?thesis using assms by (simp add: exact_at_def same_transfer_def)
next
  case (Some m)
  have dir: "transferDir s i = child (store_root s) i"
    using assms(1) Some by (auto simp: state_inv_def intro: store_inv_transferDir)
  have t: "transferDir s' i = transferDir s i" using assms(3) by (rule transferDir_cong)
  have "file_at w' (meta_path (transferDir s i)) = file_at w (meta_path (transferDir s i))"
    using assms(4) by (intro file_at_cong) (simp add: dir path_simps below_child_of)
  then have md: "meta_on_disk c s' w' i = meta_on_disk c s w i" by (simp add: meta_on_disk_def t)
  have rs: "received_set s' i = received_set s i"
    using assms(2) by (simp add: received_set_def same_transfer_def)
  show ?thesis
  proof (rule exact_at_present)
    show "mget (meta s') i = Some m" using assms(2) Some by (simp add: same_transfer_def)
    show "meta_on_disk c s' w' i = Some m" using exact_atD(1) [OF assms(5) Some] md by simp
    fix q y
    assume "below (child (store_root s') i) q" "mget (w_fs w') q = Some y" "q \<noteq> child (store_root s') i"
    then show "(\<exists>d. y = File d) \<and> (q = meta_path (transferDir s' i)
        \<or> (\<exists>index \<in> received_set s' i. q = chunk_path (transferDir s' i) index))"
      using exact_atD(2) [OF assms(5) Some, of q y] assms(3,4) by (simp add: t rs)
  qed
qed

text \<open>Neither the temporary nor the final name is a directory, nor any chunk's.\<close>

lemma exact_no_dirs:
  assumes inv: "state_inv (s, w)" and e: "exact_at c (s, w) i" and m: "mget (meta s) i = Some m"
  shows "mget (w_fs w) (child (transferDir s i) n) \<noteq> Some Dir"
    and "mget (w_fs w) (tmp_path (transferDir s i)) = None"
proof -
  have dir: "transferDir s i = child (store_root s) i"
    using inv m by (auto simp: state_inv_def intro: store_inv_transferDir)
  note d = exact_atD(2) [OF e m]
  show "mget (w_fs w) (child (transferDir s i) n) \<noteq> Some Dir"
    using d [of "child (transferDir s i) n" Dir] by (auto simp: dir below_child_of)
  show "mget (w_fs w) (tmp_path (transferDir s i)) = None"
    using d [of "tmp_path (transferDir s i)"]
    by (cases "mget (w_fs w) (tmp_path (transferDir s i))") (auto simp: dir path_simps below_child_of)
qed

subsection \<open>Operation by operation\<close>

lemma exact_rewrite:
  assumes codec: "meta_codec_ok c" "codec_total c" and inv: "store_inv s" and m: "mget (meta s) i = Some m"
    and s': "mget (meta s') i = Some (m\<lparr>TouchedAt := now\<rparr>)" "dataDir s' = dataDir s"
    and wr: "writeMeta c s' (m\<lparr>TouchedAt := now\<rparr>) w = (Inr (), w')"
    and tree: "\<And>q y. below (child (store_root s) i) q \<Longrightarrow> mget (w_fs w) q = Some y
      \<Longrightarrow> q \<noteq> child (store_root s) i \<Longrightarrow> (\<exists>d. y = File d) \<and> (q = meta_path (transferDir s i)
             \<or> (\<exists>index \<in> received_set s' i. q = chunk_path (transferDir s i) index))"
  shows "exact_at c (s', w') i"
proof -
  have i: "TransferID m = i" using store_inv_meta [OF inv m] by (simp add: meta_wf_def)
  have t: "transferDir s' i = transferDir s i" using s'(2) by (rule transferDir_cong)
  let ?d = "transferDir s i"
  have frame: "q \<noteq> meta_path ?d \<Longrightarrow> q \<noteq> tmp_path ?d \<Longrightarrow> mget (w_fs w') q = mget (w_fs w) q" for q
    using writeMeta_effect(1) [OF wr] by (simp add: i t)
  obtain raw where raw: "enc_meta c (m\<lparr>TouchedAt := now\<rparr>) = Some raw"
    "mget (w_fs w') (meta_path ?d) = Some (File raw)" "mget (w_fs w') (tmp_path ?d) = None"
    using writeMeta_effect(2) [OF wr] by (auto simp: i t)
  show ?thesis
  proof (rule exact_at_present [OF s'(1)])
    show "meta_on_disk c s' w' i = Some (m\<lparr>TouchedAt := now\<rparr>)"
      using raw codec(1) by (simp add: meta_on_disk_def t file_at_def meta_codec_ok_def)
    fix q y
    assume q: "below (child (store_root s') i) q" "mget (w_fs w') q = Some y" "q \<noteq> child (store_root s') i"
    show "(\<exists>d. y = File d) \<and> (q = meta_path (transferDir s' i)
        \<or> (\<exists>index \<in> received_set s' i. q = chunk_path (transferDir s' i) index))"
    proof (cases "q = meta_path ?d \<or> q = tmp_path ?d")
      case True
      then show ?thesis using raw q(2) by (auto simp: t)
    next
      case False
      then show ?thesis using frame [of q] tree [of q y] q by (simp add: s'(2) t)
    qed
  qed
qed

lemma exact_touch:
  assumes codec: "meta_codec_ok c" "codec_total c" and inv: "state_inv (s, w)" and e: "exact c (s, w)"
  shows "exact_at c (touchLinkTransfer c i now s w) i"
    and "w_faults (snd (touchLinkTransfer c i now s w)) = []"
proof -
  have nf: "w_faults w = []" and ei: "exact_at c (s, w) i" and du: "durable c (s, w)"
    using e by (simp_all add: exact_def)
  show "w_faults (snd (touchLinkTransfer c i now s w)) = []"
    using nf by (simp add: touchLinkTransfer_def Let_def split: option.split)
  show "exact_at c (touchLinkTransfer c i now s w) i"
  proof (cases "mget (meta s) i")
    case None
    then show ?thesis using ei by (simp add: touchLinkTransfer_def)
  next
    case (Some m)
    let ?m = "m\<lparr>TouchedAt := now\<rparr>" let ?s = "s\<lparr>meta := mput i ?m (meta s)\<rparr>"
    have si: "store_inv s" using inv by (simp add: state_inv_def)
    have i: "TransferID m = i" using store_inv_meta [OF si Some] by (simp add: meta_wf_def)
    have t: "transferDir ?s i = transferDir s i" by (rule transferDir_cong) simp
    have "comps (transferDir s i) \<noteq> []" using store_inv_transferDir [OF si Some] by simp
    then obtain w' where wr: "writeMeta c ?s ?m w = (Inr (), w')"
      using writeMeta_ok [of w c ?s ?m] nf codec(2) durableD(1) [OF du Some]
        exact_no_dirs [OF inv ei Some]
      by (auto simp: i t path_simps)
    have "exact_at c (?s, w') i"
      using exact_rewrite [OF codec si Some _ _ wr] exact_atD(2) [OF ei Some]
      by (simp add: received_set_def)
    then show ?thesis using Some wr by (simp add: touchLinkTransfer_def Let_def)
  qed
qed

lemma exact_writeChunk:
  assumes codec: "meta_codec_ok c" "codec_total c" and inv: "state_inv (s, w)" and e: "exact c (s, w)"
  shows "exact_at c (snd (writeChunk c i index data now s w)) i"
    and "w_faults (snd (snd (writeChunk c i index data now s w))) = []"
    and "mget (meta s) i = Some m \<Longrightarrow> 0 \<le> index \<Longrightarrow> index < TotalChunks m
      \<Longrightarrow> fst (writeChunk c i index data now s w) = Inr ()"
proof -
  have nf: "w_faults w = []" and ei: "exact_at c (s, w) i" and du: "durable c (s, w)"
    using e by (simp_all add: exact_def)
  have si: "store_inv s" using inv by (simp add: state_inv_def)
  have main: "exact_at c (snd (writeChunk c i index data now s w)) i
      \<and> w_faults (snd (snd (writeChunk c i index data now s w))) = []
      \<and> (0 \<le> index \<and> index < TotalChunks m \<longrightarrow> fst (writeChunk c i index data now s w) = Inr ())"
    if m: "mget (meta s) i = Some m" for m
  proof (cases "0 \<le> index \<and> index < TotalChunks m")
    case False
    then have "writeChunk c i index data now s w = (Inl ErrInvalid, s, w)"
      using m by (auto simp: writeChunk_def writeChunk_file_def)
    then show ?thesis using False ei nf by simp
  next
    case True
    let ?d = "transferDir s i" and ?m = "m\<lparr>TouchedAt := now\<rparr>" and ?s = "writeChunk_commit m i index now s"
    let ?p = "chunk_path ?d index" let ?w = "w\<lparr>w_fs := mput ?p (File data) (w_fs w)\<rparr>"
    have i: "TransferID m = i" using store_inv_meta [OF si m] by (simp add: meta_wf_def)
    have dir: "?d = child (store_root s) i" using si m by (rule store_inv_transferDir)
    have sd: "dataDir ?s = dataDir s" by (simp add: writeChunk_commit_def Let_def)
    have t: "transferDir ?s i = ?d" using sd by (rule transferDir_cong)
    have rs: "received_set ?s i = insert index (received_set s i)"
      by (simp add: received_set_def writeChunk_commit_def Let_def split: option.split)
    have "fs_get (w_fs w) ?d = Some Dir" using durableD(1) [OF du m] by (simp add: dir)
    then have w1: "writeChunk_file s m i index data w = (Inr (), ?w)"
      using True nf exact_no_dirs(1) [OF inv ei m]
      by (simp add: writeChunk_file_def WriteFile_ok path_simps)
    obtain w' where wr: "writeMeta c ?s ?m ?w = (Inr (), w')"
      using writeMeta_ok [of ?w c ?s ?m] nf codec(2) durableD(1) [OF du m]
        exact_no_dirs [OF inv ei m]
      by (auto simp: i t path_simps dir)
    have "exact_at c (?s, w') i"
    proof (rule exact_rewrite [OF codec si m _ sd wr])
      show "mget (meta ?s) i = Some ?m" by (simp add: writeChunk_commit_def Let_def)
      fix q y
      assume q: "below (child (store_root s) i) q" "mget (w_fs ?w) q = Some y" "q \<noteq> child (store_root s) i"
      then show "(\<exists>d. y = File d) \<and> (q = meta_path ?d
          \<or> (\<exists>index \<in> received_set ?s i. q = chunk_path ?d index))"
        using exact_atD(2) [OF ei m, of q y] by (auto simp: rs split: if_splits)
    qed
    moreover have "w_faults w' = []" using writeMeta_no_faults [of ?w c ?s ?m] nf wr by simp
    ultimately show ?thesis using m w1 wr by (simp add: writeChunk_def Let_def)
  qed
  show "exact_at c (snd (writeChunk c i index data now s w)) i"
    using main ei by (cases "mget (meta s) i") (auto simp: writeChunk_def)
  show "w_faults (snd (snd (writeChunk c i index data now s w))) = []"
    using main nf by (cases "mget (meta s) i") (auto simp: writeChunk_def)
  show "mget (meta s) i = Some m \<Longrightarrow> 0 \<le> index \<Longrightarrow> index < TotalChunks m
      \<Longrightarrow> fst (writeChunk c i index data now s w) = Inr ()"
    using main by simp
qed

lemma exact_install:
  assumes codec: "meta_codec_ok c" "codec_total c" and inv: "state_inv (s, w)" and e: "exact c (s, w)"
    and new: "mget (meta s) (TransferID m) = None" and wf: "meta_wf (TransferID m) m"
  shows "\<exists>s' w'. install_transfer c m s w = (Inr (), s', w') \<and> exact_at c (s', w') (TransferID m)
    \<and> w_faults w' = [] \<and> s' = s\<lparr>meta := mput (TransferID m) m (meta s),
                                received := mput (TransferID m) [] (received s)\<rparr>"
proof -
  let ?i = "TransferID m" and ?d = "child (store_root s) (TransferID m)"
  let ?s = "s\<lparr>meta := mput ?i m (meta s), received := mput ?i [] (received s)\<rparr>"
  have nf: "w_faults w = []" and ei: "exact_at c (s, w) ?i" using e by (simp_all add: exact_def)
  have dir: "transferDir s ?i = ?d"
    using wf inv by (simp add: meta_wf_def state_inv_def store_inv_dir transferDir_child)
  have t: "transferDir ?s ?i = ?d" using transferDir_cong [of ?s s] dir by simp
  have none: "below ?d q \<Longrightarrow> mget (w_fs w) q = None" for q
    using ei new by (simp add: exact_at_def)
  have roots: "\<forall>q \<in> set (prefixes_of (store_root s)). mget (w_fs w) q = Some Dir"
    using inv by (simp add: state_inv_def disk_inv_def)
  have mk: "MkdirAll ?d w = (Inr (), snd (MkdirAll ?d w))"
    using nf roots none [of ?d] by (auto simp: MkdirAll_def Let_def prefixes_of_child)
  define w1 where "w1 = snd (MkdirAll ?d w)"
  have w1d: "mget (w_fs w1) ?d = Some Dir" using MkdirAll_made [of ?d w w1] mk by (simp add: w1_def)
  have w1n: "mget (w_fs w1) (child q n) = None" if "below ?d q" for q n
  proof -
    have "child q n \<notin> set (prefixes_of ?d)"
    proof
      assume "child q n \<in> set (prefixes_of ?d)"
      then have "below (child q n) q" using that prefixes_of_below below_trans by blast
      then show False by simp
    qed
    then show ?thesis using none [of "child q n"] that nf
      by (auto simp: w1_def MkdirAll_def Let_def fold_mput_Dir below_child_of)
  qed
  have nf1: "w_faults w1 = []" using nf by (simp add: w1_def)
  obtain w2 where wr: "writeMeta c s m w1 = (Inr (), w2)"
    using writeMeta_ok [of w1 c s m] nf1 codec(2) w1d w1n by (auto simp: dir path_simps)
  obtain raw where raw: "enc_meta c m = Some raw" "mget (w_fs w2) (meta_path ?d) = Some (File raw)"
    "mget (w_fs w2) (tmp_path ?d) = None"
    using writeMeta_effect(2) [OF wr] by (auto simp: dir)
  have "exact_at c (?s, w2) ?i"
  proof (rule exact_at_present)
    show "mget (meta ?s) ?i = Some m" by simp
    show "meta_on_disk c ?s w2 ?i = Some m"
      using raw codec(1) by (simp add: meta_on_disk_def t file_at_def meta_codec_ok_def)
    fix q y
    assume q: "below (child (store_root ?s) ?i) q" "mget (w_fs w2) q = Some y" "q \<noteq> child (store_root ?s) ?i"
    show "(\<exists>d. y = File d) \<and> (q = meta_path (transferDir ?s ?i)
        \<or> (\<exists>index \<in> received_set ?s ?i. q = chunk_path (transferDir ?s ?i) index))"
    proof (cases "q = meta_path ?d \<or> q = tmp_path ?d")
      case True
      then show ?thesis using raw q(2) by (auto simp: t)
    next
      case False
      then have "mget (w_fs w1) q = Some y"
        using writeMeta_effect(1) [OF wr, of q] q(2) by (simp add: dir)
      moreover obtain xs where "comps q = comps ?d @ xs" "rooted q = rooted ?d"
        using q(1) by (auto simp: below_def prefix_def)
      moreover have "xs \<noteq> []" using q(3) calculation(2,3) by (cases q) (auto simp: child_def)
      then have "q = child (GoPath (rooted q) (butlast (comps q))) (last (comps q))
          \<and> below ?d (GoPath (rooted q) (butlast (comps q)))"
        using calculation(2,3) by (cases q) (auto simp: child_def below_def butlast_append)
      ultimately show ?thesis using w1n by (metis option.distinct(1))
    qed
  qed
  moreover have "w_faults w2 = []" using writeMeta_no_faults [OF nf1, of c s m] wr by simp
  ultimately show ?thesis using mk wr by (simp add: install_transfer_def dir w1_def [symmetric])
qed

lemma delete_clears:
  assumes "state_inv (s, w)" "mget (meta s) i = Some m" "w_faults w = []"
  shows "deleteTransfer i s w = (Inr (), forget i s,
      w\<lparr>w_fs := filter (\<lambda>(q, n). \<not> below (child (store_root s) i) q) (w_fs w)\<rparr>)"
  using assms
  by (simp add: deleteTransfer_def store_inv_transferDir [of s i m] state_inv_def RemoveAll_ok)

lemma exact_delete:
  assumes "state_inv (s, w)" "mget (meta s) i = Some m" "w_faults w = []"
  shows "exact_at c (snd (deleteTransfer i s w)) i" "w_faults (snd (snd (deleteTransfer i s w))) = []"
  using delete_clears [OF assms] assms(3)
  by (auto simp: forget_def intro!: exact_at_absent)

lemma delete_all_clears:
  assumes "state_inv (s, w)" "distinct is" "\<And>i. i \<in> set is \<Longrightarrow> mget (meta s) i \<noteq> None" "w_faults w = []"
  shows "w_faults (snd (delete_all is s w)) = []
    \<and> (\<forall>i \<in> set is. \<forall>q. below (child (store_root s) i) q \<longrightarrow> mget (w_fs (snd (delete_all is s w))) q = None)"
  using assms
proof (induction "is" arbitrary: s w)
  case Nil
  then show ?case by simp
next
  case (Cons i js)
  have "mget (meta s) i \<noteq> None" by (rule Cons.prems(3)) simp
  then obtain m where m: "mget (meta s) i = Some m" by blast
  let ?w = "w\<lparr>w_fs := filter (\<lambda>(q, n). \<not> below (child (store_root s) i) q) (w_fs w)\<rparr>"
  have d: "deleteTransfer i s w = (Inr (), forget i s, ?w)"
    using delete_clears [OF Cons.prems(1) m Cons.prems(4)] .
  have inv: "state_inv (forget i s, ?w)"
    using keeps_inv [OF deleteTransfer_keeps [OF Cons.prems(1) m]] d by simp
  have root: "store_root (forget i s) = store_root s" by (simp add: forget_def)
  have present: "mget (meta (forget i s)) j \<noteq> None" if "j \<in> set js" for j
  proof -
    have "j \<noteq> i" using that Cons.prems(2) by auto
    then show ?thesis using Cons.prems(3) [of j] that by (simp add: forget_def)
  qed
  have nf: "w_faults ?w = []" using Cons.prems(4) by simp
  have dj: "distinct js" "i \<notin> set js" using Cons.prems(2) by simp_all
  have tail: "below (child (store_root s) i) q \<Longrightarrow>
      mget (w_fs (snd (delete_all js (forget i s) ?w))) q = mget (w_fs ?w) q" for q
    using delete_all_keeps [OF inv dj(1) present] dj(2) by (simp add: root)
  have "below (child (store_root s) i) q \<Longrightarrow> mget (w_fs (snd (delete_all js (forget i s) ?w))) q = None" for q
    using tail [of q] by simp
  then show ?case using Cons.IH [OF inv dj(1) present nf] by (simp add: d root)
qed

lemma exact_sweep:
  assumes inv: "state_inv (s, w)" and iter: "map_iteration iter" and nf: "w_faults w = []"
    and i: "i \<in> set (expired_ids iter now s)"
  shows "exact_at c (sweep iter now s w) i"
proof -
  have d: "distinct (expired_ids iter now s)"
    using inv iter by (simp add: expired_ids_distinct state_inv_def)
  note k = delete_all_keeps [OF inv d expired_ids_present] delete_all_clears [OF inv d expired_ids_present nf]
  have "store_root (fst (sweep iter now s w)) = store_root s"
    using k(1) by (simp add: sweep_def same_config_def)
  then have "exact_at c (fst (sweep iter now s w), snd (sweep iter now s w)) i"
    using k(2) i by (intro exact_at_absent) (auto simp: sweep_def delete_all_gone)
  then show ?thesis by simp
qed

lemma exact_mark:
  assumes inv: "state_inv (s, w)" and e: "exact c (s, w)"
  shows "exact_at c (snd (markLinkChunkServed i index s w)) i"
    and "w_faults (snd (snd (markLinkChunkServed i index s w))) = []"
proof -
  have nf: "w_faults w = []" and ei: "exact_at c (s, w) i" using e by (simp_all add: exact_def)
  obtain burn s1 where mark: "mark_served i index s = (burn, s1)" by fastforce
  have "exact_at c (snd (markLinkChunkServed i index s w)) i
      \<and> w_faults (snd (snd (markLinkChunkServed i index s w))) = []"
  proof (cases burn)
    case True
    then obtain m where "mget (meta s) i = Some m"
      using mark by (auto simp: mark_served_def split: option.splits)
    then show ?thesis using mark True exact_delete [OF inv _ nf]
      by (simp add: markLinkChunkServed_burns)
  next
    case False
    note u = mark_served_unchanged [OF mark]
    have "exact_at c (s1, w) i"
      using ei u transferDir_cong [of s1 s i]
      by (simp add: exact_at_def meta_on_disk_def received_set_def split: option.splits)
    then show ?thesis using mark False nf by (simp add: markLinkChunkServed_def)
  qed
  then show "exact_at c (snd (markLinkChunkServed i index s w)) i"
    "w_faults (snd (snd (markLinkChunkServed i index s w))) = []" by simp_all
qed

lemma exact_create:
  assumes "meta_codec_ok c" "codec_total c" "state_inv (s, w)" "exact c (s, w)"
  shows "u \<noteq> [] \<Longrightarrow> v \<noteq> [] \<Longrightarrow> 0 < n \<Longrightarrow> int64_range n \<Longrightarrow>
      exact_at c (snd (createTransfer c i u v n share now s w)) i
      \<and> w_faults (snd (snd (createTransfer c i u v n share now s w))) = []"
    and "0 < n \<Longrightarrow> int64_range n \<Longrightarrow>
      exact_at c (snd (createLinkTransfer c i token n once now s w)) i
      \<and> w_faults (snd (snd (createLinkTransfer c i token n once now s w))) = []"
proof -
  have e: "exact_at c (s, w) i" "w_faults w = []" using assms(4) by (simp_all add: exact_def)
  have inst: "exact_at c (snd (install_transfer c m s w)) i \<and> w_faults (snd (snd (install_transfer c m s w))) = []"
    if "meta_wf (TransferID m) m" "TransferID m = i" "mget (meta s) i = None" for m
    using exact_install [OF assms, of m] that by auto
  show "exact_at c (snd (createTransfer c i u v n share now s w)) i
      \<and> w_faults (snd (snd (createTransfer c i u v n share now s w))) = []"
    if "u \<noteq> []" "v \<noteq> []" "0 < n" "int64_range n"
    using that e inst [of "direct_meta i u v n share now"]
    by (auto simp: createTransfer_def meta_wf_def direct_meta_def direct_form_def)
  show "exact_at c (snd (createLinkTransfer c i token n once now s w)) i
      \<and> w_faults (snd (snd (createLinkTransfer c i token n once now s w))) = []"
    if "0 < n" "int64_range n"
    using that e inst [of "link_meta i token n once now"]
    by (auto simp: createLinkTransfer_def meta_wf_def link_meta_def link_form_def)
qed

lemma exact_step:
  assumes codec: "meta_codec_ok c" "codec_total c" and inv: "state_inv x" and g: "store_guard y x"
    and iter: "map_iteration iter" and e: "exact c x"
  shows "exact c (store_step c iter y x)"
proof -
  obtain s w where x: "x = (s, w)" by fastforce
  obtain s' w' where y: "store_step c iter y (s, w) = (s', w')" by fastforce
  note inv' = inv [unfolded x] and g' = g [unfolded x] and e' = e [unfolded x]
  have nf: "w_faults w = []" and du: "durable c (s, w)" and ej: "exact_at c (s, w) j" for j
    using e' by (simp_all add: exact_def)
  have target: "w_faults w' = [] \<and> (\<forall>j \<in> op_targets iter y s. exact_at c (s', w') j)"
  proof (cases y)
    case (OpCreate i u v n share now)
    then show ?thesis using g' y exact_create(1) [OF codec inv' e', of u v n i share now] by simp
  next
    case (OpCreateLink i token n once now)
    then show ?thesis using g' y exact_create(2) [OF codec inv' e', of n i token once now] by simp
  next
    case (OpTouch i now)
    then show ?thesis using y exact_touch [OF codec inv' e', of i now] by simp
  next
    case (OpWriteChunk i index data now)
    then show ?thesis using y exact_writeChunk(1,2) [OF codec inv' e', of i index data now] by simp
  next
    case (OpDelete i)
    then obtain m where "mget (meta s) i = Some m" using g' by (auto simp: getMeta_def)
    then show ?thesis using OpDelete y exact_delete(1) [OF inv' _ nf, of i m c] exact_delete(2) [OF inv' _ nf, of i m]
      by simp
  next
    case (OpMarkServed i index)
    then show ?thesis using y exact_mark [OF inv' e', of i index] by simp
  next
    case (OpSweep now)
    have d: "distinct (expired_ids iter now s)"
      using inv' iter by (simp add: expired_ids_distinct state_inv_def)
    show ?thesis using OpSweep y exact_sweep [OF inv' iter nf, of _ now c]
        delete_all_clears [OF inv' d expired_ids_present nf]
      by (simp add: sweep_def)
  qed
  have "exact_at c (s', w') j" for j
  proof (cases "j \<in> op_targets iter y s")
    case False
    note iso = store_step_isolation [OF inv' g' iter False y]
    have "dataDir s' = dataDir s"
      using store_step_confined [OF inv' g' iter, of c] y by (simp add: same_config_def)
    then show ?thesis using exact_at_cong [OF inv' iso(1) _ iso(2) ej] by simp
  qed (use target in blast)
  moreover have "durable c (s', w')"
    using durable_step [OF codec(1) inv' g' iter du] y by simp
  ultimately show ?thesis using target y by (simp add: exact_def x)
qed

subsection \<open>A restart of an exact state\<close>

theorem restart_exact:
  assumes inv: "state_inv (s, w)" and e: "exact c (s, w)"
  shows "\<exists>s'. newStore c (dataDir s) (ttl s) w = (Inr s', w) \<and> served s' = []
    \<and> (\<forall>i. mget (meta s') i = mget (meta s) i) \<and> (\<forall>i. received_set s' i = received_set s i)"
proof -
  have nf: "w_faults w = []" and d: "durable c (s, w)" and ei: "exact_at c (s, w) i" for i
    using e by (simp_all add: exact_def)
  have k: "keys_distinct (w_fs w)" and di: "disk_inv s w" and si: "store_inv s"
    using inv by (simp_all add: state_inv_def disk_inv_def)
  let ?s0 = "empty_store (dataDir s) (ttl s)"
  obtain s' where s': "newStore c (dataDir s) (ttl s) w = (Inr s', w)" "served s' = []"
    and meta: "\<And>k. mget (meta s') k =
         (if mget (w_fs w) (child (store_root s) k) = Some Dir then meta_on_disk c ?s0 w k else None)"
    and rec: "\<And>k. mget (received s') k =
         (if mget (w_fs w) (child (store_root s) k) = Some Dir \<and> meta_on_disk c ?s0 w k \<noteq> None
             \<and> fs_get (w_fs w) (transferDir ?s0 k) = Some Dir
          then Some (chunk_set (dir_entries w (transferDir ?s0 k))) else None)"
    using newStore_reads [OF nf store_inv_dir [OF si] k _ disk_inv_fs_get [OF di], of c "ttl s"] di
    by (auto simp: disk_inv_def)
  have t: "transferDir ?s0 i = transferDir s i" for i by (simp add: transferDir_def empty_store_def)
  have md: "meta_on_disk c ?s0 w i = meta_on_disk c s w i" for i by (simp add: meta_on_disk_def t)
  have "mget (meta s') i = mget (meta s) i \<and> received_set s' i = received_set s i" for i
  proof (cases "mget (meta s) i")
    case None
    then have "mget (w_fs w) (child (store_root s) i) = None" using ei [of i] by (simp add: exact_at_def)
    then show ?thesis using None store_inv_no_received [OF si None]
      by (simp add: meta received_set_def rec)
  next
    case (Some m)
    have dir: "transferDir s i = child (store_root s) i" using si Some by (rule store_inv_transferDir)
    have ex: "mget (w_fs w) (child (store_root s) i) = Some Dir"
      using durableD(1) [OF d Some] by (simp add: dir)
    have "indices_on_disk w (transferDir s i) \<subseteq> received_set s i"
    proof
      fix index assume "index \<in> indices_on_disk w (transferDir s i)"
      then obtain n y where n: "mget (w_fs w) (child (child (store_root s) i) n) = Some y"
        "chunk_index n = Some index"
        by (auto simp: indices_on_disk_def dir)
      then obtain j where j: "j \<in> received_set s i" "n = chunk_name j"
        using exact_atD(2) [OF ei Some, of "child (child (store_root s) i) n" y]
        by (auto simp: dir path_simps below_child_of)
      have "int64_range j"
        using si Some j(1) store_inv_received store_inv_meta
        by (fastforce simp: received_set_def received_wf_def meta_wf_def int64_range_def
            split: option.splits)
      then show "index \<in> received_set s i" using n(2) j chunk_index_name by simp
    qed
    then have "received_set s' i = received_set s i"
      using indices_on_disk_received [OF inv d Some] exact_atD(1) [OF ei Some] ex
      by (simp add: received_set_def [of s'] rec md t dir chunk_set_entries [OF k])
    then show ?thesis using exact_atD(1) [OF ei Some] ex Some by (simp add: meta md)
  qed
  then show ?thesis using s' by blast
qed

end
