(* ===== verification/StoreSpec.thy ===== *)
theory StoreSpec
  imports StoreExact
begin

text \<open>
  What the store promises its callers: a map from transfer ids to metadata and chunks.
  \<open>abs_state\<close> reads that map off the store and the disk; the refinement lemmas say that each
  operation, when it reports success, changes the map as its specification does, whatever the disk
  did before.  \<open>chunk_store\<close> is the interface the protocol handlers rely on, with the lemma about
  whole uploads proved once against it.
\<close>

subsection \<open>The abstract state\<close>

type_synonym abs_store = "string \<rightharpoonup> transferMeta \<times> (int \<rightharpoonup> bytes)"

definition chunk_of :: "state \<Rightarrow> string \<Rightarrow> int \<Rightarrow> bytes option" where
  "chunk_of x i index = (case x of (s, w) \<Rightarrow>
     (if index \<in> received_set s i then chunk_data s w i index else None))"

definition abs_state :: "state \<Rightarrow> abs_store" where
  "abs_state x = (\<lambda>i. map_option (\<lambda>m. (m, chunk_of x i)) (getMeta (fst x) i))"

lemma abs_state_Some:
  "mget (meta s) i = Some m \<Longrightarrow> abs_state (s, w) i = Some (m, chunk_of (s, w) i)"
  by (simp add: abs_state_def getMeta_def)

lemma abs_state_None: "abs_state (s, w) i = None \<longleftrightarrow> mget (meta s) i = None"
  by (simp add: abs_state_def getMeta_def)

lemma abs_state_local:
  assumes dir: "mget (meta s) i \<noteq> None \<Longrightarrow> transferDir s i = child (store_root s) i"
    and "same_transfer i s s'" "dataDir s' = dataDir s"
    "\<And>q. below (child (store_root s) i) q \<Longrightarrow> mget (w_fs w') q = mget (w_fs w) q"
  shows "abs_state (s', w') i = abs_state (s, w) i"
proof (cases "mget (meta s) i")
  case None
  then show ?thesis using assms(2) by (simp add: abs_state_def getMeta_def same_transfer_def)
next
  case (Some m)
  have t: "transferDir s' i = transferDir s i" using assms(3) by (rule transferDir_cong)
  have "chunk_data s' w' i index = chunk_data s w i index" for index
    unfolding chunk_data_def t
    by (rule file_at_cong, rule assms(4)) (simp add: dir Some path_simps below_child_of)
  then have "chunk_of (s', w') i = chunk_of (s, w) i"
    using assms(2) by (intro ext) (simp add: same_transfer_def chunk_of_def received_set_def)
  then show ?thesis using assms(2) by (simp add: abs_state_def getMeta_def same_transfer_def)
qed

lemma abs_state_frame:
  assumes "state_inv (s, w)" "same_transfer i s s'" "dataDir s' = dataDir s"
    "\<And>q. below (child (store_root s) i) q \<Longrightarrow> mget (w_fs w') q = mget (w_fs w) q"
  shows "abs_state (s', w') i = abs_state (s, w) i"
  by (rule abs_state_local) (use assms in \<open>auto simp: state_inv_def intro: store_inv_transferDir\<close>)

text \<open>An operation on transfer \<open>i\<close> changes the map at \<open>i\<close> only.\<close>

lemma keeps_abs:
  assumes "state_inv (s, w)" "keeps i (s, w) (s', w')" "abs_state (s', w') i = v"
  shows "abs_state (s', w') = (abs_state (s, w))(i := v)"
proof
  fix j
  show "abs_state (s', w') j = ((abs_state (s, w))(i := v)) j"
  proof (cases "j = i")
    case False
    have "abs_state (s', w') j = abs_state (s, w) j"
    proof (rule abs_state_frame [OF assms(1)])
      show "same_transfer j s s'" "dataDir s' = dataDir s"
        using assms(2) False by (simp_all add: keeps_def same_config_def)
      fix q assume "below (child (store_root s) j) q"
      then have "\<not> below (child (store_root s) i) q" using False below_child_other by blast
      then show "mget (w_fs w') q = mget (w_fs w) q"
        using assms(2) by (simp add: keeps_def same_outside_def)
    qed
    then show ?thesis using False by simp
  qed (use assms(3) in simp)
qed

subsection \<open>Refinement\<close>

lemma chunk_of_installed: "mget (received s) i = Some [] \<Longrightarrow> chunk_of (s, w) i = Map.empty"
  by (rule ext) (simp add: chunk_of_def received_set_def)

lemma install_refines:
  assumes inv: "state_inv (s, w)" and new: "mget (meta s) (TransferID m) = None"
    and wf: "meta_wf (TransferID m) m"
    and room: "From m \<noteq> [] \<Longrightarrow> senderCount s (From m) < maxTransfersPerSender"
    and ok: "install_transfer c m s w = (Inr (), s', w')"
  shows "abs_state (s', w') = (abs_state (s, w))(TransferID m \<mapsto> (m, Map.empty))"
proof (rule keeps_abs [OF inv])
  show "keeps (TransferID m) (s, w) (s', w')"
    using install_keeps [OF inv new wf room, of c] ok by simp
  have s': "s' = s\<lparr>meta := mput (TransferID m) m (meta s), received := mput (TransferID m) [] (received s)\<rparr>"
    using ok by (auto simp: install_transfer_def split: prod.splits sum.splits)
  then show "abs_state (s', w') (TransferID m) = Some (m, Map.empty)"
    by (simp add: abs_state_Some [where m = m] chunk_of_installed)
qed

lemma createTransfer_refines:
  assumes inv: "state_inv (s, w)" and g: "u \<noteq> []" "r \<noteq> []" "0 < n" "int64_range n"
    and ok: "createTransfer c i u r n share now s w = (Inr (), s', w')"
  shows "abs_state (s', w') =
    (if abs_state (s, w) i = None
     then (abs_state (s, w))(i \<mapsto> (direct_meta i u r n share now, Map.empty)) else abs_state (s, w))"
proof (cases "mget (meta s) i = None")
  case False
  then have "s' = s" "w' = w" using ok by (auto simp: createTransfer_def)
  then show ?thesis using False by (auto simp: abs_state_None)
next
  case True
  let ?m = "direct_meta i u r n share now"
  have id: "TransferID ?m = i" "From ?m = u" by (simp_all add: direct_meta_def)
  have v: "validTransferID i" and c: "senderCount s u < maxTransfersPerSender"
    and ins: "install_transfer c ?m s w = (Inr (), s', w')"
    using ok True by (auto simp: createTransfer_def split: if_splits)
  have "meta_wf (TransferID ?m) ?m"
    using g v by (simp add: meta_wf_def direct_meta_def direct_form_def)
  then show ?thesis using install_refines [OF inv _ _ _ ins] True c
    by (simp add: id abs_state_None)
qed

lemma createLinkTransfer_refines:
  assumes inv: "state_inv (s, w)" and g: "0 < n" "int64_range n"
    and ok: "createLinkTransfer c i token n once now s w = (Inr (), s', w')"
  shows "abs_state (s, w) i = None
    \<and> abs_state (s', w') = (abs_state (s, w))(i \<mapsto> (link_meta i token n once now, Map.empty))"
proof -
  let ?m = "link_meta i token n once now"
  have id: "TransferID ?m = i" "From ?m = []" by (simp_all add: link_meta_def)
  have new: "mget (meta s) i = None" and v: "validTransferID i"
    and ins: "install_transfer c ?m s w = (Inr (), s', w')"
    using ok by (auto simp: createLinkTransfer_def split: if_splits)
  have "meta_wf (TransferID ?m) ?m"
    using g v by (simp add: meta_wf_def link_meta_def link_form_def)
  then show ?thesis using install_refines [OF inv _ _ _ ins] new
    by (simp add: id abs_state_None)
qed

lemma writeMeta_keeps_chunks:
  assumes "writeMeta c s m w = (r, w')" "transferDir s (TransferID m) = transferDir s i"
  shows "chunk_data s w' i index = chunk_data s w i index"
  unfolding chunk_data_def
  by (rule file_at_cong, rule writeMeta_effect(1) [OF assms(1)])
     (simp_all add: assms(2) path_simps)

lemma touchLinkTransfer_refines:
  assumes inv: "state_inv (s, w)" and r: "touchLinkTransfer c i now s w = (s', w')"
  shows "abs_state (s', w') =
    (case abs_state (s, w) i of None \<Rightarrow> abs_state (s, w)
     | Some (m, f) \<Rightarrow> (abs_state (s, w))(i \<mapsto> (m\<lparr>TouchedAt := now\<rparr>, f)))"
proof (cases "mget (meta s) i")
  case None
  then show ?thesis using r by (simp add: touchLinkTransfer_def abs_state_def getMeta_def)
next
  case (Some m)
  let ?m = "m\<lparr>TouchedAt := now\<rparr>" let ?s = "s\<lparr>meta := mput i ?m (meta s)\<rparr>"
  have s': "s' = ?s" and wr: "writeMeta c ?s ?m w = (fst (writeMeta c ?s ?m w), w')"
    using r Some by (auto simp: touchLinkTransfer_def Let_def)
  have "TransferID m = i"
    using inv Some store_inv_meta by (auto simp: state_inv_def meta_wf_def)
  then have "chunk_data ?s w' i index = chunk_data s w i index" for index
    using writeMeta_keeps_chunks [OF wr, of i] transferDir_cong [of ?s s i]
    by (simp add: chunk_data_def)
  then have "chunk_of (s', w') i = chunk_of (s, w) i"
    by (intro ext) (simp add: s' chunk_of_def received_set_def)
  then have "abs_state (s', w') i = Some (?m, chunk_of (s, w) i)"
    by (simp add: s' abs_state_Some [where m = ?m])
  then show ?thesis
    using keeps_abs [OF inv] touchLinkTransfer_keeps [OF inv, of i c now] r Some
    by (simp add: abs_state_Some)
qed

lemma writeChunk_refines:
  assumes inv: "state_inv (s, w)" and ok: "writeChunk c i index data now s w = (Inr (), s', w')"
  shows "\<exists>m f. abs_state (s, w) i = Some (m, f) \<and> 0 \<le> index \<and> index < TotalChunks m
    \<and> abs_state (s', w') = (abs_state (s, w))(i \<mapsto> (m\<lparr>TouchedAt := now\<rparr>, f(index \<mapsto> data)))"
proof -
  obtain m where m: "mget (meta s) i = Some m"
    using ok by (cases "mget (meta s) i") (auto simp: writeChunk_def)
  let ?m = "m\<lparr>TouchedAt := now\<rparr>" let ?s = "writeChunk_commit m i index now s"
  obtain w1 where w1: "writeChunk_file s m i index data w = (Inr (), w1)"
    and wr: "writeMeta c ?s ?m w1 = (Inr (), w')" and s': "s' = ?s"
    using ok m by (auto simp: writeChunk_def Let_def split: prod.splits sum.splits)
  have ix: "0 \<le> index" "index < TotalChunks m"
    using w1 by (auto simp: writeChunk_file_def split: if_splits)
  have i: "TransferID m = i"
    using inv m store_inv_meta by (auto simp: state_inv_def meta_wf_def)
  have cd: "chunk_data ?s w' i j = chunk_data s w1 i j" for j
    using writeMeta_keeps_chunks [OF wr, of i] transferDir_cong [of ?s s i]
    by (simp add: chunk_data_def i writeChunk_commit_def Let_def)
  have range: "int64_range j" if "j \<in> insert index (received_set s i)" for j
    using that ix inv m store_inv_received store_inv_meta
    by (fastforce simp: state_inv_def received_set_def received_wf_def meta_wf_def int64_range_def
        split: option.splits)
  have old: "chunk_data s w1 i j = chunk_data s w i j" if "j \<noteq> index" "j \<in> received_set s i" for j
    unfolding chunk_data_def
    using that range [of j] range [of index]
    by (intro file_at_cong writeChunk_file_effect(1) [OF w1]) (simp add: path_simps chunk_name_inject)
  have "chunk_of (?s, w') i = (chunk_of (s, w) i)(index \<mapsto> data)"
  proof
    fix j
    have "received_set ?s i = insert index (received_set s i)"
      by (simp add: received_set_def writeChunk_commit_def Let_def split: option.split)
    then show "chunk_of (?s, w') i j = ((chunk_of (s, w) i)(index \<mapsto> data)) j"
      using writeChunk_file_effect(2) [OF w1] old [of j] by (auto simp: chunk_of_def cd)
  qed
  moreover have "mget (meta ?s) i = Some ?m" by (simp add: writeChunk_commit_def Let_def)
  ultimately have "abs_state (s', w') i = Some (?m, (chunk_of (s, w) i)(index \<mapsto> data))"
    by (simp add: s' abs_state_Some)
  then have "abs_state (s', w') = (abs_state (s, w))(i \<mapsto> (?m, (chunk_of (s, w) i)(index \<mapsto> data)))"
    using keeps_abs [OF inv] writeChunk_keeps [OF inv, of i c index data now] ok by simp
  then show ?thesis using ix m by (auto simp: abs_state_Some)
qed

lemma deleteTransfer_refines:
  assumes inv: "state_inv (s, w)" and m: "mget (meta s) i = Some m"
    and r: "deleteTransfer i s w = (r, s', w')"
  shows "abs_state (s', w') = (abs_state (s, w))(i := None)"
proof (rule keeps_abs [OF inv])
  show "keeps i (s, w) (s', w')" using deleteTransfer_keeps [OF inv m] r by simp
  show "abs_state (s', w') i = None"
    using delete_gone [of i s w] r by (simp add: abs_state_None)
qed

lemma sweep_refines:
  assumes inv: "state_inv (s, w)" and iter: "map_iteration iter" and r: "sweep iter now s w = (s', w')"
  shows "abs_state (s', w') = (\<lambda>i. case abs_state (s, w) i of None \<Rightarrow> None
     | Some (m, f) \<Rightarrow> if TouchedAt m < now - ttl s then None else Some (m, f))"
proof
  fix i
  note k = sweep_keeps [OF inv iter, of now]
  show "abs_state (s', w') i = (case abs_state (s, w) i of None \<Rightarrow> None
     | Some (m, f) \<Rightarrow> if TouchedAt m < now - ttl s then None else Some (m, f))"
  proof (cases "i \<in> set (expired_ids iter now s)")
    case True
    then have "mget (meta s') i = None"
      using delete_all_gone [of i "expired_ids iter now s" s w] r by (simp add: sweep_def)
    then show ?thesis using True
      by (auto simp: abs_state_def getMeta_def expired_ids_set [OF iter])
  next
    case False
    then have "abs_state (s', w') i = abs_state (s, w) i"
      using k r by (intro abs_state_frame [OF inv]) (auto simp: same_config_def)
    then show ?thesis using False
      by (auto simp: abs_state_def getMeta_def expired_ids_set [OF iter] split: option.split)
  qed
qed

lemma readChunk_refines:
  assumes "state_inv (s, w)" "readChunk s i index w = (Inr d, w')" "index \<in> received_set s i"
  shows "chunk_of (s, w) i index = Some d"
  using assms ReadFile_value
  by (fastforce simp: readChunk_def chunk_of_def chunk_data_def file_at_def path_simps
      split: option.splits)

lemma readChunk_ok:
  assumes "durable c (s, w)" "w_faults w = []" "mget (meta s) i = Some m" "index \<in> received_set s i"
  shows "\<exists>d. readChunk s i index w = (Inr d, w) \<and> chunk_of (s, w) i index = Some d"
proof -
  obtain d where "chunk_data s w i index = Some d" using durableD(3) [OF assms(1,3,4)] by blast
  then show ?thesis using assms(2,4)
    by (auto simp: readChunk_def chunk_of_def chunk_data_def path_simps
        dest!: file_at_child_fs_get intro: ReadFile_ok)
qed

subsection \<open>The interface of the handlers\<close>

lemma same_but_touch_trans: "same_but_touch a b \<Longrightarrow> same_but_touch b c \<Longrightarrow> same_but_touch a c"
  by (cases a; cases b; cases c) (auto simp: same_but_touch_def)

lemma same_but_touch_fields:
  "same_but_touch a b \<Longrightarrow> TransferID b = TransferID a \<and> From b = From a \<and> To b = To a
     \<and> TotalChunks b = TotalChunks a \<and> Mode b = Mode a \<and> Shareable b = Shareable a
     \<and> OneTime b = OneTime a \<and> ManageToken b = ManageToken a \<and> CreatedAt b = CreatedAt a"
  by (cases a; cases b) (auto simp: same_but_touch_def)

text \<open>
  What the upload and download handlers of \<open>server.go\<close> use of the store: stored metadata, stored
  chunks, storing a chunk, deleting a transfer.
\<close>

locale chunk_store =
  fixes valid :: "'st \<Rightarrow> bool"
    and lookup :: "'st \<Rightarrow> string \<Rightarrow> transferMeta option"
    and chunk :: "'st \<Rightarrow> string \<Rightarrow> int \<Rightarrow> bytes option"
    and put :: "int \<Rightarrow> string \<Rightarrow> int \<Rightarrow> bytes \<Rightarrow> 'st \<Rightarrow> 'st"
    and remove :: "string \<Rightarrow> 'st \<Rightarrow> 'st"
  assumes put_valid: "valid x \<Longrightarrow> valid (put t i k d x)"
    and put_parties: "valid x \<Longrightarrow> lookup x j = Some m \<Longrightarrow>
      \<exists>m'. lookup (put t i k d x) j = Some m' \<and> same_but_touch m m'"
    and put_chunk: "valid x \<Longrightarrow> lookup x i = Some m \<Longrightarrow> 0 \<le> k \<Longrightarrow> k < TotalChunks m \<Longrightarrow>
      chunk (put t i k d x) j l = (if j = i \<and> l = k then Some d else chunk x j l)"
    and remove_valid: "valid x \<Longrightarrow> lookup x i = Some m \<Longrightarrow> valid (remove i x)"
    and remove_lookup: "valid x \<Longrightarrow> lookup x i = Some m \<Longrightarrow>
      lookup (remove i x) j = (if j = i then None else lookup x j)"
begin

fun put_all :: "string \<Rightarrow> (int \<times> int \<times> bytes) list \<Rightarrow> 'st \<Rightarrow> 'st" where
  "put_all i [] x = x"
| "put_all i ((t, k, d) # kds) x = put_all i kds (put t i k d x)"

text \<open>After any sequence of chunks in range, every chunk is the last one sent for its index, and the
  other transfers' chunks are as they were: resumed and repeated uploads included.\<close>

lemma put_all_chunks:
  assumes "valid x" "lookup x i = Some m" "list_all (\<lambda>(t, k, d). 0 \<le> k \<and> k < TotalChunks m) kds"
  shows "valid (put_all i kds x)
    \<and> chunk (put_all i kds x) j l
      = (if j = i then (case map_of (rev (map snd kds)) l of None \<Rightarrow> chunk x i l | Some d \<Rightarrow> Some d)
         else chunk x j l)
    \<and> (\<exists>m'. lookup (put_all i kds x) i = Some m' \<and> same_but_touch m m')"
  using assms
proof (induction kds arbitrary: x m)
  case Nil
  then show ?case by simp
next
  case (Cons kd kds)
  obtain t k d where kd: "kd = (t, k, d)" by (metis prod_cases3)
  have r: "0 \<le> k" "k < TotalChunks m" using Cons.prems(3) by (simp_all add: kd)
  obtain m' where m': "lookup (put t i k d x) i = Some m'" "same_but_touch m m'"
    using put_parties [OF Cons.prems(1,2)] by blast
  have tot: "TotalChunks m' = TotalChunks m" using same_but_touch_fields [OF m'(2)] by simp
  have "list_all (\<lambda>(t, k, d). 0 \<le> k \<and> k < TotalChunks m') kds" using Cons.prems(3) tot by simp
  from Cons.IH [OF put_valid [OF Cons.prems(1)] m'(1) this]
  show ?case using put_chunk [OF Cons.prems(1,2) r] same_but_touch_trans [OF m'(2)]
    by (auto simp: kd map_of_append split: option.splits)
qed

end

text \<open>The model's store, on a disk that works, is such a store.\<close>

definition live :: "meta_codec \<Rightarrow> state \<Rightarrow> bool" where
  "live c x \<longleftrightarrow> meta_codec_ok c \<and> codec_total c \<and> state_inv x \<and> exact c x"

definition put_chunk_at :: "meta_codec \<Rightarrow> int \<Rightarrow> string \<Rightarrow> int \<Rightarrow> bytes \<Rightarrow> state \<Rightarrow> state" where
  "put_chunk_at c now i k d x = store_step c (\<lambda>ks. ks) (OpWriteChunk i k d now) x"

definition remove_transfer :: "meta_codec \<Rightarrow> string \<Rightarrow> state \<Rightarrow> state" where
  "remove_transfer c i x = store_step c (\<lambda>ks. ks) (OpDelete i) x"

lemma live_step: "live c x \<Longrightarrow> store_guard y x \<Longrightarrow> map_iteration iter \<Longrightarrow> live c (store_step c iter y x)"
  by (simp add: live_def store_step_inv exact_step)

lemma chunk_of_abs: "chunk_of x i = (case abs_state x i of None \<Rightarrow> chunk_of x i | Some (m, f) \<Rightarrow> f)"
  by (auto simp: abs_state_def split: option.split)

lemma getMeta_abs: "getMeta (fst x) i = map_option fst (abs_state x i)"
  by (simp add: abs_state_def option.map_comp comp_def option.map_ident)

lemma chunk_of_absent: "state_inv (s, w) \<Longrightarrow> mget (meta s) i = None \<Longrightarrow> chunk_of (s, w) i = Map.empty"
  using store_inv_no_received [of s i]
  by (intro ext) (simp add: chunk_of_def received_set_def state_inv_def)

lemma chunk_of_abs_inv:
  "state_inv x \<Longrightarrow> chunk_of x i = (case abs_state x i of None \<Rightarrow> Map.empty | Some (m, f) \<Rightarrow> f)"
  by (cases x) (auto simp: abs_state_def getMeta_def chunk_of_absent split: option.split)

lemma put_chunk_at_refines:
  assumes l: "live c x" and m: "getMeta (fst x) i = Some m" and k: "0 \<le> k" "k < TotalChunks m"
  shows "abs_state (put_chunk_at c now i k d x)
    = (abs_state x)(i \<mapsto> (m\<lparr>TouchedAt := now\<rparr>, (chunk_of x i)(k \<mapsto> d)))"
proof -
  obtain s w where x: "x = (s, w)" by fastforce
  have inv: "state_inv (s, w)" and e: "exact c (s, w)" and cd: "meta_codec_ok c" "codec_total c"
    using l by (simp_all add: live_def x)
  have m': "mget (meta s) i = Some m" using m by (simp add: getMeta_def x)
  obtain r s' w' where r: "writeChunk c i k d now s w = (r, s', w')" by (metis prod_cases3)
  then have "r = Inr ()" using exact_writeChunk(3) [OF cd inv e m' k, of d now] by simp
  then show ?thesis using writeChunk_refines [OF inv, of c i k d now s' w'] r m'
    by (auto simp: x put_chunk_at_def abs_state_Some)
qed

lemma same_but_touch_id: "same_but_touch m (m\<lparr>TouchedAt := t\<rparr>)"
  by (simp add: same_but_touch_def)

lemma put_chunk_at_outside:
  assumes "\<not> (\<exists>m. getMeta (fst x) i = Some m \<and> 0 \<le> k \<and> k < TotalChunks m)"
  shows "put_chunk_at c now i k d x = x"
  using assms
  by (cases x) (auto simp: put_chunk_at_def getMeta_def writeChunk_def writeChunk_file_def
      split: option.split)

interpretation model_store: chunk_store "live c" "\<lambda>x. getMeta (fst x)" chunk_of
  "put_chunk_at c" "remove_transfer c" for c :: meta_codec
proof
  fix x now i k d j m
  assume l: "live c x"
  show "live c (put_chunk_at c now i k d x)"
    unfolding put_chunk_at_def using l by (intro live_step) (cases x; auto)+
  assume m: "getMeta (fst x) j = Some m"
  show "\<exists>m'. getMeta (fst (put_chunk_at c now i k d x)) j = Some m' \<and> same_but_touch m m'"
    using put_chunk_at_refines [OF l] put_chunk_at_outside [of x i k c now d] m same_but_touch_id
    by (cases "\<exists>m. getMeta (fst x) i = Some m \<and> 0 \<le> k \<and> k < TotalChunks m")
       (auto simp: getMeta_abs)
next
  fix x i m k now d j l
  assume lv: "live c x" and m: "getMeta (fst x) i = Some m" and k: "0 \<le> k" "k < TotalChunks m"
  have "state_inv (put_chunk_at c now i k d x)"
    using lv unfolding put_chunk_at_def live_def
    by (intro store_step_inv) (cases x; auto)+
  then show "chunk_of (put_chunk_at c now i k d x) j l = (if j = i \<and> l = k then Some d else chunk_of x j l)"
    using lv put_chunk_at_refines [OF lv m k]
    by (simp add: chunk_of_abs_inv [of "put_chunk_at c now i k d x"] chunk_of_abs_inv [of x] live_def)
next
  fix x i m j
  assume lv: "live c x" and m: "getMeta (fst x) i = Some m"
  show "live c (remove_transfer c i x)"
    unfolding remove_transfer_def using lv m by (intro live_step) (cases x; auto)+
  show "getMeta (fst (remove_transfer c i x)) j = (if j = i then None else getMeta (fst x) j)"
    by (cases x) (simp add: remove_transfer_def deleteTransfer_def forget_def getMeta_def
        split: prod.split)
qed

end
