(* ===== verification/WsServer.thy ===== *)
theory WsServer
  imports Types Delegate WsMessage StoreSpec
begin

text \<open>
  The WebSocket half of \<open>server.go\<close>: the handshake that proves an identity and a paid entitlement,
  the handler of each control message, and the loop that serves a connection.  The store and the
  disk are one state that every handler takes and returns; the connection is another.
\<close>

subsection \<open>Replies\<close>

definition reply :: "deps \<Rightarrow> wsEnvelope \<Rightarrow> wsConn \<Rightarrow> unit res \<times> wsConn" where
  "reply d env c =
     (case d_enc d env of
        None \<Rightarrow> (Inl (Err ''json: error calling MarshalJSON''), c)
      | Some b \<Rightarrow> WriteMessage b c)"

text \<open>A message whose encoding error and write error are both dropped.\<close>

definition send_ignoring :: "deps \<Rightarrow> wsEnvelope \<Rightarrow> wsConn \<Rightarrow> wsConn" where
  "send_ignoring d env c =
     snd (WriteMessage (case d_enc d env of None \<Rightarrow> [] | Some b \<Rightarrow> b) c)"

subsection \<open>Authentication\<close>

text \<open>A text frame that decodes to an envelope; \<open>errText\<close> and \<open>errMsg\<close> are the two errors.\<close>

definition read_envelope :: "deps \<Rightarrow> string \<Rightarrow> string \<Rightarrow> (wsEnvelope \<Rightarrow> bool) \<Rightarrow> wsConn
     \<Rightarrow> wsEnvelope res \<times> wsConn" where
  "read_envelope d errText errMsg expected c =
     (case ReadMessage c of
        (Inl e, c1) \<Rightarrow> (Inl e, c1)
      | (Inr (raw, opcode), c1) \<Rightarrow>
         (if opcode \<noteq> opText then (Inl (Err errText), c1)
          else (case d_dec d raw of
              None \<Rightarrow> (Inl (Err errMsg), c1)
            | Some env \<Rightarrow> if expected env then (Inr env, c1) else (Inl (Err errMsg), c1))))"

definition read_hello :: "deps \<Rightarrow> wsConn \<Rightarrow> wsEnvelope res \<times> wsConn" where
  "read_hello d c =
     read_envelope d ''expected a text hello frame'' ''expected a hello message with a pubkey''
       (\<lambda>env. env_Type env = ''hello'' \<and> env_PubKey env \<noteq> []) c"

definition read_response :: "deps \<Rightarrow> wsConn \<Rightarrow> wsEnvelope res \<times> wsConn" where
  "read_response d c =
     read_envelope d ''expected a text challenge_response frame'' ''expected a challenge_response message''
       (\<lambda>env. env_Type env = ''challenge_response'') c"

text \<open>The entitlement: the current broker key, then the token, refused with an \<open>auth_error\<close>.  The
  two clock readings are \<open>now1\<close> (in \<open>current\<close>) and \<open>now2\<close> (in \<open>verifyToken\<close>).\<close>

definition check_token :: "deps \<Rightarrow> string \<Rightarrow> brokerKeySource \<Rightarrow> string \<Rightarrow> bool \<Rightarrow> int \<Rightarrow> int
     \<Rightarrow> clientToken res" where
  "check_token d minTier ks token vpn now1 now2 =
     (case current ks now1 of
        Inl e \<Rightarrow> Inl e
      | Inr pub \<Rightarrow> verifyToken (ed_verify (d_crypto d)) (d_token d) pub token minTier vpn now2)"

text \<open>The server's half of the key agreement and the challenge it sends.\<close>

definition send_challenge :: "deps \<Rightarrow> string \<Rightarrow> wsConn \<Rightarrow> bytes res \<times> wsConn" where
  "send_challenge d pubkey c =
     (case unb64 pubkey of
        None \<Rightarrow> (Inl (Err ''illegal base64 data''), c)
      | Some raw \<Rightarrow>
         (case parseX25519Public raw of
            Inl e \<Rightarrow> (Inl e, c)
          | Inr clientPub \<Rightarrow>
             (case generateX25519Keypair c of
                (Inl e, c1) \<Rightarrow> (Inl e, c1)
              | (Inr ephPriv, c1) \<Rightarrow>
                 (case x_ecdh (d_crypto d) ephPriv clientPub of
                    None \<Rightarrow> (Inl (Err ''crypto/ecdh: bad X25519 remote ECDH input''), c1)
                  | Some shared \<Rightarrow>
                     (case rand_read 32 c1 of
                        (Inl e, c2) \<Rightarrow> (Inl e, c2)
                      | (Inr challenge, c2) \<Rightarrow>
                         (case seal (d_crypto d) (deriveAuthKey shared) challenge c2 of
                            (Inl e, c3) \<Rightarrow> (Inl e, c3)
                          | (Inr (nonce, ciphertext), c3) \<Rightarrow>
                             (case reply d ((envelope ''challenge'')
                                  \<lparr>env_ServerEphemeralPub := x_pub (d_crypto d) ephPriv,
                                   env_Nonce := nonce, env_Ciphertext := ciphertext\<rparr>) c3 of
                                (Inl e, c4) \<Rightarrow> (Inl e, c4)
                              | (Inr _, c4) \<Rightarrow> (Inr challenge, c4))))))))"

definition authenticate :: "deps \<Rightarrow> string \<Rightarrow> brokerKeySource \<Rightarrow> int \<Rightarrow> int \<Rightarrow> wsConn
     \<Rightarrow> (string \<times> clientToken) res \<times> wsConn" where
  "authenticate d minTier ks now1 now2 c =
     (case read_hello d c of
        (Inl e, c1) \<Rightarrow> (Inl e, c1)
      | (Inr hello, c1) \<Rightarrow>
         (case check_token d minTier ks (env_Token hello) False now1 now2 of
            Inl e \<Rightarrow> (Inl e, send_ignoring d (error_envelope ''auth_error''
                              (''access token rejected: '' @ error_text e)) c1)
          | Inr tok \<Rightarrow>
             (case send_challenge d (env_PubKey hello) c1 of
                (Inl e, c2) \<Rightarrow> (Inl e, c2)
              | (Inr challenge, c2) \<Rightarrow>
                 (case read_response d c2 of
                    (Inl e, c3) \<Rightarrow> (Inl e, c3)
                  | (Inr resp, c3) \<Rightarrow>
                     (if env_Response resp \<noteq> challenge then
                        (Inl (Err ''challenge response did not match''),
                         send_ignoring d (error_envelope ''auth_error'' ''challenge mismatch'') c3)
                      else
                        (case reply d ((envelope ''auth_ok'')\<lparr>env_OK := True\<rparr>) c3 of
                           (Inl e, c4) \<Rightarrow> (Inl e, c4)
                         | (Inr _, c4) \<Rightarrow> (Inr (env_PubKey hello, tok), c4)))))))"

subsection \<open>Control messages\<close>

text \<open>The answer to a message the handler refuses.\<close>

definition refuse :: "deps \<Rightarrow> string \<Rightarrow> wsConn \<Rightarrow> state \<Rightarrow> unit res \<times> wsConn \<times> state" where
  "refuse d msg c x = (case reply d (error_envelope ''error'' msg) c of (r, c1) \<Rightarrow> (r, c1, x))"

definition answer :: "deps \<Rightarrow> wsEnvelope \<Rightarrow> wsConn \<Rightarrow> state \<Rightarrow> unit res \<times> wsConn \<times> state" where
  "answer d env c x = (case reply d env c of (r, c1) \<Rightarrow> (r, c1, x))"

definition on_start_upload :: "deps \<Rightarrow> int \<Rightarrow> string \<Rightarrow> wsEnvelope \<Rightarrow> wsConn \<Rightarrow> state
     \<Rightarrow> unit res \<times> wsConn \<times> state" where
  "on_start_upload d now pubkey env c x =
     (if env_TransferID env = [] \<or> env_To env = [] \<or> env_TotalChunks env \<le> 0 then
        refuse d ''start_upload requires transfer_id, to, total_chunks'' c x
      else if \<not> validTransferID (env_TransferID env) then
        refuse d ''transfer_id must be 1-128 characters, letters/digits/hyphen/underscore only'' c x
      else
        (case createTransfer (d_meta d) (env_TransferID env) pubkey (env_To env) (env_TotalChunks env)
                (env_Shareable env) now (fst x) (snd x) of
           (Inl e, y) \<Rightarrow> (Inl e, c, y)
         | (Inr _, y) \<Rightarrow>
            answer d ((envelope ''upload_ready'')\<lparr>env_TransferID := env_TransferID env\<rparr>) c y))"

definition on_chunk :: "deps \<Rightarrow> int \<Rightarrow> string \<Rightarrow> wsEnvelope \<Rightarrow> wsConn \<Rightarrow> state
     \<Rightarrow> unit res \<times> wsConn \<times> state" where
  "on_chunk d now pubkey env c x =
     (if env_TransferID env = [] then refuse d ''chunk requires transfer_id'' c x
      else if (case getMeta (fst x) (env_TransferID env) of None \<Rightarrow> True | Some m \<Rightarrow> From m \<noteq> pubkey) then
        refuse d ''no such transfer for this sender'' c x
      else
        (case ReadMessage c of
           (Inl e, c1) \<Rightarrow> (Inl e, c1, x)
         | (Inr (raw, opcode), c1) \<Rightarrow>
            (if opcode \<noteq> opBinary then
               (Inl (Err ''expected a binary frame immediately after a chunk header''), c1, x)
             else
               (case writeChunk (d_meta d) (env_TransferID env) (env_Index env) raw now (fst x) (snd x) of
                  (Inl e, y) \<Rightarrow> refuse d (''chunk rejected: '' @ error_text e) c1 y
                | (Inr _, y) \<Rightarrow>
                   answer d ((envelope ''chunk_ack'')
                     \<lparr>env_TransferID := env_TransferID env, env_Index := env_Index env\<rparr>) c1 y))))"

definition on_status :: "deps \<Rightarrow> string \<Rightarrow> wsEnvelope \<Rightarrow> wsConn \<Rightarrow> state \<Rightarrow> unit res \<times> wsConn \<times> state" where
  "on_status d pubkey env c x =
     (if env_TransferID env = [] then refuse d ''status requires transfer_id'' c x
      else if (case getMeta (fst x) (env_TransferID env) of None \<Rightarrow> True
               | Some m \<Rightarrow> From m \<noteq> pubkey \<and> To m \<noteq> pubkey) then
        refuse d ''no such transfer for this identity'' c x
      else
        answer d ((envelope ''status_result'')
          \<lparr>env_TransferID := env_TransferID env,
           env_ReceivedIndices := receivedIndices (fst x) (env_TransferID env)\<rparr>) c x)"

definition on_list :: "deps \<Rightarrow> string \<Rightarrow> wsConn \<Rightarrow> state \<Rightarrow> unit res \<times> wsConn \<times> state" where
  "on_list d pubkey c x =
     answer d ((envelope ''list_result'')
       \<lparr>env_Transfers := listForRecipient (d_iter d) (fst x) pubkey\<rparr>) c x"

text \<open>The download loop: each stored chunk as a header and a binary frame, in order.\<close>

fun send_chunks :: "deps \<Rightarrow> string \<Rightarrow> int list \<Rightarrow> wsConn \<Rightarrow> state \<Rightarrow> unit res \<times> wsConn \<times> state" where
  "send_chunks d i [] c x = (Inr (), c, x)"
| "send_chunks d i (idx # idxs) c x =
     (case readChunk (fst x) i idx (snd x) of
        (Inl e, w1) \<Rightarrow> (Inl e, c, (fst x, w1))
      | (Inr data, w1) \<Rightarrow>
         (let header = (case d_enc d ((envelope ''chunk'')\<lparr>env_TransferID := i, env_Index := idx\<rparr>) of
                          None \<Rightarrow> [] | Some b \<Rightarrow> b)
          in case WriteMessage header c of
               (Inl e, c1) \<Rightarrow> (Inl e, c1, (fst x, w1))
             | (Inr _, c1) \<Rightarrow>
                (case WriteBinary data c1 of
                   (Inl e, c2) \<Rightarrow> (Inl e, c2, (fst x, w1))
                 | (Inr _, c2) \<Rightarrow> send_chunks d i idxs c2 (fst x, w1))))"

definition on_download :: "deps \<Rightarrow> string \<Rightarrow> wsEnvelope \<Rightarrow> wsConn \<Rightarrow> state \<Rightarrow> unit res \<times> wsConn \<times> state" where
  "on_download d pubkey env c x =
     (if (case getMeta (fst x) (env_TransferID env) of None \<Rightarrow> True | Some m \<Rightarrow> To m \<noteq> pubkey) then
        refuse d ''no such transfer for this recipient'' c x
      else
        (case send_chunks d (env_TransferID env) (receivedIndices (fst x) (env_TransferID env)) c x of
           (Inl e, c1, y) \<Rightarrow> (Inl e, c1, y)
         | (Inr _, c1, y) \<Rightarrow>
            answer d ((envelope ''download_done'')\<lparr>env_TransferID := env_TransferID env\<rparr>) c1 y))"

definition on_complete :: "deps \<Rightarrow> string \<Rightarrow> wsEnvelope \<Rightarrow> wsConn \<Rightarrow> state \<Rightarrow> unit res \<times> wsConn \<times> state" where
  "on_complete d pubkey env c x =
     (case getMeta (fst x) (env_TransferID env) of
        None \<Rightarrow> refuse d ''no such transfer for this recipient'' c x
      | Some m \<Rightarrow>
         (if To m \<noteq> pubkey then refuse d ''no such transfer for this recipient'' c x
          else if Shareable m then (Inr (), c, x)
          else (case deleteTransfer (env_TransferID env) (fst x) (snd x) of (r, y) \<Rightarrow> (r, c, y))))"

definition dispatch :: "deps \<Rightarrow> int \<Rightarrow> string \<Rightarrow> wsEnvelope \<Rightarrow> wsConn \<Rightarrow> state
     \<Rightarrow> unit res \<times> wsConn \<times> state" where
  "dispatch d now pubkey env c x =
     (if env_Type env = ''start_upload'' then on_start_upload d now pubkey env c x
      else if env_Type env = ''chunk'' then on_chunk d now pubkey env c x
      else if env_Type env = ''status'' then on_status d pubkey env c x
      else if env_Type env = ''list'' then on_list d pubkey c x
      else if env_Type env = ''download'' then on_download d pubkey env c x
      else if env_Type env = ''complete'' then on_complete d pubkey env c x
      else (Inr (), c, x))"

subsection \<open>The session loop\<close>

text \<open>One turn of \<open>handleWS\<close>'s loop: whether it goes on.\<close>

definition session_turn :: "deps \<Rightarrow> int \<Rightarrow> string \<Rightarrow> wsConn \<Rightarrow> state \<Rightarrow> bool \<times> wsConn \<times> state" where
  "session_turn d now pubkey c x =
     (case ReadMessage c of
        (Inl e, c1) \<Rightarrow> (False, c1, x)
      | (Inr (raw, opcode), c1) \<Rightarrow>
         (if opcode \<noteq> opText then (True, c1, x)
          else (case d_dec d raw of
              None \<Rightarrow> (True, c1, x)
            | Some env \<Rightarrow> (case dispatch d now pubkey env c1 x of (r, c2, y) \<Rightarrow> (is_ok r, c2, y)))))"

text \<open>\<open>expiryTimer\<close>: the notice, then the connection is closed.  What the reader has buffered by
  then (at most the first \<open>k\<close> bytes) it may still deliver.\<close>

definition session_expire :: "deps \<Rightarrow> nat \<Rightarrow> wsConn \<Rightarrow> wsConn" where
  "session_expire d k c =
     (let c1 = send_ignoring d (error_envelope ''session_expired''
                 (''access token expired '' @ em_dash @ '' renew your subscription and reconnect with the new token'')) c;
          c2 = snd (ws_Close c1)
      in c2\<lparr>c_in := take k (c_in c2), c_end := ErrNet\<rparr>)"

end
