(* ===== verification/WsAuth.thy ===== *)
theory WsAuth
  imports WsServer
begin

text \<open>
  What \<open>authenticate\<close> establishes and when it succeeds: an accepted connection has shown a token
  that is valid now for this service and has answered a fresh challenge that was sent sealed under
  a key only the holder of the identity's private key can derive; an honest client that does so is
  accepted.
\<close>

subsection \<open>Shared facts\<close>

text \<open>The handlers' hypotheses on the decoders: a decoded \<open>int\<close> is one.\<close>

definition deps_ok :: "deps \<Rightarrow> bool" where
  "deps_ok d \<longleftrightarrow> map_iteration (d_iter d) \<and> meta_codec_ok (d_meta d)
     \<and> (\<forall>raw env. d_dec d raw = Some env \<longrightarrow> int64_range (env_TotalChunks env) \<and> int64_range (env_Index env))
     \<and> (\<forall>raw req. d_start d raw = Some req \<longrightarrow> int64_range (ls_TotalChunks req))"

lemma reply_grows: "reply d env c = (r, c') \<Longrightarrow> conn_grows c c'"
  by (auto simp: reply_def WriteMessage_def split: option.splits dest: writeFrame_grows)

lemma read_envelope_grows: "read_envelope d a b p c = (r, c') \<Longrightarrow> conn_grows c c'"
  by (auto simp: read_envelope_def split: prod.splits sum.splits if_splits option.splits
      dest: ReadMessage_ok(1))

lemma read_envelope_Inr:
  "read_envelope d a b p c = (Inr env, c') \<Longrightarrow>
     p env \<and> (\<exists>raw. ReadMessage c = (Inr (raw, opText), c') \<and> d_dec d raw = Some env)"
  by (auto simp: read_envelope_def split: prod.splits sum.splits if_splits option.splits)

text \<open>A server's connection whose peer takes everything: what a handler writes is what is sent.\<close>

definition open_server :: "wsConn \<Rightarrow> bool" where
  "open_server c \<longleftrightarrow> \<not> maskOutgoing c \<and> c_quota c = None"

text \<open>A message as the server sends it, and any run of such messages.\<close>

definition text_frame :: "bytes \<Rightarrow> bytes" where
  "text_frame b = frame_bytes True opText None b"

definition binary_frame :: "bytes \<Rightarrow> bytes" where
  "binary_frame b = frame_bytes True opBinary None b"

lemma WriteMessage_open:
  "open_server c \<Longrightarrow> WriteMessage b c = (Inr (), c\<lparr>c_out := c_out c @ text_frame b\<rparr>)"
  by (simp add: open_server_def WriteMessage_def writeFrame_server text_frame_def)

lemma WriteBinary_open:
  "open_server c \<Longrightarrow> WriteBinary b c = (Inr (), c\<lparr>c_out := c_out c @ binary_frame b\<rparr>)"
  by (simp add: open_server_def WriteBinary_def writeFrame_server binary_frame_def)

lemma reply_open:
  "open_server c \<Longrightarrow> d_enc d env = Some b \<Longrightarrow> reply d env c = (Inr (), c\<lparr>c_out := c_out c @ text_frame b\<rparr>)"
  by (simp add: reply_def WriteMessage_open)

lemma open_server_update [simp]:
  "open_server (c\<lparr>c_in := i\<rparr>) = open_server c" "open_server (c\<lparr>c_out := b\<rparr>) = open_server c"
  "open_server (c\<lparr>c_rand := r\<rparr>) = open_server c"
  by (simp_all add: open_server_def)

subsection \<open>Soundness\<close>

lemma check_token_iff:
  "check_token d minTier ks token vpn now1 now2 = Inr tok \<longleftrightarrow>
     (\<exists>pub. current ks now1 = Inr pub
        \<and> token_valid (ed_verify (d_crypto d)) (d_token d) pub token tok
        \<and> tierRank minTier \<le> tierRank (Tier tok) \<and> plan_admits vpn tok \<and> now2 \<le> ExpiresAt tok)"
  by (auto simp: check_token_def verifyToken_iff split: sum.splits)

text \<open>The challenge is fresh randomness, sent sealed under the shared key, and nothing else of it is
  sent.\<close>

lemma send_challenge_Inr:
  assumes "send_challenge d pubkey c = (Inr challenge, c')"
  obtains clientPub ephPriv nonce shared rest b where
    "unb64 pubkey = Some clientPub" "length clientPub = 32"
    "c_rand c = ephPriv @ challenge @ nonce @ rest" "length ephPriv = 32" "length challenge = 32"
    "length nonce = nonceSize" "x_ecdh (d_crypto d) ephPriv clientPub = Some shared"
    "d_enc d ((envelope ''challenge'')\<lparr>env_ServerEphemeralPub := x_pub (d_crypto d) ephPriv, env_Nonce := nonce,
        env_Ciphertext := gcm_seal (d_crypto d) (deriveAuthKey shared) nonce challenge\<rparr>) = Some b"
    "WriteMessage b (c\<lparr>c_rand := rest\<rparr>) = (Inr (), c')"
proof -
  have r: "\<exists>x. c_rand c = x @ c_rand c1 \<and> length x = n \<and> v = Inr x \<and> c1 = c\<lparr>c_rand := c_rand c1\<rparr>"
    if "rand_read n c = (v, c1)" "\<exists>x. v = Inr x" for n c v c1
    using that by (auto simp: rand_read_def split: if_splits)
  obtain raw where raw: "unb64 pubkey = Some raw" "length raw = 32"
    using assms by (auto simp: send_challenge_def parseX25519Public_def split: option.splits if_splits)
  obtain ephPriv c1 where 1: "rand_read 32 c = (Inr ephPriv, c1)"
    using assms raw by (auto simp: send_challenge_def parseX25519Public_def generateX25519Keypair_def
        split: prod.splits sum.splits)
  obtain shared where sh: "x_ecdh (d_crypto d) ephPriv raw = Some shared"
    using assms raw 1 by (auto simp: send_challenge_def parseX25519Public_def generateX25519Keypair_def
        split: option.splits)
  obtain ch c2 where 2: "rand_read 32 c1 = (Inr ch, c2)"
    using assms raw 1 sh by (auto simp: send_challenge_def parseX25519Public_def generateX25519Keypair_def
        split: prod.splits sum.splits)
  obtain nonce c3 where 3: "rand_read nonceSize c2 = (Inr nonce, c3)"
    using assms raw 1 sh 2 by (auto simp: send_challenge_def parseX25519Public_def generateX25519Keypair_def
        seal_def split: prod.splits sum.splits)
  let ?env = "(envelope ''challenge'')\<lparr>env_ServerEphemeralPub := x_pub (d_crypto d) ephPriv, env_Nonce := nonce,
        env_Ciphertext := gcm_seal (d_crypto d) (deriveAuthKey shared) nonce ch\<rparr>"
  have 4: "reply d ?env c3 = (Inr (), c')" and ch: "ch = challenge"
    using assms raw 1 sh 2 3 by (auto simp: send_challenge_def parseX25519Public_def generateX25519Keypair_def
        seal_def split: prod.splits sum.splits)
  obtain b where b: "d_enc d ?env = Some b" "WriteMessage b c3 = (Inr (), c')"
    using 4 by (auto simp: reply_def split: option.splits)
  note r1 = r [OF 1] and r2 = r [OF 2] and r3 = r [OF 3]
  have c3: "c3 = c\<lparr>c_rand := c_rand c3\<rparr>"
    using r1 r2 r3 by (auto intro!: wsConn.equality dest!: arg_cong [of c1 _ wsConn.more])
  show ?thesis
  proof (rule that [of raw ephPriv nonce "c_rand c3" shared b])
    show "c_rand c = ephPriv @ challenge @ nonce @ c_rand c3" using r1 r2 r3 ch by auto
    show "WriteMessage b (c\<lparr>c_rand := c_rand c3\<rparr>) = (Inr (), c')" using b(2) c3 by simp
  qed (use raw sh b ch r1 r2 r3 in auto)
qed

lemma authenticate_Inr:
  assumes "authenticate d minTier ks now1 now2 c = (Inr (pubkey, tok), c')"
  obtains hello c1 challenge c2 resp c3 where
    "read_hello d c = (Inr hello, c1)" "env_PubKey hello = pubkey"
    "check_token d minTier ks (env_Token hello) False now1 now2 = Inr tok"
    "send_challenge d pubkey c1 = (Inr challenge, c2)"
    "read_response d c2 = (Inr resp, c3)" "env_Response resp = challenge"
    "reply d ((envelope ''auth_ok'')\<lparr>env_OK := True\<rparr>) c3 = (Inr (), c')"
proof -
  obtain hello c1 where 1: "read_hello d c = (Inr hello, c1)"
    using assms by (auto simp: authenticate_def split: prod.splits sum.splits)
  obtain tk where 2: "check_token d minTier ks (env_Token hello) False now1 now2 = Inr tk"
    using assms 1 by (auto simp: authenticate_def split: sum.splits)
  obtain challenge c2 where 3: "send_challenge d (env_PubKey hello) c1 = (Inr challenge, c2)"
    using assms 1 2 by (auto simp: authenticate_def split: prod.splits sum.splits)
  obtain resp c3 where 4: "read_response d c2 = (Inr resp, c3)"
    using assms 1 2 3 by (auto simp: authenticate_def split: prod.splits sum.splits)
  have "env_Response resp = challenge \<and> reply d ((envelope ''auth_ok'')\<lparr>env_OK := True\<rparr>) c3 = (Inr (), c')
      \<and> env_PubKey hello = pubkey \<and> tk = tok"
    using assms 1 2 3 4 by (auto simp: authenticate_def split: prod.splits sum.splits if_splits)
  then show ?thesis using that 1 2 3 4 by blast
qed

lemma authenticate_pubkey: "authenticate d minTier ks now1 now2 c = (Inr (pubkey, tok), c') \<Longrightarrow> pubkey \<noteq> []"
  by (erule authenticate_Inr) (auto simp: read_hello_def dest: read_envelope_Inr)

lemma authenticate_token:
  assumes "authenticate d minTier ks now1 now2 c = (Inr (pubkey, tok), c')"
  shows "\<exists>pub token. current ks now1 = Inr pub
    \<and> token_valid (ed_verify (d_crypto d)) (d_token d) pub token tok
    \<and> tierRank minTier \<le> tierRank (Tier tok) \<and> Plan tok \<in> {[], ''full''} \<and> now2 \<le> ExpiresAt tok"
  using assms
  by (rule authenticate_Inr) (auto simp: check_token_iff plan_admits_def)

text \<open>Possession: the client's second message carries the challenge drawn for this connection.\<close>

lemma authenticate_possession:
  assumes "authenticate d minTier ks now1 now2 c = (Inr (pubkey, tok), c')"
  shows "\<exists>hello c1 clientPub ephPriv challenge nonce shared rest b c2 raw resp c3.
    read_hello d c = (Inr hello, c1) \<and> env_PubKey hello = pubkey \<and> unb64 pubkey = Some clientPub
    \<and> c_rand c1 = ephPriv @ challenge @ nonce @ rest \<and> length ephPriv = 32 \<and> length challenge = 32
    \<and> length nonce = nonceSize
    \<and> x_ecdh (d_crypto d) ephPriv clientPub = Some shared
    \<and> d_enc d ((envelope ''challenge'')\<lparr>env_ServerEphemeralPub := x_pub (d_crypto d) ephPriv, env_Nonce := nonce,
        env_Ciphertext := gcm_seal (d_crypto d) (deriveAuthKey shared) nonce challenge\<rparr>) = Some b
    \<and> WriteMessage b (c1\<lparr>c_rand := rest\<rparr>) = (Inr (), c2)
    \<and> ReadMessage c2 = (Inr (raw, opText), c3) \<and> d_dec d raw = Some resp
    \<and> env_Type resp = ''challenge_response'' \<and> env_Response resp = challenge"
proof -
  obtain hello c1 challenge c2 resp c3 where a:
    "read_hello d c = (Inr hello, c1)" "env_PubKey hello = pubkey"
    "send_challenge d pubkey c1 = (Inr challenge, c2)"
    "read_response d c2 = (Inr resp, c3)" "env_Response resp = challenge"
    using authenticate_Inr [OF assms] by metis
  note s = send_challenge_Inr [OF a(3)]
  note p = read_envelope_Inr [OF a(4) [unfolded read_response_def]]
  show ?thesis
    by (rule s) (use a p in blast)
qed

subsection \<open>An honest client is accepted\<close>

text \<open>How a client that holds the private key answers a challenge.\<close>

definition client_answer :: "crypto_ops \<Rightarrow> bytes \<Rightarrow> wsEnvelope \<Rightarrow> bytes option" where
  "client_answer cr priv env =
     (case x_ecdh cr priv (env_ServerEphemeralPub env) of
        None \<Rightarrow> None
      | Some shared \<Rightarrow>
         (case open_aead cr (deriveAuthKey shared) (env_Nonce env) (env_Ciphertext env) of
            Inl e \<Rightarrow> None | Inr p \<Rightarrow> Some p))"

definition challenge_envelope :: "crypto_ops \<Rightarrow> bytes \<Rightarrow> bytes \<Rightarrow> bytes \<Rightarrow> bytes \<Rightarrow> wsEnvelope" where
  "challenge_envelope cr ephPriv shared nonce challenge =
     (envelope ''challenge'')\<lparr>env_ServerEphemeralPub := x_pub cr ephPriv, env_Nonce := nonce,
        env_Ciphertext := gcm_seal cr (deriveAuthKey shared) nonce challenge\<rparr>"

lemma client_answer_challenge:
  assumes "crypto_laws cr" "x_ecdh cr ephPriv (x_pub cr priv) = Some shared" "length nonce = nonceSize"
  shows "client_answer cr priv (challenge_envelope cr ephPriv shared nonce challenge) = Some challenge"
proof -
  have "x_ecdh cr priv (x_pub cr ephPriv) = Some shared"
    using assms(1,2) unfolding crypto_laws_def by metis
  then show ?thesis using assms(1,3)
    by (simp add: client_answer_def challenge_envelope_def open_aead_def crypto_laws_def)
qed

text \<open>A message on the input, in whatever frames it comes.\<close>

definition carries :: "wframe list \<Rightarrow> wsOpcode \<Rightarrow> bytes \<Rightarrow> bool" where
  "carries fs opcode b \<longleftrightarrow> message_frames opcode False fs \<and> list_all sound_frame fs
     \<and> data_of fs = b \<and> length b \<le> maxMessageSize"

lemma ReadMessage_carries:
  assumes "carries fs opcode b" "opcode \<in> {opText, opBinary}" "open_server c" "c_in c = wire fs @ rest"
  shows "ReadMessage c = (Inr (b, opcode), c\<lparr>c_in := rest, c_out := c_out c @ pongs fs\<rparr>)"
  using read_loop_message [of opcode None fs c rest "[]" maxMessageSize] assms
  by (simp add: ReadMessage_def carries_def open_server_def)

lemma read_envelope_carries:
  assumes "carries fs opText b" "open_server c" "c_in c = wire fs @ rest" "d_dec d b = Some env" "p env"
  shows "read_envelope d t1 t2 p c = (Inr env, c\<lparr>c_in := rest, c_out := c_out c @ pongs fs\<rparr>)"
  using ReadMessage_carries [OF assms(1) _ assms(2,3)] assms(4,5) by (simp add: read_envelope_def)

lemma send_challenge_ok:
  assumes "unb64 pubkey = Some clientPub" "length clientPub = 32" "open_server c"
    "c_rand c = ephPriv @ challenge @ nonce @ r" "length ephPriv = 32" "length challenge = 32"
    "length nonce = nonceSize" "x_ecdh (d_crypto d) ephPriv clientPub = Some shared"
    "d_enc d (challenge_envelope (d_crypto d) ephPriv shared nonce challenge) = Some b"
  shows "send_challenge d pubkey c
    = (Inr challenge, c\<lparr>c_rand := r, c_out := c_out c @ text_frame b\<rparr>)"
  using assms
  by (simp add: send_challenge_def parseX25519Public_def generateX25519Keypair_def rand_read_def
      seal_def reply_open challenge_envelope_def)

lemma authenticate_complete:
  assumes laws: "crypto_laws (d_crypto d)" and srv: "open_server c"
    and inp: "c_in c = wire fs1 @ wire fs2 @ rest"
    and hello: "carries fs1 opText b1" "d_dec d b1 = Some hello" "env_Type hello = ''hello''"
      "env_PubKey hello = b64 (x_pub (d_crypto d) priv)"
    and tok: "check_token d minTier ks (env_Token hello) False now1 now2 = Inr tok"
    and rnd: "c_rand c = ephPriv @ challenge @ nonce @ r" "length ephPriv = 32" "length challenge = 32"
      "length nonce = nonceSize"
    and dh: "x_ecdh (d_crypto d) ephPriv (x_pub (d_crypto d) priv) = Some shared"
    and enc: "d_enc d (challenge_envelope (d_crypto d) ephPriv shared nonce challenge) = Some b2"
      "d_enc d ((envelope ''auth_ok'')\<lparr>env_OK := True\<rparr>) = Some b3"
    and resp: "carries fs2 opText b4" "d_dec d b4 = Some resp" "env_Type resp = ''challenge_response''"
      "client_answer (d_crypto d) priv (challenge_envelope (d_crypto d) ephPriv shared nonce challenge)
        = Some (env_Response resp)"
  shows "authenticate d minTier ks now1 now2 c
    = (Inr (b64 (x_pub (d_crypto d) priv), tok),
       c\<lparr>c_in := rest, c_rand := r,
         c_out := c_out c @ pongs fs1 @ text_frame b2 @ pongs fs2 @ text_frame b3\<rparr>)"
proof -
  let ?pub = "x_pub (d_crypto d) priv"
  have len: "length ?pub = 32" using laws by (simp add: crypto_laws_def)
  have "b64 ?pub \<noteq> []"
  proof
    assume "b64 ?pub = []"
    then have "unb64 (b64 ?pub) = unb64 (b64 [])" by (simp add: b64_def std_encode_def)
    then show False using len by auto
  qed
  then have 1: "read_hello d c = (Inr hello, c\<lparr>c_in := wire fs2 @ rest, c_out := c_out c @ pongs fs1\<rparr>)"
    unfolding read_hello_def using hello srv inp by (intro read_envelope_carries) simp_all
  define c1 where "c1 = c\<lparr>c_in := wire fs2 @ rest, c_out := c_out c @ pongs fs1\<rparr>"
  have 2: "send_challenge d (b64 ?pub) c1 = (Inr challenge, c1\<lparr>c_rand := r, c_out := c_out c1 @ text_frame b2\<rparr>)"
    using srv rnd dh enc len by (intro send_challenge_ok) (simp_all add: c1_def)
  define c2 where "c2 = c1\<lparr>c_rand := r, c_out := c_out c1 @ text_frame b2\<rparr>"
  have 3: "read_response d c2 = (Inr resp, c2\<lparr>c_in := rest, c_out := c_out c2 @ pongs fs2\<rparr>)"
    unfolding read_response_def using resp srv
    by (intro read_envelope_carries) (simp_all add: c2_def c1_def)
  have "env_Response resp = challenge"
    using client_answer_challenge [OF laws dh rnd(4)] resp(4) by simp
  moreover have "reply d ((envelope ''auth_ok'')\<lparr>env_OK := True\<rparr>) (c2\<lparr>c_in := rest, c_out := c_out c2 @ pongs fs2\<rparr>)
      = (Inr (), c2\<lparr>c_in := rest, c_out := c_out c2 @ pongs fs2 @ text_frame b3\<rparr>)"
    using srv by (subst reply_open [OF _ enc(2)]) (simp_all add: c2_def c1_def)
  ultimately show ?thesis
    using 1 2 3 tok hello(4)
    by (simp add: authenticate_def c1_def [symmetric] c2_def [symmetric])
       (simp add: c1_def c2_def)
qed

end
