(* ===== verification/WsDispatch.thy ===== *)
theory WsDispatch
  imports WsAuth
begin

text \<open>
  What the control messages do: each changes the store by at most one of its operations, under the
  guard that operation needs, and only on a transfer the caller sent or is to receive; what each
  replies; and that a download sends exactly the stored chunks.
\<close>

subsection \<open>Effects on the store\<close>

text \<open>Nothing changed but the pending faults (a read may have met one).\<close>

definition unchanged :: "state \<Rightarrow> state \<Rightarrow> bool" where
  "unchanged x y \<longleftrightarrow> fst y = fst x \<and> w_fs (snd y) = w_fs (snd x)"

lemma unchanged_refl [simp]: "unchanged x x"
  by (simp add: unchanged_def)

lemma unchanged_trans: "unchanged x y \<Longrightarrow> unchanged y z \<Longrightarrow> unchanged x z"
  by (simp add: unchanged_def)

lemma unchanged_inv: "unchanged x y \<Longrightarrow> state_inv x \<Longrightarrow> state_inv y"
  by (simp add: unchanged_def state_inv_def disk_inv_def)

lemma unchanged_chunk: "unchanged x y \<Longrightarrow> chunk_of y i k = chunk_of x i k"
  by (cases x; cases y) (simp add: unchanged_def chunk_of_def chunk_data_def file_at_def)

lemma unchanged_abs: "unchanged x y \<Longrightarrow> abs_state y = abs_state x"
proof -
  assume u: "unchanged x y"
  have "chunk_of y i = chunk_of x i" for i by (rule ext) (rule unchanged_chunk [OF u])
  then show ?thesis using u by (simp add: abs_state_def unchanged_def)
qed

lemma unchanged_durable: "unchanged x y \<Longrightarrow> durable c x \<Longrightarrow> durable c y"
proof -
  assume u: "unchanged x y" and d: "durable c x"
  obtain s w w' where x: "x = (s, w)" "y = (s, w')" and fs: "w_fs w' = w_fs w"
    using u by (cases x; cases y) (auto simp: unchanged_def)
  have "meta_on_disk c s w' = meta_on_disk c s w" "chunk_data s w' = chunk_data s w"
    using fs by (auto simp: meta_on_disk_def chunk_data_def file_at_def fun_eq_iff)
  note same = this fs
  show ?thesis using d unfolding durable_def durable_at_def x prod.case same .
qed

text \<open>The operations an identity may have the store carry out.\<close>

fun may :: "string \<Rightarrow> store_op \<Rightarrow> store \<Rightarrow> bool" where
  "may u (OpCreate i v r n share now) s = (v = u \<and> validTransferID i)"
| "may u (OpWriteChunk i index data now) s = (\<exists>m. getMeta s i = Some m \<and> From m = u)"
| "may u (OpDelete i) s = (\<exists>m. getMeta s i = Some m \<and> To m = u \<and> \<not> Shareable m)"
| "may u _ s = False"

lemma readChunk_unchanged: "readChunk s i index w = (r, w') \<Longrightarrow> w_fs w' = w_fs w"
  unfolding readChunk_def by (metis ReadFile_fs snd_conv)

lemma send_chunks_unchanged: "send_chunks d i idxs c x = (r, c', y) \<Longrightarrow> unchanged x y"
proof (induction idxs arbitrary: c x)
  case (Cons idx idxs)
  obtain v w1 where rd: "readChunk (fst x) i idx (snd x) = (v, w1)" by fastforce
  have u: "unchanged x (fst x, w1)" using readChunk_unchanged [OF rd] by (simp add: unchanged_def)
  show ?case
  proof (cases v)
    case (Inl e)
    then show ?thesis using Cons.prems rd u by simp
  next
    case (Inr b)
    let ?h = "case d_enc d ((envelope ''chunk'')\<lparr>env_TransferID := i, env_Index := idx\<rparr>) of None \<Rightarrow> [] | Some b \<Rightarrow> b"
    obtain r1 c1 where w: "WriteMessage ?h c = (r1, c1)" by fastforce
    obtain r2 c2 where w2: "WriteBinary b c1 = (r2, c2)" by fastforce
    show ?thesis using Cons.prems rd Inr w w2 u Cons.IH [of c2 "(fst x, w1)"]
      by (auto simp: Let_def split: sum.splits intro: unchanged_trans)
  qed
qed simp

lemma dispatch_effect:
  assumes "dispatch d now u env c x = (r, c', y)" "u \<noteq> []" "int64_range (env_TotalChunks env)"
  shows "unchanged x y \<or> (\<exists>op. may u op (fst x) \<and> store_guard op x \<and> y = store_step (d_meta d) (d_iter d) op x
    \<and> op_targets (d_iter d) op (fst x) = {env_TransferID env} \<and> (\<forall>now. op \<noteq> OpSweep now))"
proof -
  obtain s w where x: "x = (s, w)" by fastforce
  let ?i = "env_TransferID env"
  consider "env_Type env = ''start_upload''" | "env_Type env = ''chunk''" | "env_Type env = ''status''"
    | "env_Type env = ''list''" | "env_Type env = ''download''" | "env_Type env = ''complete''"
    | "env_Type env \<notin> {''start_upload'', ''chunk'', ''status'', ''list'', ''download'', ''complete''}"
    by blast
  then show ?thesis
  proof cases
    case 1
    show ?thesis
    proof (cases "?i = [] \<or> env_To env = [] \<or> env_TotalChunks env \<le> 0 \<or> \<not> validTransferID ?i")
      case True
      then show ?thesis using assms(1) 1
        by (auto simp: dispatch_def on_start_upload_def refuse_def split: prod.splits if_splits)
    next
      case False
      let ?op = "OpCreate ?i u (env_To env) (env_TotalChunks env) (env_Shareable env) now"
      have "y = store_step (d_meta d) (d_iter d) ?op x"
        using assms(1) 1 False
        by (auto simp: dispatch_def on_start_upload_def answer_def x split: prod.splits sum.splits)
      then show ?thesis using False assms(2,3)
        by (intro disjI2 exI [of _ ?op]) (simp add: x)
    qed
  next
    case 2
    let ?op = "\<lambda>raw. OpWriteChunk ?i (env_Index env) raw now"
    have "unchanged x y \<or> (\<exists>raw. y = store_step (d_meta d) (d_iter d) (?op raw) x
        \<and> (\<exists>m. getMeta s ?i = Some m \<and> From m = u))"
      using assms(1) 2
      by (auto simp: dispatch_def on_chunk_def refuse_def answer_def x
          split: prod.splits sum.splits if_splits option.splits) (metis snd_conv)+
    then show ?thesis
    proof
      assume "\<exists>raw. y = store_step (d_meta d) (d_iter d) (?op raw) x \<and> (\<exists>m. getMeta s ?i = Some m \<and> From m = u)"
      then obtain raw m where "y = store_step (d_meta d) (d_iter d) (?op raw) x" "getMeta s ?i = Some m" "From m = u"
        by blast
      then show ?thesis by (intro disjI2 exI [of _ "?op raw"]) (simp add: x)
    qed simp
  next
    case 3
    then show ?thesis using assms(1)
      by (auto simp: dispatch_def on_status_def refuse_def answer_def split: prod.splits if_splits)
  next
    case 4
    then show ?thesis using assms(1) by (auto simp: dispatch_def on_list_def answer_def split: prod.splits)
  next
    case 5
    then show ?thesis using assms(1)
      by (auto simp: dispatch_def on_download_def refuse_def answer_def
          split: prod.splits if_splits sum.splits dest: send_chunks_unchanged)
  next
    case 6
    show ?thesis
    proof (cases "\<exists>m. getMeta s ?i = Some m \<and> To m = u \<and> \<not> Shareable m")
      case True
      then have "y = store_step (d_meta d) (d_iter d) (OpDelete ?i) x"
        using assms(1) 6 by (auto simp: dispatch_def on_complete_def x split: prod.splits)
      then show ?thesis using True by (intro disjI2 exI [of _ "OpDelete ?i"]) (auto simp: x)
    next
      case False
      then show ?thesis using assms(1) 6
        by (auto simp: dispatch_def on_complete_def refuse_def x split: prod.splits option.splits if_splits)
    qed
  next
    case 7
    then show ?thesis using assms(1) by (simp add: dispatch_def)
  qed
qed

lemma dispatch_inv:
  assumes "deps_ok d" "state_inv x" "dispatch d now u env c x = (r, c', y)" "u \<noteq> []"
    "int64_range (env_TotalChunks env)"
  shows "state_inv y"
  using dispatch_effect [OF assms(3-5)]
proof
  assume "unchanged x y"
  then show ?thesis using assms(2) by (rule unchanged_inv)
next
  assume "\<exists>op. may u op (fst x) \<and> store_guard op x \<and> y = store_step (d_meta d) (d_iter d) op x
    \<and> op_targets (d_iter d) op (fst x) = {env_TransferID env} \<and> (\<forall>now. op \<noteq> OpSweep now)"
  then show ?thesis using assms(1,2) by (metis deps_ok_def store_step_inv)
qed

text \<open>A transfer the caller neither sent nor is to receive is left alone, in memory and on disk.\<close>

lemma dispatch_isolation:
  assumes "deps_ok d" "state_inv (s, w)" "dispatch d now u env c (s, w) = (r, c', (s', w'))" "u \<noteq> []"
    "int64_range (env_TotalChunks env)" "getMeta s j = Some m" "From m \<noteq> u" "To m \<noteq> u"
  shows "same_transfer j s s' \<and> (\<forall>q. below (child (store_root s) j) q \<longrightarrow> mget (w_fs w') q = mget (w_fs w) q)"
  using dispatch_effect [OF assms(3-5)]
proof
  assume "unchanged (s, w) (s', w')"
  then show ?thesis by (simp add: unchanged_def same_transfer_def)
next
  assume "\<exists>op. may u op (fst (s, w)) \<and> store_guard op (s, w) \<and> (s', w') = store_step (d_meta d) (d_iter d) op (s, w)
    \<and> op_targets (d_iter d) op (fst (s, w)) = {env_TransferID env} \<and> (\<forall>now. op \<noteq> OpSweep now)"
  then obtain op where op: "may u op s" "store_guard op (s, w)" "store_step (d_meta d) (d_iter d) op (s, w) = (s', w')"
    "op_targets (d_iter d) op s = {env_TransferID env}" by auto
  show ?thesis
  proof (cases "j = env_TransferID env")
    case False
    then show ?thesis using store_step_isolation [OF assms(2) op(2) _ _ op(3), of j] op(4) assms(1)
      by (auto simp: deps_ok_def)
  next
    case True
    then have "s' = s \<and> w' = w"
      using op assms(6-8) by (cases op) (auto simp: getMeta_def createTransfer_def)
    then show ?thesis by (simp add: same_transfer_def)
  qed
qed

end
