(* ===== verification/WsSession.thy ===== *)
theory WsSession
  imports WsDispatch
begin

text \<open>
  Sessions over several messages: the upload of a transfer chunk by chunk and its download by the
  recipient, on a disk that works and connections that take what is sent, end to end; and the turns
  of the session loop on any input.
\<close>

subsection \<open>Download\<close>

text \<open>What a download sends for one chunk.\<close>

definition chunk_header :: "deps \<Rightarrow> string \<Rightarrow> int \<Rightarrow> bytes" where
  "chunk_header d i k =
     (case d_enc d ((envelope ''chunk'')\<lparr>env_TransferID := i, env_Index := k\<rparr>) of None \<Rightarrow> [] | Some b \<Rightarrow> b)"

definition chunk_frames :: "deps \<Rightarrow> string \<Rightarrow> int \<Rightarrow> bytes \<Rightarrow> bytes" where
  "chunk_frames d i k data = text_frame (chunk_header d i k) @ binary_frame data"

lemma send_chunks_ok:
  assumes "durable cd x" "w_faults (snd x) = []" "getMeta (fst x) i = Some m"
  shows "open_server c \<Longrightarrow> set idxs \<subseteq> received_set (fst x) i \<Longrightarrow>
    send_chunks d i idxs c x
      = (Inr (), c\<lparr>c_out := c_out c @ concat (map (\<lambda>k. chunk_frames d i k (the (chunk_of x i k))) idxs)\<rparr>, x)"
proof (induction idxs arbitrary: c)
  case (Cons k idxs)
  obtain s w where x: "x = (s, w)" by fastforce
  obtain b where b: "readChunk s i k w = (Inr b, w)" "chunk_of (s, w) i k = Some b"
    using readChunk_ok [of cd s w i m k] assms Cons.prems(2) by (auto simp: x getMeta_def)
  let ?c1 = "c\<lparr>c_out := c_out c @ text_frame (chunk_header d i k)\<rparr>"
  let ?c2 = "?c1\<lparr>c_out := c_out ?c1 @ binary_frame b\<rparr>"
  have "send_chunks d i (k # idxs) c x = send_chunks d i idxs ?c2 x"
    using b WriteMessage_open [OF Cons.prems(1)] WriteBinary_open [of ?c1 b] Cons.prems(1)
    by (simp add: x chunk_header_def [symmetric] Let_def)
  also have "\<dots> = (Inr (), ?c2\<lparr>c_out := c_out ?c2
      @ concat (map (\<lambda>k. chunk_frames d i k (the (chunk_of x i k))) idxs)\<rparr>, x)"
    using Cons.prems by (intro Cons.IH) simp_all
  finally show ?case using b by (simp add: chunk_frames_def x)
qed simp

definition download_done :: "string \<Rightarrow> wsEnvelope" where
  "download_done i = (envelope ''download_done'')\<lparr>env_TransferID := i\<rparr>"

lemma set_receivedIndices [simp]: "set (receivedIndices s i) = received_set s i"
  by (simp add: receivedIndices_def received_set_def split: option.split)

lemma download_sends_chunks:
  assumes "durable cd x" "w_faults (snd x) = []" "getMeta (fst x) i = Some m" "To m = u"
    "open_server c" "env_Type env = ''download''" "env_TransferID env = i"
    "d_enc d (download_done i) = Some fin"
  shows "dispatch d now u env c x
    = (Inr (), c\<lparr>c_out := c_out c
         @ concat (map (\<lambda>k. chunk_frames d i k (the (chunk_of x i k))) (receivedIndices (fst x) i))
         @ text_frame fin\<rparr>, x)"
proof -
  let ?c1 = "c\<lparr>c_out := c_out c
      @ concat (map (\<lambda>k. chunk_frames d i k (the (chunk_of x i k))) (receivedIndices (fst x) i))\<rparr>"
  have "reply d (download_done i) ?c1 = (Inr (), ?c1\<lparr>c_out := c_out ?c1 @ text_frame fin\<rparr>)"
    using assms(5,8) by (intro reply_open) simp_all
  then show ?thesis
    using send_chunks_ok [OF assms(1-3,5), of "receivedIndices (fst x) i" d] assms(3-7)
    by (simp add: dispatch_def on_download_def answer_def download_done_def)
qed

subsection \<open>Turns of a session\<close>

text \<open>Consecutive turns, each with the time it runs at.\<close>

fun session_run :: "deps \<Rightarrow> string \<Rightarrow> int list \<Rightarrow> wsConn \<Rightarrow> state \<Rightarrow> bool \<times> wsConn \<times> state" where
  "session_run d u [] c x = (True, c, x)"
| "session_run d u (now # nows) c x =
     (case session_turn d now u c x of
        (False, c1, y) \<Rightarrow> (False, c1, y)
      | (True, c1, y) \<Rightarrow> session_run d u nows c1 y)"

lemma session_turn_effect:
  assumes "session_turn d now u c x = (b, c', y)" "deps_ok d" "u \<noteq> []"
  shows "unchanged x y \<or> (\<exists>op i. may u op (fst x) \<and> store_guard op x \<and> y = store_step (d_meta d) (d_iter d) op x
    \<and> op_targets (d_iter d) op (fst x) = {i} \<and> (\<forall>now. op \<noteq> OpSweep now))"
proof -
  obtain r c1 where rm: "ReadMessage c = (r, c1)" by fastforce
  show ?thesis
  proof (cases "\<exists>raw env. r = Inr (raw, opText) \<and> d_dec d raw = Some env")
    case False
    then show ?thesis using assms(1) rm
      by (auto simp: session_turn_def split: sum.splits prod.splits if_splits option.splits)
  next
    case True
    then obtain raw env where e: "r = Inr (raw, opText)" "d_dec d raw = Some env" by blast
    obtain v c2 z where dsp: "dispatch d now u env c1 x = (v, c2, z)" by (metis prod_cases3)
    have "z = y" using assms(1) rm e dsp by (simp add: session_turn_def)
    moreover have "int64_range (env_TotalChunks env)" using assms(2) e(2) by (auto simp: deps_ok_def)
    ultimately show ?thesis using dispatch_effect [OF dsp assms(3)] by blast
  qed
qed

lemma session_turn_inv:
  assumes "session_turn d now u c x = (b, c', y)" "deps_ok d" "u \<noteq> []" "state_inv x"
  shows "state_inv y"
  using session_turn_effect [OF assms(1-3)]
proof
  assume "unchanged x y"
  then show ?thesis using assms(4) by (rule unchanged_inv)
next
  assume "\<exists>op i. may u op (fst x) \<and> store_guard op x \<and> y = store_step (d_meta d) (d_iter d) op x
    \<and> op_targets (d_iter d) op (fst x) = {i} \<and> (\<forall>now. op \<noteq> OpSweep now)"
  then show ?thesis using assms(2,4) by (metis deps_ok_def store_step_inv)
qed

text \<open>A session ends: each turn that goes on has taken input off the connection.\<close>

lemma dispatch_input: "dispatch d now u env c x = (r, c', y) \<Longrightarrow> suffix (c_in c') (c_in c)"
proof -
  assume a: "dispatch d now u env c x = (r, c', y)"
  have rg: "suffix (c_in c') (c_in c)" if "reply d e c = (r, c')" for e c r c'
    using reply_grows [OF that] by (simp add: conn_grows_def)
  have wg: "suffix (c_in c') (c_in c)" if "WriteMessage b c = (r, c') \<or> WriteBinary b c = (r, c')" for b c r c'
    using that by (auto simp: WriteMessage_def WriteBinary_def dest: writeFrame_same)
  have mg: "suffix (c_in c') (c_in c)" if "ReadMessage c = (r, c')" for c r c'
    using ReadMessage_ok(1) [OF that] by (simp add: conn_grows_def)
  have sg: "suffix (c_in c') (c_in c)" if "send_chunks d i idxs c x = (r, c', y)" for i idxs c x r c' y
    using that
  proof (induction idxs arbitrary: c x)
    case (Cons k idxs)
    obtain v w1 where rd: "readChunk (fst x) i k (snd x) = (v, w1)" by fastforce
    show ?case
    proof (cases v)
      case (Inl e)
      then show ?thesis using Cons.prems rd by simp
    next
      case (Inr b)
      let ?h = "case d_enc d ((envelope ''chunk'')\<lparr>env_TransferID := i, env_Index := k\<rparr>) of None \<Rightarrow> [] | Some b \<Rightarrow> b"
      obtain r1 c1 where w: "WriteMessage ?h c = (r1, c1)" by fastforce
      obtain r2 c2 where w2: "WriteBinary b c1 = (r2, c2)" by fastforce
      have s1: "suffix (c_in c1) (c_in c)" using w wg by blast
      have s2: "suffix (c_in c2) (c_in c)" using w2 wg s1 suffix_order.trans by blast
      show ?thesis using Cons.prems rd Inr w w2 s1 s2 Cons.IH [of c2 "(fst x, w1)"]
        by (auto simp: Let_def split: sum.splits intro: suffix_order.trans)
    qed
  qed simp
  show ?thesis using a
    by (auto simp: dispatch_def on_start_upload_def on_chunk_def on_status_def on_list_def on_download_def
        on_complete_def refuse_def answer_def split: prod.splits if_splits sum.splits option.splits
        dest!: rg mg sg intro: suffix_order.trans)
qed

lemma session_turn_consumes:
  assumes "session_turn d now u c x = (True, c', y)"
  shows "length (c_in c') < length (c_in c)"
proof -
  obtain raw opcode c1 where rm: "ReadMessage c = (Inr (raw, opcode), c1)"
    using assms by (auto simp: session_turn_def split: prod.splits sum.splits)
  have "length (c_in c1) < length (c_in c)" using ReadMessage_ok(2) [OF rm refl] by simp
  moreover have "suffix (c_in c') (c_in c1)"
    using assms rm by (auto simp: session_turn_def split: if_splits option.splits prod.splits dest: dispatch_input)
  ultimately show ?thesis by (meson le_less_trans suffix_length_le)
qed

lemma session_ends:
  "length (c_in c) < length nows \<Longrightarrow> fst (session_run d u nows c x) = False"
proof (induction nows arbitrary: c x)
  case (Cons now nows)
  obtain b c1 y where t: "session_turn d now u c x = (b, c1, y)" by (metis prod_cases3)
  show ?case
  proof (cases b)
    case True
    then have "length (c_in c1) < length nows"
      using session_turn_consumes [of d now u c x c1 y] t Cons.prems by simp
    then show ?thesis using Cons.IH t True by simp
  qed (use t in simp)
qed simp

end
