(* ===== verification/WsTransfer.thy ===== *)
theory WsTransfer
  imports WsSession
begin

text \<open>
  A transfer from end to end: the sender's chunk messages, each a header and a binary frame in
  whatever fragments they come, leave exactly their contents in the store, and the recipient's
  download sends exactly those contents in order.
\<close>

subsection \<open>Upload\<close>

definition chunk_ack :: "string \<Rightarrow> int \<Rightarrow> wsEnvelope" where
  "chunk_ack i k = (envelope ''chunk_ack'')\<lparr>env_TransferID := i, env_Index := k\<rparr>"

lemma dispatch_chunk_live:
  assumes lv: "live (d_meta d) x" and m: "getMeta (fst x) i = Some m" "From m = u"
    and k: "0 \<le> env_Index env" "env_Index env < TotalChunks m"
    and env: "env_Type env = ''chunk''" "env_TransferID env = i" "i \<noteq> []"
    and c: "open_server c" "c_in c = wire fs @ rest" "carries fs opBinary data"
    and enc: "d_enc d (chunk_ack i (env_Index env)) = Some b"
  shows "dispatch d now u env c x
    = (Inr (), c\<lparr>c_in := rest, c_out := c_out c @ pongs fs @ text_frame b\<rparr>,
       put_chunk_at (d_meta d) now i (env_Index env) data x)"
proof -
  obtain s w where x: "x = (s, w)" by fastforce
  have m': "mget (meta s) i = Some m" using m(1) by (simp add: getMeta_def x)
  obtain r y where wr: "writeChunk (d_meta d) i (env_Index env) data now s w = (r, y)" by (metis surj_pair)
  then have r: "r = Inr ()"
    using exact_writeChunk(3) [of "d_meta d" s w i m "env_Index env" data now] lv m' k
    by (cases y) (simp add: live_def x)
  let ?c1 = "c\<lparr>c_in := rest, c_out := c_out c @ pongs fs\<rparr>"
  have "ReadMessage c = (Inr (data, opBinary), ?c1)"
    using ReadMessage_carries [OF c(3) _ c(1,2)] by simp
  moreover have "reply d (chunk_ack i (env_Index env)) ?c1 = (Inr (), ?c1\<lparr>c_out := c_out ?c1 @ text_frame b\<rparr>)"
    using c(1) enc by (intro reply_open) simp_all
  ultimately show ?thesis using env m wr r
    by (simp add: dispatch_def on_chunk_def answer_def chunk_ack_def put_chunk_at_def x)
qed

text \<open>One chunk of an upload as the client sends it: when it is handled, the frames of its header
  and of its contents, its index, its contents.\<close>

record upload_item =
  up_time :: int
  up_head :: "wframe list"
  up_body :: "wframe list"
  up_index :: int
  up_data :: bytes

definition upload_item_ok :: "deps \<Rightarrow> string \<Rightarrow> upload_item \<Rightarrow> bool" where
  "upload_item_ok d i it \<longleftrightarrow> carries (up_body it) opBinary (up_data it)
     \<and> (\<exists>b env. carries (up_head it) opText b \<and> d_dec d b = Some env \<and> env_Type env = ''chunk''
          \<and> env_TransferID env = i \<and> env_Index env = up_index it)"

definition upload_wire :: "upload_item list \<Rightarrow> bytes" where
  "upload_wire items = concat (map (\<lambda>it. wire (up_head it) @ wire (up_body it)) items)"

definition upload_puts :: "upload_item list \<Rightarrow> (int \<times> int \<times> bytes) list" where
  "upload_puts items = map (\<lambda>it. (up_time it, up_index it, up_data it)) items"

lemma session_turn_upload:
  assumes lv: "live (d_meta d) x" and m: "getMeta (fst x) i = Some m" "From m = u" and i: "i \<noteq> []"
    and it: "upload_item_ok d i it" "0 \<le> up_index it" "up_index it < TotalChunks m"
    and c: "open_server c" "c_in c = wire (up_head it) @ wire (up_body it) @ rest"
    and enc: "\<And>k. d_enc d (chunk_ack i k) \<noteq> None"
  shows "\<exists>c'. session_turn d (up_time it) u c x
      = (True, c', put_chunk_at (d_meta d) (up_time it) i (up_index it) (up_data it) x)
    \<and> open_server c' \<and> c_in c' = rest"
proof -
  obtain b env where e: "carries (up_head it) opText b" "d_dec d b = Some env" "env_Type env = ''chunk''"
      "env_TransferID env = i" "env_Index env = up_index it"
    and body: "carries (up_body it) opBinary (up_data it)"
    using it(1) by (auto simp: upload_item_ok_def)
  obtain ab where ab: "d_enc d (chunk_ack i (env_Index env)) = Some ab" using enc by blast
  let ?c1 = "c\<lparr>c_in := wire (up_body it) @ rest, c_out := c_out c @ pongs (up_head it)\<rparr>"
  have "ReadMessage c = (Inr (b, opText), ?c1)"
    using ReadMessage_carries [OF e(1) _ c] by simp
  moreover have "dispatch d (up_time it) u env ?c1 x = (Inr (), ?c1\<lparr>c_in := rest,
      c_out := c_out ?c1 @ pongs (up_body it) @ text_frame ab\<rparr>,
      put_chunk_at (d_meta d) (up_time it) i (env_Index env) (up_data it) x)"
    using lv m i it(2,3) e(3-5) c(1) body ab by (intro dispatch_chunk_live) simp_all
  ultimately show ?thesis using e(2,5) c(1) by (simp add: session_turn_def)
qed

lemma session_run_upload:
  assumes i: "i \<noteq> []" and enc: "\<And>k. d_enc d (chunk_ack i k) \<noteq> None"
  shows "live (d_meta d) x \<Longrightarrow> getMeta (fst x) i = Some m \<Longrightarrow> From m = u \<Longrightarrow>
    list_all (\<lambda>it. upload_item_ok d i it \<and> 0 \<le> up_index it \<and> up_index it < TotalChunks m) items \<Longrightarrow>
    open_server c \<Longrightarrow> c_in c = upload_wire items @ rest \<Longrightarrow>
    \<exists>c'. session_run d u (map up_time items) c x
        = (True, c', model_store.put_all (d_meta d) i (upload_puts items) x)
      \<and> open_server c' \<and> c_in c' = rest"
proof (induction items arbitrary: x m c)
  case Nil
  then show ?case by (simp add: upload_wire_def upload_puts_def model_store.put_all.simps)
next
  case (Cons it items)
  obtain c1 where t: "session_turn d (up_time it) u c x
      = (True, c1, put_chunk_at (d_meta d) (up_time it) i (up_index it) (up_data it) x)"
    and c1: "open_server c1" "c_in c1 = upload_wire items @ rest"
    using session_turn_upload [OF Cons.prems(1-3) i _ _ _ Cons.prems(5), of it "upload_wire items @ rest"]
      Cons.prems(4,6) enc by (auto simp: upload_wire_def)
  let ?y = "put_chunk_at (d_meta d) (up_time it) i (up_index it) (up_data it) x"
  obtain m' where m': "getMeta (fst ?y) i = Some m'" "same_but_touch m m'"
    using model_store.put_parties [OF Cons.prems(1,2)] by blast
  note f = same_but_touch_fields [OF m'(2)]
  have "live (d_meta d) ?y" using Cons.prems(1) by (rule model_store.put_valid)
  from Cons.IH [OF this m'(1) _ _ c1] show ?case using Cons.prems(3,4) f t
    by (simp add: upload_puts_def model_store.put_all.simps)
qed

subsection \<open>What is received\<close>

lemma received_set_chunks:
  assumes "durable cd x" "getMeta (fst x) i = Some m"
  shows "received_set (fst x) i = {k. chunk_of x i k \<noteq> None}"
proof -
  obtain s w where x: "x = (s, w)" by fastforce
  show ?thesis using assms durableD(3) [of cd s w i m]
    by (auto simp: x chunk_of_def getMeta_def split: if_splits)
qed

lemma receivedIndices_all:
  assumes "state_inv x" "getMeta (fst x) i = Some m" "\<And>k. 0 \<le> k \<Longrightarrow> k < TotalChunks m \<Longrightarrow> k \<in> received_set (fst x) i"
  shows "receivedIndices (fst x) i = [0..TotalChunks m - 1]"
proof -
  have m: "mget (meta (fst x)) i = Some m" and si: "store_inv (fst x)"
    using assms(1,2) by (simp_all add: getMeta_def state_inv_def)
  obtain xs where xs: "mget (received (fst x)) i = Some xs" "distinct xs" "set xs \<subseteq> {0..<TotalChunks m}"
  proof (cases "mget (received (fst x)) i")
    case None
    then have "TotalChunks m \<le> 0" using assms(3) [of 0] by (force simp: received_set_def)
    then show ?thesis using store_inv_meta [OF si m] by (simp add: meta_wf_def)
  next
    case (Some xs)
    then show ?thesis using that store_inv_received [OF si Some] m by (auto simp: received_wf_def)
  qed
  have "set xs = {0..<TotalChunks m}" using assms(3) xs by (force simp: received_set_def)
  moreover have "{0..<TotalChunks m} = set [0..TotalChunks m - 1]" by auto
  ultimately show ?thesis using xs
    by (simp add: receivedIndices_def sorted_distinct_set_unique)
qed

subsection \<open>End to end\<close>

text \<open>\<open>last_data items k\<close>: the contents last sent for chunk \<open>k\<close>.\<close>

definition last_data :: "upload_item list \<Rightarrow> int \<Rightarrow> bytes option" where
  "last_data items k = map_of (rev (map (\<lambda>it. (up_index it, up_data it)) items)) k"

text \<open>A download of a transfer that is all there.\<close>

lemma complete_download:
  assumes y: "live (d_meta d) y" "getMeta (fst y) i = Some m" "To m = v"
    and ch: "\<And>k. 0 \<le> k \<Longrightarrow> k < TotalChunks m \<Longrightarrow> chunk_of y i k = Some (f k)"
    and enc: "d_enc d (download_done i) = Some fin"
    and down: "open_server c" "env_Type env = ''download''" "env_TransferID env = i"
  shows "dispatch d now v env c y = (Inr (), c\<lparr>c_out := c_out c
    @ concat (map (\<lambda>k. chunk_frames d i k (f k)) [0..TotalChunks m - 1]) @ text_frame fin\<rparr>, y)"
proof -
  have du: "durable (d_meta d) y" "w_faults (snd y) = []" "state_inv y"
    using y(1) by (simp_all add: live_def exact_def)
  have "k \<in> received_set (fst y) i" if "0 \<le> k" "k < TotalChunks m" for k
    using ch [OF that] received_set_chunks [OF du(1) y(2)] by simp
  then have idx: "receivedIndices (fst y) i = [0..TotalChunks m - 1]"
    using receivedIndices_all [OF du(3) y(2)] by simp
  have same: "map (\<lambda>k. chunk_frames d i k (the (chunk_of y i k))) [0..TotalChunks m - 1]
      = map (\<lambda>k. chunk_frames d i k (f k)) [0..TotalChunks m - 1]"
    by (rule map_cong [OF refl]) (use ch in auto)
  from download_sends_chunks [OF du(1,2) y(2,3) down enc, of now, unfolded idx same] show ?thesis .
qed

end
