(* ===== verification/Effects.thy ===== *)
theory Effects
  imports WsTransfer
begin

text \<open>
  The store as a machine its clients drive: \<open>effect c iter P x y\<close> says that \<open>y\<close> comes from \<open>x\<close> by
  operations that satisfy \<open>P\<close>, each run under its guard (reads may have met faults first).  What the
  machine keeps, every client keeps.
\<close>

subsection \<open>The store machine\<close>

interpretation store_machine: guarded_machine "store_step c iter" store_guard
  "\<lambda>x. map_iteration iter \<and> state_inv x" for c iter
  by unfold_locales (simp add: store_step_inv)

definition effect :: "meta_codec \<Rightarrow> (string list \<Rightarrow> string list) \<Rightarrow> (store_op \<Rightarrow> bool) \<Rightarrow> state \<Rightarrow> state \<Rightarrow> bool" where
  "effect c iter P x y \<longleftrightarrow> (\<exists>x1 ops. unchanged x x1 \<and> list_all P ops
     \<and> guarded_run (store_step c iter) store_guard ops x1 \<and> y = run (store_step c iter) ops x1)"

lemma effect_unchanged: "unchanged x y \<Longrightarrow> effect c iter P x y"
  unfolding effect_def by (intro exI [of _ y] exI [of _ "[]"]) simp

lemma effect_refl [simp]: "effect c iter P x x"
  by (simp add: effect_unchanged)

lemma effect_op: "unchanged x x1 \<Longrightarrow> P op \<Longrightarrow> store_guard op x1 \<Longrightarrow> effect c iter P x (store_step c iter op x1)"
  unfolding effect_def by (intro exI [of _ x1] exI [of _ "[op]"]) simp

lemma effect_op2:
  "unchanged x x1 \<Longrightarrow> P op \<Longrightarrow> store_guard op x1 \<Longrightarrow> P op2 \<Longrightarrow> store_guard op2 (store_step c iter op x1)
     \<Longrightarrow> effect c iter P x (store_step c iter op2 (store_step c iter op x1))"
  unfolding effect_def by (intro exI [of _ x1] exI [of _ "[op, op2]"]) simp

lemma effect_mono: "effect c iter P x y \<Longrightarrow> (\<And>op. P op \<Longrightarrow> Q op) \<Longrightarrow> effect c iter Q x y"
  unfolding effect_def list_all_iff by blast

lemma effect_inv:
  assumes "effect c iter P x y" "map_iteration iter" "state_inv x"
  shows "state_inv y"
proof -
  obtain x1 ops where e: "unchanged x x1" "guarded_run (store_step c iter) store_guard ops x1"
    "y = run (store_step c iter) ops x1"
    using assms(1) by (auto simp: effect_def)
  then show ?thesis
    using store_machine.run_inv [of iter x1 c ops] unchanged_inv [OF e(1) assms(3)] assms(2) by simp
qed

lemma guarded_run_durable:
  "guarded_run (store_step c iter) store_guard ops x \<Longrightarrow> meta_codec_ok c \<Longrightarrow> map_iteration iter
     \<Longrightarrow> state_inv x \<Longrightarrow> durable c x \<Longrightarrow> durable c (run (store_step c iter) ops x)"
proof (induction ops arbitrary: x)
  case (Cons op ops)
  then show ?case by (simp add: durable_step store_step_inv)
qed simp

lemma effect_durable:
  assumes "effect c iter P x y" "map_iteration iter" "meta_codec_ok c" "state_inv x" "durable c x"
  shows "durable c y"
proof -
  obtain x1 ops where e: "unchanged x x1" "guarded_run (store_step c iter) store_guard ops x1"
    "y = run (store_step c iter) ops x1"
    using assms(1) by (auto simp: effect_def)
  show ?thesis unfolding e(3)
    using unchanged_inv [OF e(1) assms(4)] unchanged_durable [OF e(1) assms(5)]
    by (rule guarded_run_durable [OF e(2) assms(3,2)])
qed

text \<open>What an operation is not about it does not change.\<close>

lemma step_abs_other:
  assumes "state_inv x" "store_guard op x" "map_iteration iter" "j \<notin> op_targets iter op (fst x)"
  shows "abs_state (store_step c iter op x) j = abs_state x j"
proof -
  obtain s w where x: "x = (s, w)" by fastforce
  obtain s' w' where y: "store_step c iter op (s, w) = (s', w')" by fastforce
  note iso = store_step_isolation [OF assms(1,2) [unfolded x] assms(3) _ y, of j]
  have "dataDir s' = dataDir s"
    using store_step_confined [OF assms(1,2) [unfolded x] assms(3), of c] y by (simp add: same_config_def)
  then show ?thesis using iso assms(1,4) abs_state_frame [of s w j s' w'] y by (simp add: x)
qed

lemma effect_abs_other:
  assumes "effect c iter P x y" "map_iteration iter" "state_inv x" "\<And>op. P op \<Longrightarrow> \<exists>i. op_id op = Some i \<and> i \<noteq> j"
  shows "abs_state y j = abs_state x j"
proof -
  obtain x1 ops where e: "unchanged x x1" "guarded_run (store_step c iter) store_guard ops x1"
    "y = run (store_step c iter) ops x1" "list_all P ops"
    using assms(1) by (auto simp: effect_def)
  have frame: "abs_state (store_step c iter op z) j = abs_state z j"
    if "map_iteration iter \<and> state_inv z" "store_guard op z" "P op" for z op
    using step_abs_other [of z op iter j c] that assms(4) [OF that(3)] op_targets_id by fastforce
  have "abs_state (run (store_step c iter) ops x1) j = abs_state x1 j"
    using store_machine.run_frame [of iter P "\<lambda>x. abs_state x j" c x1 ops] frame e(2,4) assms(2)
      unchanged_inv [OF e(1) assms(3)] by blast
  then show ?thesis using unchanged_abs [OF e(1)] e(3) by simp
qed

text \<open>A control message is at most one operation the caller may have carried out.\<close>

lemma session_effect:
  assumes "session_turn d now u c x = (b, c', y)" "deps_ok d" "u \<noteq> []"
  shows "effect (d_meta d) (d_iter d) (\<lambda>op. may u op (fst x)) x y"
  using session_turn_effect [OF assms] effect_unchanged effect_op [OF unchanged_refl] by metis

end
