(* ===== verification/LinkServer.thy ===== *)
theory LinkServer
  imports Effects
begin

text \<open>
  The link-share half of \<open>server.go\<close>: transfers reached by an unguessable id, written and deleted
  with a manage token, over plain HTTP.  A request is what the handler reads of it, a response what
  it sends; the lemmas say who can change what, that transfers of the WebSocket protocol are out of
  reach, and when a one-time link is burned.
\<close>

subsection \<open>Requests and responses\<close>

definition maxLinkChunkBytes :: nat where
  "maxLinkChunkBytes = 5 * 1024 * 1024"

text \<open>A request body: the bytes that arrive, and the error after them, if not the end.\<close>

record http_body =
  hb_data :: bytes
  hb_err :: "go_error option"

text \<open>\<open>io.ReadAll(io.LimitReader(body, n))\<close>.\<close>

definition read_limited :: "nat \<Rightarrow> http_body \<Rightarrow> bytes res" where
  "read_limited n b =
     (if n \<le> length (hb_data b) then Inr (take n (hb_data b))
      else case hb_err b of None \<Rightarrow> Inr (hb_data b) | Some e \<Rightarrow> Inl e)"

datatype http_reply =
    HttpError int string
  | NoContent
  | StartReply string string
  | MetaReply int bool
  | DataReply bytes

text \<open>\<open>genRandomToken\<close>, from the entropy \<open>rnd\<close>.\<close>

definition genRandomToken :: "nat \<Rightarrow> bytes \<Rightarrow> string res \<times> bytes" where
  "genRandomToken n rnd =
     (if n \<le> length rnd then (Inr (rawurl_encode (take n rnd)), drop n rnd)
      else (Inl (Err ''crypto/rand''), rnd))"

subsection \<open>Handlers\<close>

definition handleLinkStart :: "deps \<Rightarrow> string \<Rightarrow> brokerKeySource \<Rightarrow> int \<Rightarrow> int \<Rightarrow> int \<Rightarrow> http_body \<Rightarrow> bytes
     \<Rightarrow> state \<Rightarrow> http_reply \<times> bytes \<times> state" where
  "handleLinkStart d minTier ks now1 now2 now3 body rnd x =
     (case d_start d (take 4096 (hb_data body)) of
        None \<Rightarrow> (HttpError 400 ''invalid JSON body'', rnd, x)
      | Some req \<Rightarrow>
         (if ls_TotalChunks req \<le> 0 then (HttpError 400 ''total_chunks must be positive'', rnd, x)
          else
            (case current ks now1 of
               Inl e \<Rightarrow> (HttpError 503 (''access token rejected: '' @ error_text e), rnd, x)
             | Inr brokerPub \<Rightarrow>
                (case verifyToken (ed_verify (d_crypto d)) (d_token d) brokerPub (ls_Token req) minTier
                        (ls_SecretOnly req) now2 of
                   Inl e \<Rightarrow> (HttpError 401 (''access token rejected: '' @ error_text e), rnd, x)
                 | Inr _ \<Rightarrow>
                    (case genRandomToken 16 rnd of
                       (Inl _, rnd1) \<Rightarrow> (HttpError 500 ''internal error'', rnd1, x)
                     | (Inr transferID, rnd1) \<Rightarrow>
                        (case genRandomToken 32 rnd1 of
                           (Inl _, rnd2) \<Rightarrow> (HttpError 500 ''internal error'', rnd2, x)
                         | (Inr manageToken, rnd2) \<Rightarrow>
                            (case createLinkTransfer (d_meta d) transferID manageToken (ls_TotalChunks req)
                                    (ls_OneTime req) now3 (fst x) (snd x) of
                               (Inl e, y) \<Rightarrow> (HttpError 500 (''could not create transfer: '' @ error_text e), rnd2, y)
                             | (Inr _, y) \<Rightarrow> (StartReply transferID manageToken, rnd2, y))))))))"

definition linkTransferForManage :: "store \<Rightarrow> string \<Rightarrow> string \<Rightarrow> http_reply + transferMeta" where
  "linkTransferForManage s i got =
     (case getMeta s i of
        None \<Rightarrow> Inl (HttpError 404 ''no such transfer'')
      | Some m \<Rightarrow>
         (if Mode m \<noteq> ''link'' then Inl (HttpError 404 ''no such transfer'')
          else if got = [] \<or> got \<noteq> ManageToken m then Inl (HttpError 403 ''invalid manage token'')
          else Inr m))"

definition handleLinkChunkUpload :: "deps \<Rightarrow> int \<Rightarrow> string \<Rightarrow> string \<Rightarrow> string \<Rightarrow> http_body \<Rightarrow> state
     \<Rightarrow> http_reply \<times> state" where
  "handleLinkChunkUpload d now i index got body x =
     (case linkTransferForManage (fst x) i got of
        Inl r \<Rightarrow> (r, x)
      | Inr m \<Rightarrow>
         (case atoi index of
            None \<Rightarrow> (HttpError 400 ''invalid chunk index'', x)
          | Some idx \<Rightarrow>
             (case read_limited (maxLinkChunkBytes + 1) body of
                Inl _ \<Rightarrow> (HttpError 500 ''read error'', x)
              | Inr data \<Rightarrow>
                 (if length data > maxLinkChunkBytes then (HttpError 413 ''chunk too large'', x)
                  else
                    (case writeChunk (d_meta d) (TransferID m) idx data now (fst x) (snd x) of
                       (Inl e, y) \<Rightarrow> (HttpError 400 (''chunk rejected: '' @ error_text e), y)
                     | (Inr _, y) \<Rightarrow> (NoContent, y))))))"

definition handleLinkMeta :: "store \<Rightarrow> string \<Rightarrow> http_reply" where
  "handleLinkMeta s i =
     (case getMeta s i of
        None \<Rightarrow> HttpError 404 ''no such transfer''
      | Some m \<Rightarrow>
         (if Mode m \<noteq> ''link'' then HttpError 404 ''no such transfer''
          else MetaReply (TotalChunks m) (OneTime m)))"

text \<open>\<open>sent\<close> is whether \<open>w.Write\<close> reports no error.\<close>

definition handleLinkChunkDownload :: "deps \<Rightarrow> int \<Rightarrow> string \<Rightarrow> string \<Rightarrow> bool \<Rightarrow> state
     \<Rightarrow> http_reply \<times> state" where
  "handleLinkChunkDownload d now i index sent x =
     (case getMeta (fst x) i of
        None \<Rightarrow> (HttpError 404 ''no such transfer'', x)
      | Some m \<Rightarrow>
         (if Mode m \<noteq> ''link'' then (HttpError 404 ''no such transfer'', x)
          else
            (case atoi index of
               None \<Rightarrow> (HttpError 400 ''invalid chunk index'', x)
             | Some idx \<Rightarrow>
                (if idx < 0 \<or> idx \<ge> TotalChunks m then (HttpError 400 ''invalid chunk index'', x)
                 else
                   (case readChunk (fst x) i idx (snd x) of
                      (Inl _, w1) \<Rightarrow> (HttpError 404 ''chunk not found'', (fst x, w1))
                    | (Inr data, w1) \<Rightarrow>
                       (let (s2, w2) = touchLinkTransfer (d_meta d) i now (fst x) w1
                        in if \<not> sent then (DataReply data, (s2, w2))
                           else (DataReply data, snd (markLinkChunkServed i idx s2 w2))))))))"

definition handleLinkDelete :: "string \<Rightarrow> string \<Rightarrow> state \<Rightarrow> http_reply \<times> state" where
  "handleLinkDelete i got x =
     (case linkTransferForManage (fst x) i got of
        Inl r \<Rightarrow> (r, x)
      | Inr m \<Rightarrow>
         (case deleteTransfer (TransferID m) (fst x) (snd x) of
            (Inl _, y) \<Rightarrow> (HttpError 500 ''delete failed'', y)
          | (Inr _, y) \<Rightarrow> (NoContent, y)))"

subsection \<open>Tokens\<close>

lemma url_char_id: "c \<in> set b64_url \<Longrightarrow> id_char c"
  by (auto simp: b64_url_def id_char_def)

lemma genRandomToken_chars: "fst (genRandomToken n rnd) = Inr t \<Longrightarrow> list_all id_char t"
  by (auto simp: genRandomToken_def list_all_iff split: if_splits dest: rawurl_chars intro: url_char_id)

lemma genRandomToken_length:
  "fst (genRandomToken n rnd) = Inr t
     \<Longrightarrow> length t = (n div 3) * 4 + (if n mod 3 = 0 then 0 else n mod 3 + 1)"
  by (auto simp: genRandomToken_def length_rawurl_encode split: if_splits)

lemma transfer_id_valid:
  "fst (genRandomToken 16 rnd) = Inr t \<Longrightarrow> validTransferID t \<and> length t = 22"
  using genRandomToken_length [of 16 rnd t] genRandomToken_chars [of 16 rnd t]
  by (simp add: validTransferID_def)

lemma linkTransferForManage_Inr:
  "linkTransferForManage s i got = Inr m \<longleftrightarrow>
     getMeta s i = Some m \<and> Mode m = ''link'' \<and> got \<noteq> [] \<and> got = ManageToken m"
  by (auto simp: linkTransferForManage_def split: option.splits)

subsection \<open>Effects on the store\<close>

text \<open>The operations a link request may have the store carry out, given its manage token.\<close>

fun may_link :: "string \<Rightarrow> store_op \<Rightarrow> store \<Rightarrow> bool" where
  "may_link got (OpCreateLink i token n once now) s = (getMeta s i = None)"
| "may_link got (OpWriteChunk i index data now) s =
     (\<exists>m. getMeta s i = Some m \<and> Mode m = ''link'' \<and> got \<noteq> [] \<and> ManageToken m = got
          \<and> length data \<le> maxLinkChunkBytes)"
| "may_link got (OpDelete i) s =
     (\<exists>m. getMeta s i = Some m \<and> Mode m = ''link'' \<and> got \<noteq> [] \<and> ManageToken m = got)"
| "may_link got (OpTouch i now) s = (\<exists>m. getMeta s i = Some m \<and> Mode m = ''link'')"
| "may_link got (OpMarkServed i index) s = (\<exists>m. getMeta s i = Some m \<and> Mode m = ''link'')"
| "may_link got _ s = False"

lemma handleLinkChunkUpload_effect:
  assumes "handleLinkChunkUpload d now i index got body x = (r, y)" "state_inv x"
  shows "y = x \<or> (\<exists>idx data. may_link got (OpWriteChunk i idx data now) (fst x)
    \<and> y = store_step (d_meta d) (d_iter d) (OpWriteChunk i idx data now) x)"
proof (cases "y = x")
  case False
  obtain s w where x: "x = (s, w)" by fastforce
  obtain m where m: "linkTransferForManage s i got = Inr m"
    using assms(1) False by (auto simp: handleLinkChunkUpload_def x split: sum.splits)
  obtain idx where idx: "atoi index = Some idx"
    using assms(1) False m by (auto simp: handleLinkChunkUpload_def x split: option.splits)
  obtain data where data: "length data \<le> maxLinkChunkBytes"
      "y = snd (writeChunk (d_meta d) (TransferID m) idx data now s w)"
    using assms(1) False m idx
    by (auto simp: handleLinkChunkUpload_def x split: sum.splits if_splits prod.splits) (metis not_le snd_conv)+
  have "TransferID m = i"
    using m assms(2) store_inv_meta [of s i m]
    by (auto simp: linkTransferForManage_Inr state_inv_def meta_wf_def getMeta_def x)
  then show ?thesis using m data
    by (intro disjI2 exI [of _ idx] exI [of _ data]) (auto simp: x linkTransferForManage_Inr)
qed simp

lemma handleLinkDelete_effect:
  assumes "handleLinkDelete i got x = (r, y)" "state_inv x"
  shows "y = x \<or> (may_link got (OpDelete i) (fst x) \<and> store_guard (OpDelete i) x
    \<and> y = store_step c iter (OpDelete i) x)"
proof (cases "y = x")
  case False
  obtain s w where x: "x = (s, w)" by fastforce
  obtain m where m: "linkTransferForManage s i got = Inr m"
    using assms(1) False by (auto simp: handleLinkDelete_def x split: sum.splits)
  have "TransferID m = i"
    using m assms(2) store_inv_meta [of s i m]
    by (auto simp: linkTransferForManage_Inr state_inv_def meta_wf_def getMeta_def x)
  then show ?thesis using m assms(1)
    by (auto simp: x handleLinkDelete_def linkTransferForManage_Inr split: prod.splits sum.splits)
qed simp

lemma handleLinkStart_effect:
  assumes "handleLinkStart d minTier ks now1 now2 now3 body rnd x = (r, rnd', y)" "deps_ok d"
  shows "y = x \<or> (\<exists>op i. op_id op = Some i \<and> getMeta (fst x) i = None \<and> may_link got op (fst x) \<and> store_guard op x
    \<and> y = store_step (d_meta d) (d_iter d) op x)"
proof (cases "y = x")
  case False
  obtain s w where x: "x = (s, w)" by fastforce
  obtain req i tok where req: "d_start d (take 4096 (hb_data body)) = Some req" "0 < ls_TotalChunks req"
    "y = snd (createLinkTransfer (d_meta d) i tok (ls_TotalChunks req) (ls_OneTime req) now3 s w)"
    using assms(1) False
    by (auto simp: handleLinkStart_def x split: option.splits if_splits sum.splits prod.splits)
       (metis not_le snd_conv)+
  let ?op = "OpCreateLink i tok (ls_TotalChunks req) (ls_OneTime req) now3"
  have "getMeta s i = None"
    using req(3) False by (auto simp: x createLinkTransfer_def getMeta_def split: if_splits)
  then show ?thesis using req assms(2)
    by (intro disjI2 exI [of _ ?op] exI [of _ i]) (auto simp: x deps_ok_def)
qed simp

text \<open>A download reads, touches the transfer and, when the chunk went out, marks it served.\<close>

lemma handleLinkChunkDownload_cases:
  assumes "handleLinkChunkDownload d now i index sent x = (r, y)"
  obtains (none) "unchanged x y" "\<And>b. r \<noteq> DataReply b"
  | (served) m idx b x1 where "getMeta (fst x) i = Some m" "Mode m = ''link''" "atoi index = Some idx"
      "0 \<le> idx" "idx < TotalChunks m" "readChunk (fst x) i idx (snd x) = (Inr b, snd x1)" "fst x1 = fst x"
      "r = DataReply b"
      "y = (let x2 = store_step (d_meta d) (d_iter d) (OpTouch i now) x1
            in if sent then store_step (d_meta d) (d_iter d) (OpMarkServed i idx) x2 else x2)"
proof (cases "\<exists>b. r = DataReply b")
  case False
  have "unchanged x y"
    using assms False
    by (cases x) (auto simp: handleLinkChunkDownload_def unchanged_def Let_def
        split: option.splits if_splits prod.splits sum.splits dest: readChunk_unchanged)
  then show ?thesis using none False by blast
next
  case True
  then obtain b where b: "r = DataReply b" by blast
  obtain m where m: "getMeta (fst x) i = Some m" "Mode m = ''link''"
    using assms b by (auto simp: handleLinkChunkDownload_def split: option.splits if_splits)
  obtain idx where idx: "atoi index = Some idx" "0 \<le> idx" "idx < TotalChunks m"
    using assms b m by (auto simp: handleLinkChunkDownload_def split: option.splits if_splits)
  obtain d1 w1 where rd: "readChunk (fst x) i idx (snd x) = (Inr d1, w1)"
    using assms b m idx
    by (auto simp: handleLinkChunkDownload_def split: option.splits if_splits sum.splits prod.splits)
  obtain s2 w2 where t: "touchLinkTransfer (d_meta d) i now (fst x) w1 = (s2, w2)" by fastforce
  have "d1 = b \<and> y = (if sent then snd (markLinkChunkServed i idx s2 w2) else (s2, w2))"
    using assms b m idx rd t by (auto simp: handleLinkChunkDownload_def)
  then show ?thesis using served [of m idx b "(fst x, w1)"] m idx rd t b by simp
qed

lemma handleLinkChunkDownload_effect:
  assumes "handleLinkChunkDownload d now i index sent x = (r, y)"
  shows "effect (d_meta d) (d_iter d) (\<lambda>op. op_id op = Some i \<and> may_link got op (fst x)
    \<and> (\<exists>m. getMeta (fst x) i = Some m \<and> Mode m = ''link'')) x y"
  using assms
proof (cases rule: handleLinkChunkDownload_cases)
  case none
  then show ?thesis by (simp add: effect_unchanged)
next
  case (served m idx b x1)
  have u: "unchanged x x1"
    using readChunk_unchanged [OF served(6)] served(7) by (simp add: unchanged_def)
  let ?t = "OpTouch i now" and ?k = "OpMarkServed i idx"
  let ?x2 = "store_step (d_meta d) (d_iter d) ?t x1"
  have g1: "store_guard ?t x1" by (cases x1) simp
  have "getMeta (fst ?x2) i = Some (m\<lparr>TouchedAt := now\<rparr>)"
    using served(1,7) by (cases x1) (simp add: touchLinkTransfer_def getMeta_def Let_def)
  then have g2: "store_guard ?k ?x2" using served(4,5) by (cases ?x2) simp
  have p: "may_link got ?t (fst x)" "may_link got ?k (fst x)" using served(1,2) by auto
  show ?thesis
  proof (cases sent)
    case True
    then show ?thesis using effect_op2 [OF u _ g1 _ g2] p served(9) by (simp add: Let_def)
  next
    case False
    then show ?thesis using effect_op [OF u _ g1] p served(9) by (simp add: Let_def)
  qed
qed

end
