(* ===== verification/LinkBurn.thy ===== *)
theory LinkBurn
  imports LinkServer
begin

text \<open>
  One-time links: which chunks have gone out, and that the transfer goes with the last of them and
  not before.  The links' other requests: who can make them and what they answer.
\<close>

definition served_set :: "store \<Rightarrow> string \<Rightarrow> int set" where
  "served_set s i = (case mget (served s) i of None \<Rightarrow> {} | Some xs \<Rightarrow> set xs)"

text \<open>What marking a chunk does: the set grows, and fills up exactly when the transfer is burned.\<close>

lemma mark_served_local:
  assumes m: "mget (meta s) i = Some m" "Mode m = ''link''" and k: "0 \<le> k" "k < TotalChunks m"
    and old: "\<And>xs. mget (served s) i = Some xs \<Longrightarrow> distinct xs" "served_set s i \<subseteq> {0..<TotalChunks m}"
    and r: "mark_served i k s = (burn, s')"
  shows "burn \<longleftrightarrow> OneTime m \<and> insert k (served_set s i) = {0..<TotalChunks m}"
    "served_set s' i = insert k (served_set s i)" "mget (served s') i = Some xs \<Longrightarrow> distinct xs" "meta s' = meta s"
proof -
  let ?old = "case mget (served s) i of None \<Rightarrow> [] | Some xs \<Rightarrow> xs"
  have r': "burn \<longleftrightarrow> OneTime m \<and> int (length (set_index k ?old)) \<ge> TotalChunks m"
    and s': "s' = s\<lparr>served := mput i (set_index k ?old) (served s)\<rparr>"
    using r m by (auto simp: mark_served_def Let_def)
  have o: "distinct ?old" "set ?old = served_set s i" using old(1) by (auto simp: served_set_def split: option.split)
  have "int (length (set_index k ?old)) \<ge> TotalChunks m \<longleftrightarrow> insert k (set ?old) = {0..<TotalChunks m}"
    using full_index_set [of "set_index k ?old" "TotalChunks m"] o old(2) k by simp
  then show "burn \<longleftrightarrow> OneTime m \<and> insert k (served_set s i) = {0..<TotalChunks m}"
    using r' o(2) by simp
  show "served_set s' i = insert k (served_set s i)" using o(2) by (simp add: s' served_set_def)
  show "mget (served s') i = Some xs \<Longrightarrow> distinct xs" using o(1) by (auto simp: s')
  show "meta s' = meta s" by (simp add: s')
qed

lemma served_in_range:
  assumes "store_inv s" "mget (meta s) i = Some m"
  shows "mget (served s) i = Some xs \<Longrightarrow> distinct xs" "served_set s i \<subseteq> {0..<TotalChunks m}"
  using store_inv_served [OF assms(1) _ assms(2)]
  by (cases "mget (served s) i"; fastforce simp: served_set_def served_wf_def received_wf_def)+

lemma mark_served_set:
  assumes inv: "store_inv s" and m: "mget (meta s) i = Some m" "Mode m = ''link''"
    and k: "0 \<le> k" "k < TotalChunks m" and r: "mark_served i k s = (burn, s')"
  shows "burn \<longleftrightarrow> OneTime m \<and> insert k (served_set s i) = {0..<TotalChunks m}"
    "served_set s' i = insert k (served_set s i)"
  using mark_served_local [OF m k served_in_range [OF inv m(1)] r] by blast+

lemma download_burns:
  assumes inv: "state_inv x" and m: "getMeta (fst x) i = Some m" "Mode m = ''link''"
    and idx: "atoi index = Some k" and r: "handleLinkChunkDownload d now i index True x = (DataReply b, y)"
  shows "0 \<le> k \<and> k < TotalChunks m
    \<and> (if OneTime m \<and> insert k (served_set (fst x) i) = {0..<TotalChunks m}
       then getMeta (fst y) i = None
       else getMeta (fst y) i = Some (m\<lparr>TouchedAt := now\<rparr>)
            \<and> served_set (fst y) i = insert k (served_set (fst x) i))"
  using r
proof (cases rule: handleLinkChunkDownload_cases)
  case none
  then show ?thesis by blast
next
  case (served m' k' b' x1)
  have eq: "m' = m" "k' = k" using served m idx by simp_all
  obtain s w1 where x1: "x1 = (s, w1)" by fastforce
  have s: "fst x = s" using served(7) by (simp add: x1)
  have si: "store_inv s" using inv by (simp add: state_inv_def s)
  have ms: "mget (meta s) i = Some m" using m(1) by (simp add: getMeta_def s)
  obtain s2 w2 where t: "touchLinkTransfer (d_meta d) i now s w1 = (s2, w2)" by fastforce
  have s2: "s2 = s\<lparr>meta := mput i (m\<lparr>TouchedAt := now\<rparr>) (meta s)\<rparr>"
    using t ms by (auto simp: touchLinkTransfer_def Let_def)
  have si2: "store_inv s2" unfolding s2 by (rule touch_inv [OF si ms])
  obtain burn s3 where mk: "mark_served i k s2 = (burn, s3)" by fastforce
  have ss: "served_set s2 i = served_set s i" by (simp add: s2 served_set_def)
  note ms3 = mark_served_set [OF si2 _ _ _ _ mk, of "m\<lparr>TouchedAt := now\<rparr>"]
  have b: "burn \<longleftrightarrow> OneTime m \<and> insert k (served_set s i) = {0..<TotalChunks m}"
    "served_set s3 i = insert k (served_set s i)"
    using ms3 served(4,5) m(2) eq ss by (simp_all add: s2)
  have y: "y = snd (markLinkChunkServed i k s2 w2)" using served(9) t eq by (simp add: x1 Let_def)
  show ?thesis
  proof (cases burn)
    case True
    then have "y = snd (deleteTransfer i s2 w2)"
      using y markLinkChunkServed_burns [of i k s2 s3 w2] mk by simp
    then have "getMeta (fst y) i = None"
      using delete_gone [of i s2 w2] by (simp add: getMeta_def)
    then show ?thesis using True b served(4,5) eq s by simp
  next
    case False
    then have "y = (s3, w2)" using y mk by (simp add: markLinkChunkServed_def)
    moreover have "meta s3 = meta s2" using mark_served_unchanged [OF mk] by simp
    ultimately show ?thesis using False b served(4,5) eq s by (auto simp: getMeta_def s2)
  qed
qed

text \<open>A link request on a transfer of the WebSocket protocol: not found, and nothing happens.\<close>

lemma link_handlers_direct:
  assumes "getMeta (fst x) i = Some m" "Mode m \<noteq> ''link''"
  shows "handleLinkChunkUpload d now i index got body x = (HttpError 404 ''no such transfer'', x)"
    "handleLinkMeta (fst x) i = HttpError 404 ''no such transfer''"
    "handleLinkChunkDownload d now i index sent x = (HttpError 404 ''no such transfer'', x)"
    "handleLinkDelete i got x = (HttpError 404 ''no such transfer'', x)"
  using assms by (simp_all add: handleLinkChunkUpload_def handleLinkMeta_def handleLinkChunkDownload_def
      handleLinkDelete_def linkTransferForManage_def)

text \<open>Without the manage token nothing is written or deleted.\<close>

lemma link_handlers_token:
  assumes "\<And>m. getMeta (fst x) i = Some m \<Longrightarrow> got \<noteq> ManageToken m \<or> got = []"
  shows "snd (handleLinkChunkUpload d now i index got body x) = x" "snd (handleLinkDelete i got x) = x"
    "fst (handleLinkDelete i got x) \<in> {HttpError 404 ''no such transfer'', HttpError 403 ''invalid manage token''}"
  using assms by (auto simp: handleLinkChunkUpload_def handleLinkDelete_def linkTransferForManage_def
      split: option.splits)

text \<open>What an accepted upload stores.\<close>

lemma link_upload_stores:
  assumes inv: "state_inv x" and r: "handleLinkChunkUpload d now i index got body x = (NoContent, y)"
  shows "\<exists>m k. getMeta (fst x) i = Some m \<and> Mode m = ''link'' \<and> ManageToken m = got \<and> atoi index = Some k
    \<and> 0 \<le> k \<and> k < TotalChunks m \<and> length (hb_data body) \<le> maxLinkChunkBytes
    \<and> abs_state y = (abs_state x)(i \<mapsto> (m\<lparr>TouchedAt := now\<rparr>, (chunk_of x i)(k \<mapsto> hb_data body)))"
proof -
  obtain s w where x: "x = (s, w)" by fastforce
  obtain m where m: "linkTransferForManage s i got = Inr m"
    using r by (cases "linkTransferForManage s i got")
      (auto simp: handleLinkChunkUpload_def x linkTransferForManage_def split: option.splits if_splits)
  note m' = m [unfolded linkTransferForManage_Inr]
  obtain k where k: "atoi index = Some k"
    using r m by (auto simp: handleLinkChunkUpload_def x split: option.splits)
  obtain data s' w' where data: "read_limited (maxLinkChunkBytes + 1) body = Inr data"
      "length data \<le> maxLinkChunkBytes" "y = (s', w')"
      "writeChunk (d_meta d) (TransferID m) k data now s w = (Inr (), s', w')"
    using r m k by (auto simp: handleLinkChunkUpload_def x split: sum.splits if_splits prod.splits)
  have full: "data = hb_data body"
    using data(1,2) by (auto simp: read_limited_def split: if_splits option.splits)
  have i: "TransferID m = i"
    using m' inv store_inv_meta [of s i m] by (auto simp: state_inv_def meta_wf_def getMeta_def x)
  obtain m2 f where w: "abs_state (s, w) i = Some (m2, f)" "0 \<le> k" "k < TotalChunks m2"
      "abs_state (s', w') = (abs_state (s, w))(i \<mapsto> (m2\<lparr>TouchedAt := now\<rparr>, f(k \<mapsto> data)))"
    using writeChunk_refines [OF inv [unfolded x] data(4)] i by auto
  have "m2 = m" "f = chunk_of (s, w) i"
    using w(1) m' by (auto simp: abs_state_def)
  then show ?thesis using w m' k data full by (auto simp: x)
qed

end
