(* ===== verification/StoreRefine.thy ===== *)
theory StoreRefine
  imports LinkBurn
begin

text \<open>
  What the store promises, without directories, files or locks: a map from ids to a transfer's
  metadata, its chunks and the set of indices already served, changed by seven operations.  On a disk
  that does not fail, the store of \<open>store.go\<close> behaves exactly like this map (a simulation).
\<close>

subsection \<open>The specification\<close>

type_synonym spec_entry = "transferMeta \<times> (int \<rightharpoonup> bytes) \<times> int set"
type_synonym spec_store = "string \<rightharpoonup> spec_entry"

definition spec_count :: "spec_store \<Rightarrow> string \<Rightarrow> nat" where
  "spec_count a u = card {i. \<exists>m f v. a i = Some (m, f, v) \<and> From m = u}"

definition spec_update :: "string \<Rightarrow> (spec_entry \<Rightarrow> spec_entry option) \<Rightarrow> spec_store \<Rightarrow> spec_store" where
  "spec_update i g a = a(i := Option.bind (a i) g)"

fun spec_step :: "int \<Rightarrow> store_op \<Rightarrow> spec_store \<Rightarrow> spec_store" where
  "spec_step life (OpCreate i u r n share now) a =
     (if a i \<noteq> None \<or> \<not> validTransferID i \<or> spec_count a u \<ge> 1000 then a
      else a(i \<mapsto> (direct_meta i u r n share now, Map.empty, {})))"
| "spec_step life (OpCreateLink i token n once now) a =
     (if a i \<noteq> None \<or> \<not> validTransferID i then a
      else a(i \<mapsto> (link_meta i token n once now, Map.empty, {})))"
| "spec_step life (OpTouch i now) a =
     spec_update i (\<lambda>(m, f, v). Some (m\<lparr>TouchedAt := now\<rparr>, f, v)) a"
| "spec_step life (OpWriteChunk i k d now) a =
     spec_update i (\<lambda>(m, f, v). Some
       (if 0 \<le> k \<and> k < TotalChunks m then (m\<lparr>TouchedAt := now\<rparr>, f(k \<mapsto> d), v) else (m, f, v))) a"
| "spec_step life (OpDelete i) a = a(i := None)"
| "spec_step life (OpMarkServed i k) a =
     spec_update i (\<lambda>(m, f, v).
       if Mode m \<noteq> ''link'' then Some (m, f, v)
       else if OneTime m \<and> insert k v = {0..<TotalChunks m} then None
       else Some (m, f, insert k v)) a"
| "spec_step life (OpSweep now) a =
     (\<lambda>i. Option.bind (a i) (\<lambda>(m, f, v). if TouchedAt m < now - life then None else Some (m, f, v)))"

definition spec_of :: "state \<Rightarrow> spec_store" where
  "spec_of x i = map_option (\<lambda>(m, f). (m, f, served_set (fst x) i)) (abs_state x i)"

subsection \<open>Reading the specification off the store\<close>

lemma spec_of_Some: "spec_of x i = Some (m, f, v) \<longleftrightarrow> abs_state x i = Some (m, f) \<and> v = served_set (fst x) i"
  by (auto simp: spec_of_def)

lemma spec_of_None [simp]: "spec_of x i = None \<longleftrightarrow> getMeta (fst x) i = None"
  by (simp add: spec_of_def abs_state_def)

lemma spec_of_at:
  "spec_of (s, w) i = map_option (\<lambda>m. (m, chunk_of (s, w) i, served_set s i)) (mget (meta s) i)"
  by (simp add: spec_of_def abs_state_def getMeta_def option.map_comp comp_def)

lemma spec_count_of:
  assumes k: "keys_distinct (meta s)"
  shows "spec_count (spec_of (s, w)) u = senderCount s u"
proof -
  let ?xs = "filter (\<lambda>(i, m). From m = u) (meta s)"
  have "{i. \<exists>m f v. spec_of (s, w) i = Some (m, f, v) \<and> From m = u} = fst ` set ?xs"
    by (force simp: spec_of_at map_of_eq_Some_iff [OF k])
  moreover have "distinct (map fst ?xs)" using k by (rule distinct_map_filter)
  ultimately show ?thesis
    using distinct_card [of "map fst ?xs"] by (simp add: spec_count_def senderCount_def count_vals_def)
qed

lemma keeps_spec:
  assumes "state_inv (s, w)" "keeps i (s, w) (s', w')"
  shows "spec_of (s', w') = (spec_of (s, w))(i := spec_of (s', w') i)"
proof
  fix j
  show "spec_of (s', w') j = ((spec_of (s, w))(i := spec_of (s', w') i)) j"
    using fun_cong [OF keeps_abs [OF assms refl], of j] keeps_other(3) [OF assms(2), of j]
    by (cases "j = i") (simp_all add: spec_of_def served_set_def)
qed

lemma served_set_cong: "served s' = served s \<Longrightarrow> served_set s' i = served_set s i"
  by (simp add: served_set_def)

lemma served_set_absent: "store_inv s \<Longrightarrow> mget (meta s) i = None \<Longrightarrow> served_set s i = {}"
  by (simp add: served_set_def store_inv_no_served)

subsection \<open>The simulation, operation by operation\<close>

lemma install_spec:
  assumes lv: "live c (s, w)" and new: "mget (meta s) (TransferID m) = None" and wf: "meta_wf (TransferID m) m"
    and room: "From m \<noteq> [] \<Longrightarrow> senderCount s (From m) < maxTransfersPerSender"
  shows "spec_of (snd (install_transfer c m s w)) = (spec_of (s, w))(TransferID m \<mapsto> (m, Map.empty, {}))"
proof -
  have l: "meta_codec_ok c" "codec_total c" "state_inv (s, w)" "exact c (s, w)" using lv by (auto simp: live_def)
  obtain s' w' where i: "install_transfer c m s w = (Inr (), s', w')"
    "s' = s\<lparr>meta := mput (TransferID m) m (meta s), received := mput (TransferID m) [] (received s)\<rparr>"
    using exact_install [OF l new wf] by blast
  have si: "store_inv s" using l(3) by (simp add: state_inv_def)
  have "spec_of (s', w') (TransferID m) = Some (m, Map.empty, {})"
    using install_refines [OF l(3) new wf room i(1)] served_set_absent [OF si new] i(2)
    by (simp add: spec_of_def served_set_def)
  then show ?thesis
    using keeps_spec [OF l(3), of "TransferID m" s' w'] install_keeps [OF l(3) new wf room, of c] i(1) by simp
qed

lemma createTransfer_spec:
  assumes lv: "live c (s, w)" and g: "u \<noteq> []" "r \<noteq> []" "0 < n" "int64_range n"
  shows "spec_of (snd (createTransfer c i u r n share now s w))
    = spec_step life (OpCreate i u r n share now) (spec_of (s, w))"
proof -
  have si: "store_inv s" using lv by (simp add: live_def state_inv_def)
  let ?m = "direct_meta i u r n share now"
  have wf: "validTransferID i \<Longrightarrow> meta_wf (TransferID ?m) ?m"
    using g by (simp add: meta_wf_def direct_meta_def direct_form_def)
  have sel: "TransferID ?m = i" "From ?m = u" by (simp_all add: direct_meta_def)
  show ?thesis
    using install_spec [OF lv, of ?m] wf
    by (simp add: createTransfer_def sel spec_count_of [OF store_invD(2) [OF si]] maxTransfersPerSender_def getMeta_def)
qed

lemma createLinkTransfer_spec:
  assumes lv: "live c (s, w)" and g: "0 < n" "int64_range n"
  shows "spec_of (snd (createLinkTransfer c i token n once now s w))
    = spec_step life (OpCreateLink i token n once now) (spec_of (s, w))"
proof -
  let ?m = "link_meta i token n once now"
  have wf: "validTransferID i \<Longrightarrow> meta_wf (TransferID ?m) ?m"
    using g by (simp add: meta_wf_def link_meta_def link_form_def)
  have sel: "TransferID ?m = i" "From ?m = []" by (simp_all add: link_meta_def)
  show ?thesis
    using install_spec [OF lv, of ?m] wf by (simp add: createLinkTransfer_def sel getMeta_def)
qed

lemma touch_spec:
  assumes inv: "state_inv (s, w)"
  shows "spec_of (touchLinkTransfer c i now s w) = spec_step life (OpTouch i now) (spec_of (s, w))"
proof -
  obtain s' w' where r: "touchLinkTransfer c i now s w = (s', w')" by fastforce
  have "served s' = served s"
    using r by (auto simp: touchLinkTransfer_def Let_def split: option.splits)
  then show ?thesis
    using keeps_spec [OF inv, of i s' w'] touchLinkTransfer_keeps [OF inv, of i c now]
      touchLinkTransfer_refines [OF inv r] r
    by (auto simp: spec_of_def served_set_def spec_update_def split: option.splits)
qed

lemma writeChunk_spec:
  assumes lv: "live c (s, w)"
  shows "spec_of (snd (writeChunk c i k d now s w)) = spec_step life (OpWriteChunk i k d now) (spec_of (s, w))"
proof -
  have l: "meta_codec_ok c" "codec_total c" "state_inv (s, w)" "exact c (s, w)" using lv by (auto simp: live_def)
  obtain r s' w' where r: "writeChunk c i k d now s w = (r, s', w')" by (metis prod_cases3)
  have "served s' = served s"
    using r by (auto simp: writeChunk_def writeChunk_commit_def Let_def
        split: option.splits sum.splits prod.splits)
  moreover have "keeps i (s, w) (s', w')" using writeChunk_keeps [OF l(3), of i c k d now] r by simp
  ultimately show ?thesis
  proof (cases "\<exists>m. mget (meta s) i = Some m \<and> 0 \<le> k \<and> k < TotalChunks m")
    case True
    then obtain m where m: "mget (meta s) i = Some m" "0 \<le> k" "k < TotalChunks m" by blast
    have ok: "r = Inr ()" using exact_writeChunk(3) [OF l m, of d now] r by simp
    obtain m1 f where a: "abs_state (s, w) i = Some (m1, f)"
      "abs_state (s', w') = (abs_state (s, w))(i \<mapsto> (m1\<lparr>TouchedAt := now\<rparr>, f(k \<mapsto> d)))"
      using writeChunk_refines [OF l(3)] r ok by blast
    have "m1 = m" using a(1) m(1) by (simp add: abs_state_def getMeta_def)
    then show ?thesis
      using keeps_spec [OF l(3) \<open>keeps i (s, w) (s', w')\<close>] a m r \<open>served s' = served s\<close>
      by (simp add: spec_of_def served_set_def spec_update_def)
  next
    case False
    then have "s' = s \<and> w' = w"
      using r by (auto simp: writeChunk_def writeChunk_file_def split: option.splits)
    moreover have "spec_update i (\<lambda>(m, f, v). Some (if 0 \<le> k \<and> k < TotalChunks m
        then (m\<lparr>TouchedAt := now\<rparr>, f(k \<mapsto> d), v) else (m, f, v))) (spec_of (s, w)) = spec_of (s, w)"
      using False by (cases "mget (meta s) i") (auto simp: spec_update_def spec_of_at)
    ultimately show ?thesis using r by simp
  qed
qed

lemma delete_spec:
  assumes inv: "state_inv (s, w)" and g: "getMeta s i \<noteq> None"
  shows "spec_of (snd (deleteTransfer i s w)) = spec_step life (OpDelete i) (spec_of (s, w))"
proof -
  obtain m where m: "mget (meta s) i = Some m" using g by (auto simp: getMeta_def)
  obtain r s' w' where r: "deleteTransfer i s w = (r, s', w')" by (metis prod_cases3)
  have k: "keeps i (s, w) (s', w')" using deleteTransfer_keeps [OF inv m] r by simp
  have n: "spec_of (s', w') i = None"
    using deleteTransfer_refines [OF inv m r] by (simp add: spec_of_def)
  show ?thesis using keeps_spec [OF inv k] unfolding r snd_conv n spec_step.simps .
qed

lemma mark_spec:
  assumes inv: "state_inv (s, w)" and g: "store_guard (OpMarkServed i k) (s, w)"
  shows "spec_of (snd (markLinkChunkServed i k s w)) = spec_step life (OpMarkServed i k) (spec_of (s, w))"
proof (cases "\<exists>m. mget (meta s) i = Some m \<and> Mode m = ''link''")
  case False
  then have "mark_served i k s = (False, s)" by (auto simp: mark_served_def split: option.splits)
  then show ?thesis
    using False by (cases "mget (meta s) i")
      (auto simp: markLinkChunkServed_def spec_update_def spec_of_at)
next
  case True
  then obtain m where m: "mget (meta s) i = Some m" "Mode m = ''link''" by blast
  have k: "0 \<le> k" "k < TotalChunks m" using g m by (simp_all add: getMeta_def)
  obtain burn s1 where r: "mark_served i k s = (burn, s1)" by fastforce
  have si: "store_inv s" using inv by (simp add: state_inv_def)
  note b = mark_served_set [OF si m k r]
  note same = mark_served_unchanged [OF r]
  show ?thesis
  proof (cases burn)
    case True
    then have "spec_of (snd (markLinkChunkServed i k s w)) = (spec_of (s, w))(i := None)"
      using markLinkChunkServed_burns [of i k s s1 w] r delete_spec [OF inv, of i] m
      by (simp add: getMeta_def del: spec_of_None)
    then show ?thesis using True b(1) m by (simp add: spec_update_def spec_of_at)
  next
    case False
    then have y: "snd (markLinkChunkServed i k s w) = (s1, w)" using r by (simp add: markLinkChunkServed_def)
    have "keeps i (s, w) (s1, w)"
      using markLinkChunkServed_keeps [OF inv, of i k] k m y by simp
    moreover have "chunk_of (s1, w) i = chunk_of (s, w) i"
      using same by (auto simp: chunk_of_def chunk_data_def received_set_def transferDir_def)
    ultimately show ?thesis
      using keeps_spec [OF inv, of i s1 w] y b False same m by (auto simp: spec_of_at spec_update_def)
  qed
qed

lemma sweep_spec:
  assumes inv: "state_inv (s, w)" and iter: "map_iteration iter"
  shows "spec_of (sweep iter now s w) = spec_step (ttl s) (OpSweep now) (spec_of (s, w))"
proof
  fix i
  obtain s' w' where r: "sweep iter now s w = (s', w')" by fastforce
  have gone: "i \<in> set (expired_ids iter now s) \<longleftrightarrow> (\<exists>m. mget (meta s) i = Some m \<and> TouchedAt m < now - ttl s)"
    using mget_key [of "meta s" i] iter
    by (auto simp: expired_ids_def map_iteration_set split: option.splits)
  note a = fun_cong [OF sweep_refines [OF inv iter r], of i]
  show "spec_of (sweep iter now s w) i = spec_step (ttl s) (OpSweep now) (spec_of (s, w)) i"
  proof (cases "i \<in> set (expired_ids iter now s)")
    case True
    then show ?thesis using a gone r by (auto simp: spec_of_def abs_state_def getMeta_def)
  next
    case False
    then have "served_set s' i = served_set s i"
      using sweep_keeps [OF inv iter, of now] r by (simp add: same_transfer_def served_set_def)
    then show ?thesis using a False gone r
      by (cases "mget (meta s) i") (auto simp: spec_of_def abs_state_def getMeta_def)
  qed
qed

lemma step_spec:
  assumes lv: "live c x" and g: "store_guard op x" and iter: "map_iteration iter"
  shows "spec_of (store_step c iter op x) = spec_step (ttl (fst x)) op (spec_of x)"
proof -
  obtain s w where x: "x = (s, w)" by fastforce
  have inv: "state_inv (s, w)" and lv': "live c (s, w)" using lv x by (simp_all add: live_def)
  show ?thesis
    unfolding x fst_conv using g [unfolded x]
    by (cases op) (auto simp: createTransfer_spec [OF lv'] createLinkTransfer_spec [OF lv'] touch_spec [OF inv]
        writeChunk_spec [OF lv'] delete_spec [OF inv] mark_spec [OF inv] sweep_spec [OF inv iter]
        simp del: spec_step.simps)
qed

lemma step_ttl:
  assumes "live c x" "store_guard op x" "map_iteration iter"
  shows "ttl (fst (store_step c iter op x)) = ttl (fst x)"
  using assms store_step_confined [of "fst x" "snd x" op iter c] by (simp add: live_def same_config_def)

lemma run_spec:
  "live c x \<Longrightarrow> guarded_run (store_step c iter) store_guard ops x \<Longrightarrow> map_iteration iter \<Longrightarrow>
     live c (run (store_step c iter) ops x)
     \<and> spec_of (run (store_step c iter) ops x) = fold (spec_step (ttl (fst x))) ops (spec_of x)"
proof (induction ops arbitrary: x)
  case (Cons op ops)
  then show ?case using Cons.IH [of "store_step c iter op x"]
    by (simp add: live_step step_spec step_ttl del: store_guard.simps)
qed simp

subsection \<open>A restart\<close>

lemma load_entries_tables:
  "load_entries c es s w = (s', w') \<Longrightarrow> keys_distinct (meta s) \<Longrightarrow> keys_distinct (received s) \<Longrightarrow>
     over_meta s (\<lambda>m xs. distinct xs) (received s) \<Longrightarrow>
     keys_distinct (meta s') \<and> keys_distinct (received s')
     \<and> over_meta s' (\<lambda>m xs. distinct xs) (received s')"
proof (induction es arbitrary: s w)
  case (Cons e es)
  obtain s1 w1 where e: "load_entry c e s w = (s1, w1)" by fastforce
  have "keys_distinct (meta s1) \<and> keys_distinct (received s1)
      \<and> over_meta s1 (\<lambda>m xs. distinct xs) (received s1)"
    using e Cons.prems(2-4)
    by (auto simp: load_entry_def Let_def distinct_chunk_set over_meta_def split: prod.splits if_splits sum.splits option.splits)
  then show ?case using Cons.IH [of s1 w1] Cons.prems(1) e by simp
qed simp

lemma newStore_tables:
  assumes "newStore c dir life w = (Inr s', w')"
  shows "keys_distinct (meta s') \<and> keys_distinct (received s')
    \<and> over_meta s' (\<lambda>m xs. distinct xs) (received s') \<and> dataDir s' = dir \<and> ttl s' = life"
proof -
  obtain w1 es w2 where "load_entries c es (empty_store dir life) w1 = (s', w2)"
    using assms by (auto simp: newStore_def loadExisting_def Let_def split: if_splits sum.splits prod.splits)
  moreover from this have "dataDir s' = dir \<and> ttl s' = life"
  proof -
    have "load_entries c es s w = (s1, w1) \<Longrightarrow> dataDir s1 = dataDir s \<and> ttl s1 = ttl s" for es s w s1 w1
      by (induction es arbitrary: s w) (auto simp: load_entry_def Let_def
          split: prod.splits if_splits sum.splits option.splits)
    then show ?thesis using calculation by (fastforce simp: empty_store_def)
  qed
  ultimately show ?thesis using load_entries_tables by (fastforce simp: empty_store_def over_meta_def)
qed

lemma same_tables_exact:
  assumes "\<And>i. mget (meta s') i = mget (meta s) i" "\<And>i. received_set s' i = received_set s i"
    "dataDir s' = dataDir s" "exact c (s, w)"
  shows "exact c (s', w)"
proof -
  have p: "transferDir s' i = transferDir s i" for i using assms(3) by (rule transferDir_cong)
  have "durable_at c (s', w) i = durable_at c (s, w) i" "exact_at c (s', w) i = exact_at c (s, w) i" for i
    unfolding durable_at_def exact_at_def meta_on_disk_def chunk_data_def prod.case p assms(1-3) by (rule refl)+
  then show ?thesis using assms(4) by (simp add: exact_def durable_def)
qed

lemma restart_live:
  assumes lv: "live c (s, w)"
  shows "\<exists>s'. newStore c (dataDir s) (ttl s) w = (Inr s', w) \<and> live c (s', w)
    \<and> spec_of (s', w) = (\<lambda>i. map_option (\<lambda>(m, f, v). (m, f, {})) (spec_of (s, w) i))"
proof -
  have l: "meta_codec_ok c" "codec_total c" "state_inv (s, w)" "exact c (s, w)" using lv by (auto simp: live_def)
  have si: "store_inv s" using l(3) by (simp add: state_inv_def)
  obtain s' where r: "newStore c (dataDir s) (ttl s) w = (Inr s', w)" "served s' = []"
    "\<And>i. mget (meta s') i = mget (meta s) i" "\<And>i. received_set s' i = received_set s i"
    using restart_exact [OF l(3,4)] by blast
  note t = newStore_tables [OF r(1)]
  have sp: "spec_of (s', w) = (\<lambda>i. map_option (\<lambda>(m, f, v). (m, f, {})) (spec_of (s, w) i))"
  proof
    fix i
    have "chunk_of (s', w) i = chunk_of (s, w) i"
      using t r(4) by (auto simp: chunk_of_def chunk_data_def transferDir_def)
    then show "spec_of (s', w) i = map_option (\<lambda>(m, f, v). (m, f, {})) (spec_of (s, w) i)"
      using r(2,3) by (simp add: spec_of_at served_set_def option.map_comp comp_def)
  qed
  have "received_wf m xs" if "mget (received s') i = Some xs" "mget (meta s) i = Some m" for i xs m
  proof -
    have "distinct xs" using t that(1) by (auto simp: over_meta_def)
    moreover have "set xs \<subseteq> {0..<TotalChunks m}"
      using store_inv_received [OF si _ that(2)] r(4) [of i] that(1)
      by (auto simp: received_set_def received_wf_def split: option.splits)
    ultimately show ?thesis by (simp add: received_wf_def)
  qed
  then have o: "over_meta s' received_wf (received s')"
    using t r(3) by (fastforce simp: over_meta_def)
  have "spec_count (spec_of (s', w)) u = spec_count (spec_of (s, w)) u" for u
    unfolding spec_count_def sp by (rule arg_cong [of _ _ card]) (auto split: option.splits)
  then have n: "senderCount s' u = senderCount s u" for u
    using t store_invD(2) [OF si] by (simp add: spec_count_of)
  have "store_inv s'"
    using t r(2,3) o n store_invD [OF si] by (intro store_invI) (simp_all add: over_meta_def)
  moreover have "disk_inv s' w" using l(3) t by (simp add: state_inv_def disk_inv_def)
  ultimately have "live c (s', w)"
    using l same_tables_exact [OF r(3,4) _ l(4)] t by (simp add: live_def state_inv_def)
  then show ?thesis using r(1) sp by blast
qed

end
