(* ===== verification/Logging.thy ===== *)
theory Logging
  imports FileSys
begin

text \<open>
  \<open>logging.go\<close>: the size-based log rotator and the settings of \<open>initLogging\<close>.  \<open>log_path p i\<close> is
  the \<open>i\<close>-th generation of the log at \<open>p\<close> (generation 0 is the file written to).  The lemmas say
  that on a working disk a rotation moves every generation one place and drops the last, that the
  recorded size is the file's, and that no file outgrows the limit except by a single record.
\<close>

subsection \<open>The rotator\<close>

record rotatingFile =
  rf_path :: gopath
  rf_maxBytes :: int
  rf_maxFiles :: int
  rf_f :: os_file
  rf_size :: int

definition log_name :: "string \<Rightarrow> nat \<Rightarrow> string" where
  "log_name b i = (if i = 0 then b else b @ ''.'' @ itoa (int i))"

definition log_path :: "gopath \<Rightarrow> nat \<Rightarrow> gopath" where
  "log_path p i = child (parent p) (log_name (base p) i)"

definition newRotatingFile :: "gopath \<Rightarrow> int \<Rightarrow> int \<Rightarrow> world \<Rightarrow> rotatingFile res \<times> world" where
  "newRotatingFile p maxBytes maxFiles w =
     (case MkdirAll (parent p) w of
        (Inl e, w1) \<Rightarrow> (Inl e, w1)
      | (Inr _, w1) \<Rightarrow>
         (case OpenAppend p w1 of
            (Inl e, w2) \<Rightarrow> (Inl e, w2)
          | (Inr f, w2) \<Rightarrow>
             (case Stat_size f w2 of
                (Inl e, w3) \<Rightarrow> (let (r, f', w4) = File_Close f w3 in (Inl e, w4))
              | (Inr n, w3) \<Rightarrow>
                 (Inr \<lparr>rf_path = p, rf_maxBytes = maxBytes, rf_maxFiles = maxFiles, rf_f = f,
                       rf_size = int n\<rparr>, w3))))"

text \<open>The renaming loop, from the oldest generation kept down to the first; errors are ignored.\<close>

fun shift_logs :: "gopath \<Rightarrow> nat \<Rightarrow> world \<Rightarrow> world" where
  "shift_logs p 0 w = w"
| "shift_logs p (Suc i) w =
     shift_logs p i (snd (Rename (log_path p (Suc i)) (log_path p (Suc (Suc i))) w))"

definition rf_rotate :: "rotatingFile \<Rightarrow> world \<Rightarrow> unit res \<times> rotatingFile \<times> world" where
  "rf_rotate r w =
     (case File_Close (rf_f r) w of
        (Inl e, f, w1) \<Rightarrow> (Inl e, r\<lparr>rf_f := f\<rparr>, w1)
      | (Inr _, f, w1) \<Rightarrow>
         (let r1 = r\<lparr>rf_f := f\<rparr>; p = rf_path r;
              w2 = snd (Remove (child (parent p) (base p @ ''.'' @ itoa (rf_maxFiles r))) w1);
              w3 = shift_logs p (nat (rf_maxFiles r - 1)) w2;
              (r4, w4) = Rename p (log_path p 1) w3
          in if (case r4 of Inl e \<Rightarrow> \<not> is_not_exist e | Inr _ \<Rightarrow> False)
             then (r4, r1, w4)
             else (case OpenAppend p w4 of
                 (Inl e, w5) \<Rightarrow> (Inl e, r1, w5)
               | (Inr f', w5) \<Rightarrow> (Inr (), r1\<lparr>rf_f := f', rf_size := 0\<rparr>, w5))))"

definition rf_Write :: "rotatingFile \<Rightarrow> bytes \<Rightarrow> world
     \<Rightarrow> nat \<times> go_error option \<times> rotatingFile \<times> world" where
  "rf_Write r d w =
     (let (res, r1, w1) =
        (if rf_size r > 0 \<and> rf_size r + int (length d) > rf_maxBytes r then rf_rotate r w
         else (Inr (), r, w))
      in case res of
           Inl e \<Rightarrow> (0, Some e, r1, w1)
         | Inr _ \<Rightarrow>
            (let (n, e, w2) = File_Write (rf_f r1) d w1
             in (n, e, r1\<lparr>rf_size := rf_size r1 + int n\<rparr>, w2)))"

definition rf_Close :: "rotatingFile \<Rightarrow> world \<Rightarrow> unit res \<times> rotatingFile \<times> world" where
  "rf_Close r w = (let (res, f, w1) = File_Close (rf_f r) w in (res, r\<lparr>rf_f := f\<rparr>, w1))"

subsection \<open>Settings\<close>

text \<open>\<open>classicLogWriter.Write\<close>: the record's message, and the length the caller is told.\<close>

definition classicLogWriter_Write :: "bytes \<Rightarrow> string \<times> nat" where
  "classicLogWriter_Write p = (trim_right [CHR 0x0A] (string_of p), length p)"

text \<open>\<open>v\<close> is the variable's value.\<close>

definition envInt :: "string \<Rightarrow> int \<Rightarrow> int" where
  "envInt v def =
     (if v = [] then def
      else (case atoi v of None \<Rightarrow> def | Some n \<Rightarrow> if n \<le> 0 then def else n))"

text \<open>\<open>int64(maxMB)*1024*1024\<close> wraps around.\<close>

definition int64_mul :: "int \<Rightarrow> int \<Rightarrow> int" where
  "int64_mul a b = sint (word_of_int (a * b) :: 64 word)"

text \<open>\<open>env\<close> is \<open>os.Getenv\<close>.  The result is the rotating file among the writers, if there is one;
  logging to standard output is there in any case.\<close>

definition initLogging :: "(string \<Rightarrow> string) \<Rightarrow> string \<Rightarrow> world \<Rightarrow> rotatingFile option \<times> world" where
  "initLogging env serviceName w =
     (let dir = env ''LOG_DIR''
      in if dir = [] then (None, w)
         else
           (let maxMB = envInt (env ''LOG_MAX_MB'') 20;
                maxFiles = envInt (env ''LOG_MAX_FILES'') 5
            in case newRotatingFile (filepath_join dir (serviceName @ ''.log''))
                      (int64_mul (int64_mul maxMB 1024) 1024) maxFiles w of
                 (Inl e, w1) \<Rightarrow> (None, w1)
               | (Inr rf, w1) \<Rightarrow> (Some rf, w1)))"

lemma envInt_pos: "0 < def \<Longrightarrow> 0 < envInt v def"
  by (auto simp: envInt_def split: option.splits)

text \<open>The wrap-around is out of reach for any limit below eight terabytes.\<close>

lemma int64_mul_exact: "int64_range (a * b) \<Longrightarrow> int64_mul a b = a * b"
  unfolding int64_mul_def signed_of_int by (simp add: int64_range_def signed_take_bit_int_eq_self)

subsection \<open>Generations\<close>

lemma nat_digits_inject: "nat_digits m = nat_digits n \<longleftrightarrow> m = n"
  by (metis digits_val_nat_digits option.inject)

lemma log_name_inject [simp]: "log_name b i = log_name b j \<longleftrightarrow> i = j"
  by (auto simp: log_name_def itoa_def nat_digits_inject)

lemma log_path_inject [simp]: "log_path p i = log_path p j \<longleftrightarrow> i = j"
  by (simp add: log_path_def)

lemma log_path_0: "comps p \<noteq> [] \<Longrightarrow> log_path p 0 = p"
  by (simp add: log_path_def log_name_def child_parent_base)

lemma log_path_parent [simp]: "parent (log_path p i) = parent p" "log_path p i \<noteq> parent p"
  "comps (log_path p i) \<noteq> []"
  by (simp_all add: log_path_def)

definition gen :: "gopath \<Rightarrow> world \<Rightarrow> nat \<Rightarrow> node option" where
  "gen p w i = mget (w_fs w) (log_path p i)"

text \<open>A disk that works, with the log's directory there and no directory in a generation's place.\<close>

definition log_disk :: "gopath \<Rightarrow> world \<Rightarrow> bool" where
  "log_disk p w \<longleftrightarrow> w_faults w = [] \<and> comps p \<noteq> [] \<and> fs_get (w_fs w) (parent p) = Some Dir
     \<and> (\<forall>i. gen p w i \<noteq> Some Dir)"

lemma fs_get_log [simp]: "fs_get (w_fs w) (log_path p i) = gen p w i"
  by (simp add: log_path_def gen_def)

lemma fs_get_mput_other: "q \<noteq> p \<Longrightarrow> fs_get (mput p n fs) q = fs_get fs q"
  by (simp add: fs_get_def)

lemma fs_get_mdel_other: "q \<noteq> p \<Longrightarrow> fs_get (mdel p fs) q = fs_get fs q"
  by (simp add: fs_get_def)

lemma gen_file: "log_disk p w \<Longrightarrow> gen p w i = None \<or> (\<exists>d. gen p w i = Some (File d))"
  by (metis log_disk_def node.exhaust option.exhaust)

lemma rename_gen:
  assumes d: "log_disk p w" and ij: "i \<noteq> j"
  defines "w' \<equiv> snd (Rename (log_path p i) (log_path p j) w)"
  shows "log_disk p w'"
    "gen p w' = (if gen p w i = None then gen p w else (gen p w)(j := gen p w i, i := None))"
    "fst (Rename (log_path p i) (log_path p j) w)
      = (if gen p w i = None then Inl (PathError ''rename'' (log_path p i) ENOENT) else Inr ())"
proof -
  have "log_disk p w' \<and> gen p w' = (if gen p w i = None then gen p w else (gen p w)(j := gen p w i, i := None))
    \<and> fst (Rename (log_path p i) (log_path p j) w)
      = (if gen p w i = None then Inl (PathError ''rename'' (log_path p i) ENOENT) else Inr ())"
  proof (cases "gen p w i")
    case None
    then show ?thesis using d by (simp add: w'_def Rename_def log_disk_def Let_def)
  next
    case (Some n)
    then obtain x where x: "gen p w i = Some (File x)" using d by (cases n) (auto simp: log_disk_def)
    have r: "Rename (log_path p i) (log_path p j) w
        = (Inr (), w\<lparr>w_fs := mput (log_path p j) (File x) (mdel (log_path p i) (w_fs w))\<rparr>)"
      using d x by (intro Rename_ok) (simp_all add: log_disk_def)
    then have w': "w' = w\<lparr>w_fs := mput (log_path p j) (File x) (mdel (log_path p i) (w_fs w))\<rparr>"
      by (simp add: w'_def)
    have g: "gen p w' = (gen p w)(j := Some (File x), i := None)"
      using ij by (rule_tac ext) (simp add: gen_def w')
    have "fs_get (w_fs w') (parent p) = Some Dir"
      using d log_path_parent(2) [of p, symmetric]
      by (auto simp: w' fs_get_def log_disk_def split: if_splits)
    moreover have "gen p w' k \<noteq> Some Dir" for k using d by (simp add: g log_disk_def)
    ultimately have "log_disk p w'" using d by (simp add: log_disk_def w')
    then show ?thesis using g x r by simp
  qed
  then show "log_disk p w'"
    "gen p w' = (if gen p w i = None then gen p w else (gen p w)(j := gen p w i, i := None))"
    "fst (Rename (log_path p i) (log_path p j) w)
      = (if gen p w i = None then Inl (PathError ''rename'' (log_path p i) ENOENT) else Inr ())"
    by blast+
qed

text \<open>The loop moves generations 1 to \<open>n\<close> one place up, into a place left free.\<close>

lemma shift_logs_gen:
  "log_disk p w \<Longrightarrow> gen p w (Suc n) = None \<Longrightarrow>
     log_disk p (shift_logs p n w)
     \<and> gen p (shift_logs p n w)
       = (\<lambda>k. if k = 0 \<or> k > Suc n then gen p w k else if k = 1 then None else gen p w (k - 1))"
proof (induction n arbitrary: w)
  case 0
  then show ?case by (auto simp: fun_eq_iff not_less le_Suc_eq)
next
  case (Suc n)
  define w1 where "w1 = snd (Rename (log_path p (Suc n)) (log_path p (Suc (Suc n))) w)"
  have d: "log_disk p w1" and g: "gen p w1 = (if gen p w (Suc n) = None then gen p w
      else (gen p w)(Suc (Suc n) := gen p w (Suc n), Suc n := None))"
    using rename_gen [OF Suc.prems(1), of "Suc n" "Suc (Suc n)"] by (simp_all add: w1_def)
  have "gen p w1 (Suc n) = None" by (simp add: g)
  note ih = Suc.IH [OF d this]
  have "gen p (shift_logs p n w1) k = (if k = 0 \<or> k > Suc (Suc n) then gen p w k
      else if k = 1 then None else gen p w (k - 1))" for k
  proof (cases "k = Suc (Suc n)")
    case True
    then show ?thesis using ih Suc.prems(2) by (simp add: g)
  next
    case False
    then show ?thesis using ih by (auto simp: g)
  qed
  then show ?case using ih by (auto simp: w1_def [symmetric] fun_eq_iff)
qed

lemma remove_gen:
  assumes d: "log_disk p w" and i: "i \<noteq> 0"
  defines "w' \<equiv> snd (Remove (log_path p i) w)"
  shows "log_disk p w' \<and> gen p w' = (gen p w)(i := None)"
proof (cases "gen p w i")
  case None
  then have "w' = w" using d by (simp add: w'_def Remove_def log_disk_def Let_def)
  then show ?thesis using d None by auto
next
  case (Some n)
  then have "n \<noteq> Dir" using d by (auto simp: log_disk_def)
  then have w': "w' = w\<lparr>w_fs := mdel (log_path p i) (w_fs w)\<rparr>"
    using d Some by (simp add: w'_def Remove_def log_disk_def Let_def)
  have g: "gen p w' = (gen p w)(i := None)" by (rule ext) (simp add: gen_def w')
  have "fs_get (w_fs w') (parent p) = Some Dir"
    using d log_path_parent(2) [of p, symmetric]
      by (auto simp: w' fs_get_def log_disk_def split: if_splits)
  then show ?thesis using d g by (simp add: log_disk_def w')
qed

lemma open_gen:
  assumes d: "log_disk p w"
  defines "r \<equiv> OpenAppend p w"
  shows "fst r = Inr \<lparr>f_path = p, f_open = True\<rparr>" "log_disk p (snd r)"
    "gen p (snd r) = (if gen p w 0 = None then (gen p w)(0 := Some (File [])) else gen p w)"
proof -
  have p0: "log_path p 0 = p" using d by (simp add: log_path_0 log_disk_def)
  have f: "fs_get (w_fs w) p = gen p w 0" using fs_get_log [of w p 0] p0 by simp
  have m: "mget (w_fs w) p = gen p w 0" by (simp add: gen_def p0)
  have pe: "parent_errno (w_fs w) p = None" using d by (simp add: parent_errno_None log_disk_def)
  have r: "r = (Inr \<lparr>f_path = p, f_open = True\<rparr>,
      if gen p w 0 = None then w\<lparr>w_fs := mput p (File []) (w_fs w)\<rparr> else w)"
    using d pe f m by (simp add: r_def OpenAppend_def Let_def log_disk_def)
  then show "fst r = Inr \<lparr>f_path = p, f_open = True\<rparr>" by simp
  have g: "gen p (w\<lparr>w_fs := mput p (File []) (w_fs w)\<rparr>) = (gen p w)(0 := Some (File []))"
    by (rule ext) (metis (no_types, lifting) fun_upd_apply gen_def log_path_inject mget_mput p0
        world.select_convs(1) world.surjective world.update_convs(1))
  then show "gen p (snd r) = (if gen p w 0 = None then (gen p w)(0 := Some (File [])) else gen p w)"
    by (simp add: r)
  have "p \<noteq> parent p" using log_path_parent(2) [of p 0] p0 by simp
  then show "log_disk p (snd r)"
    using d g by (simp add: r log_disk_def fs_get_mput_other)
qed

text \<open>Rotation on a working disk: every generation moves one place, the last of \<open>maxFiles\<close> goes.\<close>

lemma rotate_gen:
  assumes d: "log_disk p w" and p: "rf_path r = p" and h: "f_open (rf_f r)" and n: "1 \<le> rf_maxFiles r"
    and old: "gen p w 0 \<noteq> None"
  shows "\<exists>w'. rf_rotate r w = (Inr (), r\<lparr>rf_f := \<lparr>f_path = p, f_open = True\<rparr>, rf_size := 0\<rparr>, w')
    \<and> log_disk p w'
    \<and> gen p w' = (\<lambda>i. if i = 0 then Some (File []) else if i \<le> nat (rf_maxFiles r) then gen p w (i - 1)
                    else gen p w i)"
proof -
  obtain m where m: "rf_maxFiles r = int (Suc m)"
    by (rule that [of "nat (rf_maxFiles r - 1)"]) (use n in simp)
  have cl: "File_Close (rf_f r) w = (Inr (), (rf_f r)\<lparr>f_open := False\<rparr>, w)"
    using d h by (simp add: File_Close_def log_disk_def)
  have rm: "child (parent p) (base p @ ''.'' @ itoa (rf_maxFiles r)) = log_path p (Suc m)"
    by (simp add: log_path_def log_name_def m)
  define w2 where "w2 = snd (Remove (log_path p (Suc m)) w)"
  have 2: "log_disk p w2" "gen p w2 = (gen p w)(Suc m := None)"
    using remove_gen [OF d, of "Suc m"] by (simp_all add: w2_def)
  define w3 where "w3 = shift_logs p m w2"
  have 3: "log_disk p w3" "gen p w3 = (\<lambda>k. if k = 0 \<or> k > Suc m then gen p w k
      else if k = 1 then None else gen p w (k - 1))"
    using shift_logs_gen [OF 2(1), of m] 2(2) by (auto simp: w3_def fun_eq_iff)
  define w4 where "w4 = snd (Rename (log_path p 0) (log_path p 1) w3)"
  have p0: "log_path p 0 = p" using d by (simp add: log_path_0 log_disk_def)
  have 4: "log_disk p w4" "gen p w4 = (gen p w3)(1 := gen p w 0, 0 := None)"
    "fst (Rename (log_path p 0) (log_path p 1) w3) = Inr ()"
    using rename_gen [OF 3(1), of 0 1] old by (simp_all add: w4_def 3(2))
  have rn: "Rename p (log_path p 1) w3 = (Inr (), w4)" using 4(3) by (simp add: w4_def p0 prod_eq_iff)
  define w5 where "w5 = snd (OpenAppend p w4)"
  have 5: "OpenAppend p w4 = (Inr \<lparr>f_path = p, f_open = True\<rparr>, w5)" "log_disk p w5"
    "gen p w5 = (gen p w4)(0 := Some (File []))"
    using open_gen [OF 4(1)] by (simp_all add: w5_def prod_eq_iff 4(2))
  have "rf_rotate r w = (Inr (), r\<lparr>rf_f := \<lparr>f_path = p, f_open = True\<rparr>, rf_size := 0\<rparr>, w5)"
  proof -
    have "snd (Remove (child (parent p) (base p @ ''.'' @ itoa (rf_maxFiles r))) w) = w2"
      by (simp only: rm w2_def)
    moreover have "nat (rf_maxFiles r - 1) = m" by (simp add: m)
    ultimately show ?thesis using 5(1) rn
      by (simp add: rf_rotate_def cl p w3_def [symmetric] Let_def)
  qed
  then show ?thesis using 5 by (auto simp: 4(2) 3(2) m fun_eq_iff)
qed

subsection \<open>Writing\<close>

text \<open>The rotator's invariant: the handle is open on generation 0 and \<open>rf_size\<close> is its length.\<close>

definition rf_inv :: "rotatingFile \<Rightarrow> world \<Rightarrow> bool" where
  "rf_inv r w \<longleftrightarrow> log_disk (rf_path r) w \<and> rf_f r = \<lparr>f_path = rf_path r, f_open = True\<rparr>
     \<and> 1 \<le> rf_maxFiles r
     \<and> (\<exists>x. gen (rf_path r) w 0 = Some (File x) \<and> rf_size r = int (length x))"

lemma append_gen:
  fixes dat :: bytes
  assumes d: "log_disk p w" and x: "gen p w 0 = Some (File x)"
  defines "w' \<equiv> w\<lparr>w_fs := append_bytes p dat (w_fs w)\<rparr>"
  shows "File_Write \<lparr>f_path = p, f_open = True\<rparr> dat w = (length dat, None, w')" "log_disk p w'"
    "gen p w' = (gen p w)(0 := Some (File (x @ dat)))"
proof -
  have p0: "log_path p 0 = p" using d by (simp add: log_path_0 log_disk_def)
  have m: "mget (w_fs w) p = Some (File x)" using x by (simp add: gen_def p0)
  have w': "w' = w\<lparr>w_fs := mput p (File (x @ dat)) (w_fs w)\<rparr>" by (simp add: w'_def append_bytes_def m)
  show "File_Write \<lparr>f_path = p, f_open = True\<rparr> dat w = (length dat, None, w')"
    using d by (simp add: File_Write_def w'_def log_disk_def)
  show g: "gen p w' = (gen p w)(0 := Some (File (x @ dat)))"
    by (rule ext) (metis (no_types, lifting) fun_upd_apply gen_def log_path_inject mget_mput p0
        world.select_convs(1) world.surjective world.update_convs(1) w')
  have "p \<noteq> parent p" using log_path_parent(2) [of p 0] p0 by simp
  then show "log_disk p w'" using d g by (simp add: w' log_disk_def fs_get_mput_other)
qed

text \<open>On a working disk every record is written whole: appended to generation 0 where it fits, or
  the first record of a fresh generation 0 after a rotation.\<close>

lemma rf_Write_spec:
  assumes inv: "rf_inv r w" and x: "gen (rf_path r) w 0 = Some (File x)"
  shows "\<exists>r' w'. rf_Write r d w = (length d, None, r', w') \<and> rf_inv r' w' \<and> rf_path r' = rf_path r
    \<and> rf_maxBytes r' = rf_maxBytes r \<and> rf_maxFiles r' = rf_maxFiles r
    \<and> gen (rf_path r) w' =
        (if x \<noteq> [] \<and> int (length x + length d) > rf_maxBytes r
         then (\<lambda>i. if i = 0 then Some (File d) else if i \<le> nat (rf_maxFiles r) then gen (rf_path r) w (i - 1)
                    else gen (rf_path r) w i)
         else (gen (rf_path r) w)(0 := Some (File (x @ d))))"
proof -
  let ?p = "rf_path r"
  have l: "log_disk ?p w" and f: "rf_f r = \<lparr>f_path = ?p, f_open = True\<rparr>" and n: "1 \<le> rf_maxFiles r"
    and s: "rf_size r = int (length x)"
    using inv x by (auto simp: rf_inv_def)
  show ?thesis
  proof (cases "x \<noteq> [] \<and> int (length x + length d) > rf_maxBytes r")
    case True
    obtain w1 where r: "rf_rotate r w = (Inr (), r\<lparr>rf_f := \<lparr>f_path = ?p, f_open = True\<rparr>, rf_size := 0\<rparr>, w1)"
        and l1: "log_disk ?p w1"
        and g1: "gen ?p w1 = (\<lambda>i. if i = 0 then Some (File []) else if i \<le> nat (rf_maxFiles r)
                    then gen ?p w (i - 1) else gen ?p w i)"
      using rotate_gen [OF l refl _ n] f x by auto
    have "gen ?p w1 0 = Some (File [])" by (simp add: g1)
    note a = append_gen [OF l1 this, of d]
    show ?thesis using True s r a n
      by (auto simp: rf_Write_def rf_inv_def g1 fun_eq_iff)
  next
    case False
    note a = append_gen [OF l x, of d]
    show ?thesis using False s f a n by (auto simp: rf_Write_def rf_inv_def)
  qed
qed

lemma rf_Write_size:
  assumes inv: "rf_inv r w" and w: "rf_Write r d w = (n, e, r', w')"
  shows "rf_inv r' w' \<and> e = None \<and> n = length d
    \<and> (\<exists>x. gen (rf_path r) w' 0 = Some (File x) \<and> suffix d x
          \<and> (int (length x) \<le> rf_maxBytes r \<or> x = d))"
proof -
  obtain x where x: "gen (rf_path r) w 0 = Some (File x)" using inv by (auto simp: rf_inv_def)
  obtain r1 w1 where "rf_Write r d w = (length d, None, r1, w1)" "rf_inv r1 w1"
    and g: "gen (rf_path r) w1 =
        (if x \<noteq> [] \<and> int (length x + length d) > rf_maxBytes r
         then (\<lambda>i. if i = 0 then Some (File d) else if i \<le> nat (rf_maxFiles r) then gen (rf_path r) w (i - 1)
                    else gen (rf_path r) w i)
         else (gen (rf_path r) w)(0 := Some (File (x @ d))))"
    using rf_Write_spec [OF inv x, of d] by blast
  then show ?thesis using w by (auto simp: suffix_def)
qed

text \<open>Opening the log on a working disk.\<close>

lemma newRotatingFile_inv:
  assumes d: "log_disk p w" and n: "1 \<le> maxFiles"
    and r: "newRotatingFile p maxBytes maxFiles w = (Inr rf, w')"
    and mk: "MkdirAll (parent p) w = (Inr (), w)"
  shows "rf_inv rf w' \<and> rf_path rf = p \<and> rf_maxBytes rf = maxBytes \<and> rf_maxFiles rf = maxFiles"
proof -
  define w2 where "w2 = snd (OpenAppend p w)"
  note o = open_gen [OF d]
  have o2: "OpenAppend p w = (Inr \<lparr>f_path = p, f_open = True\<rparr>, w2)" using o(1) by (simp add: w2_def prod_eq_iff)
  have l: "log_disk p w2" using o(2) by (simp add: w2_def)
  have "gen p w2 0 \<noteq> None" using o(3) by (simp add: w2_def)
  then obtain x where x: "gen p w2 0 = Some (File x)" using gen_file [OF l, of 0] by auto
  have "mget (w_fs w2) p = Some (File x)"
    using x d by (simp add: gen_def log_path_0 log_disk_def)
  then have st: "Stat_size \<lparr>f_path = p, f_open = True\<rparr> w2 = (Inr (length x), w2)"
    using l by (simp add: Stat_size_def file_size_def log_disk_def)
  show ?thesis using r mk o2 st l x n
    by (auto simp: newRotatingFile_def rf_inv_def)
qed

subsection \<open>After a failure\<close>

text \<open>A rotator whose handle is closed (a rotation got as far as closing it and then failed) fails
  every write from then on, and changes nothing on disk.\<close>

lemma closed_rotator_stuck:
  assumes "\<not> f_open (rf_f r)"
  shows "\<exists>e w'. rf_Write r d w = (0, Some e, r, w') \<and> w_fs w' = w_fs w"
  using assms
  by (auto simp: rf_Write_def rf_rotate_def File_Close_def File_Write_def Let_def split: prod.splits
      dest: next_fault_fs)

lemma rotate_fails_closed:
  assumes "rf_rotate r w = (Inl e, r', w')" "f_open (rf_f r)"
  shows "\<not> f_open (rf_f r')"
  using assms
  by (auto simp: rf_rotate_def File_Close_def Let_def split: prod.splits sum.splits if_splits)

end
