(* ===== verification/LogProps.thy ===== *)
theory LogProps
  imports Logging StoreRestart
begin

text \<open>
  The properties of the rotating log file of \<open>logging.go\<close>: what a sequence of writes leaves in the
  current file and its older generations, and what happens when a rotation fails.
\<close>

subsection \<open>The log as one text\<close>

definition gen_bytes :: "gopath \<Rightarrow> world \<Rightarrow> nat \<Rightarrow> bytes" where
  "gen_bytes p w i = (case gen p w i of Some (File d) \<Rightarrow> d | _ \<Rightarrow> [])"

text \<open>The generations \<open>n\<close> (the oldest) to \<open>0\<close> (the current file), one after the other.\<close>

definition history :: "gopath \<Rightarrow> world \<Rightarrow> nat \<Rightarrow> bytes" where
  "history p w n = concat (map (gen_bytes p w) (rev [0..<Suc n]))"

lemma history_split: "history p w n = concat (map (\<lambda>i. gen_bytes p w (Suc i)) (rev [0..<n])) @ gen_bytes p w 0"
proof -
  have "[0..<Suc n] = 0 # map Suc [0..<n]" by (simp add: upt_conv_Cons map_Suc_upt del: upt_Suc)
  then show ?thesis by (simp add: history_def rev_map comp_def del: upt_Suc)
qed

lemma history_append:
  assumes "gen p w' = (gen p w)(0 := Some (File (gen_bytes p w 0 @ d)))"
  shows "history p w' n = history p w n @ d"
proof -
  have "gen_bytes p w' (Suc i) = gen_bytes p w (Suc i)" for i using assms by (simp add: gen_bytes_def)
  moreover have "gen_bytes p w' 0 = gen_bytes p w 0 @ d" using assms by (simp add: gen_bytes_def [of p w'])
  ultimately show ?thesis by (simp add: history_split)
qed

lemma history_rotate:
  assumes "gen p w' = (\<lambda>i. if i = 0 then Some (File d) else if i \<le> n then gen p w (i - 1) else gen p w i)"
  shows "gen_bytes p w n @ history p w' n = history p w n @ d"
proof -
  have m: "map (\<lambda>i. gen_bytes p w' (Suc i)) (rev [0..<n]) = map (gen_bytes p w) (rev [0..<n])"
    using assms by (simp add: gen_bytes_def)
  have "gen_bytes p w' 0 = d" using assms by (simp add: gen_bytes_def)
  moreover have "history p w n = gen_bytes p w n @ concat (map (gen_bytes p w) (rev [0..<n]))"
    by (simp add: history_def)
  ultimately show ?thesis unfolding history_split [of p w'] m by simp
qed

subsection \<open>Sequences of writes\<close>

fun rf_writes :: "rotatingFile \<Rightarrow> bytes list \<Rightarrow> world \<Rightarrow> (nat \<times> go_error option) list \<times> rotatingFile \<times> world" where
  "rf_writes r [] w = ([], r, w)"
| "rf_writes r (d # ds) w =
     (case rf_Write r d w of (n, e, r1, w1) \<Rightarrow>
        (case rf_writes r1 ds w1 of (outs, r2, w2) \<Rightarrow> ((n, e) # outs, r2, w2)))"

lemma write_history:
  assumes inv: "rf_inv r w"
  shows "\<exists>r' w'. rf_Write r d w = (length d, None, r', w') \<and> rf_inv r' w' \<and> rf_path r' = rf_path r
    \<and> rf_maxBytes r' = rf_maxBytes r \<and> rf_maxFiles r' = rf_maxFiles r
    \<and> suffix (history (rf_path r) w' (nat (rf_maxFiles r))) (history (rf_path r) w (nat (rf_maxFiles r)) @ d)
    \<and> suffix d (gen_bytes (rf_path r) w' 0)
    \<and> (int (length (gen_bytes (rf_path r) w' 0)) \<le> rf_maxBytes r \<or> gen_bytes (rf_path r) w' 0 = d)"
proof -
  let ?p = "rf_path r" let ?n = "nat (rf_maxFiles r)"
  obtain x where x: "gen ?p w 0 = Some (File x)" using inv by (auto simp: rf_inv_def)
  then have gx: "gen_bytes ?p w 0 = x" by (simp add: gen_bytes_def)
  obtain r' w' where s: "rf_Write r d w = (length d, None, r', w')" "rf_inv r' w'" "rf_path r' = ?p"
    "rf_maxBytes r' = rf_maxBytes r" "rf_maxFiles r' = rf_maxFiles r"
    "gen ?p w' =
        (if x \<noteq> [] \<and> int (length x + length d) > rf_maxBytes r
         then (\<lambda>i. if i = 0 then Some (File d) else if i \<le> ?n then gen ?p w (i - 1) else gen ?p w i)
         else (gen ?p w)(0 := Some (File (x @ d))))"
    using rf_Write_spec [OF inv x, of d] by blast
  show ?thesis
  proof (cases "x \<noteq> [] \<and> int (length x + length d) > rf_maxBytes r")
    case True
    then have g: "gen ?p w' = (\<lambda>i. if i = 0 then Some (File d) else if i \<le> ?n then gen ?p w (i - 1) else gen ?p w i)"
      using s(6) by simp
    have "suffix (history ?p w' ?n) (history ?p w ?n @ d)"
      using history_rotate [OF g] by (metis suffixI)
    moreover have "gen_bytes ?p w' 0 = d" using g by (simp add: gen_bytes_def)
    ultimately show ?thesis using s(1-5) by blast
  next
    case False
    then have g: "gen ?p w' = (gen ?p w)(0 := Some (File (gen_bytes ?p w 0 @ d)))" using s(6) gx by auto
    have "gen_bytes ?p w' 0 = x @ d" using g gx by (simp add: gen_bytes_def [of _ w'])
    then show ?thesis using s(1-5) history_append [OF g, of ?n] False by (auto simp: suffix_def)
  qed
qed

text \<open>Rotation loses nothing but the oldest text: after any sequence of writes, each of which succeeds in
  full, the current file and its \<open>maxFiles\<close> generations, oldest first, are an end of what was there followed by all
  that was written; the last line is whole in the current file, which is within the size limit unless it is
  that one line.\<close>

theorem log_history_kept:
  assumes "rf_inv r w" "rf_writes r ds w = (outs, r', w')" "ds \<noteq> []"
  shows "outs = map (\<lambda>d. (length d, None)) ds \<and> rf_inv r' w'
    \<and> suffix (history (rf_path r) w' (nat (rf_maxFiles r))) (history (rf_path r) w (nat (rf_maxFiles r)) @ concat ds)
    \<and> suffix (last ds) (gen_bytes (rf_path r) w' 0)
    \<and> (int (length (gen_bytes (rf_path r) w' 0)) \<le> rf_maxBytes r \<or> gen_bytes (rf_path r) w' 0 = last ds)"
  using assms
proof (induction ds arbitrary: r w outs)
  case (Cons d ds)
  obtain r1 w1 where 1: "rf_Write r d w = (length d, None, r1, w1)" "rf_inv r1 w1" "rf_path r1 = rf_path r"
    "rf_maxBytes r1 = rf_maxBytes r" "rf_maxFiles r1 = rf_maxFiles r"
    "suffix (history (rf_path r) w1 (nat (rf_maxFiles r))) (history (rf_path r) w (nat (rf_maxFiles r)) @ d)"
    "suffix d (gen_bytes (rf_path r) w1 0)"
    "int (length (gen_bytes (rf_path r) w1 0)) \<le> rf_maxBytes r \<or> gen_bytes (rf_path r) w1 0 = d"
    using write_history [OF Cons.prems(1), of d] by blast
  obtain outs2 where 2: "rf_writes r1 ds w1 = (outs2, r', w')" "outs = (length d, None) # outs2"
    using Cons.prems(2) 1(1) by (auto split: prod.splits)
  show ?case
  proof (cases ds)
    case Nil
    then show ?thesis using 1 2 by simp
  next
    case (Cons e es)
    then have ne: "ds \<noteq> []" by simp
    note ih = Cons.IH [OF 1(2) 2(1) ne, unfolded 1(3,4,5)]
    have "suffix (history (rf_path r) w1 (nat (rf_maxFiles r)) @ concat ds)
        ((history (rf_path r) w (nat (rf_maxFiles r)) @ d) @ concat ds)"
      using 1(6) by (auto simp: suffix_def)
    then show ?thesis using ih 2(2) ne by (auto intro: suffix_order.trans)
  qed
qed simp

text \<open>A log in an empty directory, ten bytes and two generations.\<close>

definition log_world :: world where
  "log_world = \<lparr>w_fs = [(GoPath True [''log''], Dir)], w_faults = []\<rparr>"

definition log_file :: gopath where
  "log_file = GoPath True [''log'', ''file-share.log'']"

lemma log_opened:
  "\<exists>rf w. newRotatingFile log_file 10 2 log_world = (Inr rf, w) \<and> rf_inv rf w \<and> rf_path rf = log_file
    \<and> rf_maxBytes rf = 10 \<and> rf_maxFiles rf = 2"
proof -
  have d: "log_disk log_file log_world"
    by (auto simp: log_disk_def log_world_def log_file_def parent_def fs_get_def gen_def log_path_def child_def)
  have mk: "MkdirAll (parent log_file) log_world = (Inr (), log_world)"
    by (intro MkdirAll_present) (simp_all add: log_world_def log_file_def parent_def prefixes_of_def)
  have "\<exists>rf w. newRotatingFile log_file 10 2 log_world = (Inr rf, w)"
  proof -
    obtain w2 where "OpenAppend log_file log_world = (Inr \<lparr>f_path = log_file, f_open = True\<rparr>, w2)" "w_faults w2 = []"
      using open_gen(1,2) [OF d] by (cases "OpenAppend log_file log_world") (simp add: log_disk_def)
    then show ?thesis by (simp add: newRotatingFile_def mk Stat_size_def next_fault_def Let_def)
  qed
  then show ?thesis using newRotatingFile_inv [OF d, of 2 10] mk by fastforce
qed

theorem log_history_kept_witness:
  "\<exists>rf w0 r w outs. newRotatingFile log_file 10 2 log_world = (Inr rf, w0)
    \<and> rf_writes rf [[1, 2, 3], replicate 9 4, [5]] w0 = (outs, r, w)
    \<and> map fst outs = [3, 9, 1] \<and> suffix [5] (gen_bytes log_file w 0)"
proof -
  obtain rf w0 where o: "newRotatingFile log_file 10 2 log_world = (Inr rf, w0)" "rf_inv rf w0" "rf_path rf = log_file"
    using log_opened by blast
  obtain outs r w where w: "rf_writes rf [[1, 2, 3], replicate 9 4, [5]] w0 = (outs, r, w)" by (metis prod_cases3)
  from log_history_kept [OF o(2) w] o(1,3) w show ?thesis by auto
qed

text \<open>C35: (error) A rotation that fails is never recovered from: the log file has been closed by then, and from the next
  write that needs a rotation on, every one fails and changes nothing on the disk, even when the disk works again.\<close>

theorem closed_rotator_never_recovers:
  assumes "rf_rotate r w = (Inl e, r', w')" "f_open (rf_f r)" "w_fs w1 = w_fs w'"
    "rf_writes r' ds w1 = (outs, r2, w2)"
  shows "list_all (\<lambda>out. fst out = 0 \<and> snd out \<noteq> None) outs \<and> length outs = length ds \<and> w_fs w2 = w_fs w'"
proof -
  have stuck: "rf_writes r' ds w1 = (outs, r2, w2) \<Longrightarrow>
      list_all (\<lambda>out. fst out = 0 \<and> snd out \<noteq> None) outs \<and> length outs = length ds \<and> w_fs w2 = w_fs w1"
    if closed: "\<not> f_open (rf_f r')" for w1
  proof (induction ds arbitrary: w1 outs)
    case (Cons d ds)
    obtain e w3 where "rf_Write r' d w1 = (0, Some e, r', w3)" "w_fs w3 = w_fs w1"
      using closed_rotator_stuck [OF closed, of d w1] by blast
    then show ?case using Cons.prems Cons.IH [of w3] by (auto split: prod.splits)
  qed simp
  show ?thesis using stuck [OF rotate_fails_closed [OF assms(1,2)] assms(4)] assms(3) by simp
qed

theorem closed_rotator_never_recovers_witness:
  "\<exists>rf w0 e r' w' outs r2 w2. newRotatingFile log_file 10 2 log_world = (Inr rf, w0)
    \<and> rf_rotate rf (w0\<lparr>w_faults := [FailNow]\<rparr>) = (Inl e, r', w')
    \<and> rf_writes r' [[1], [2]] (w'\<lparr>w_faults := []\<rparr>) = (outs, r2, w2) \<and> map fst outs = [0, 0]"
proof -
  obtain rf w0 where o: "newRotatingFile log_file 10 2 log_world = (Inr rf, w0)" "rf_inv rf w0"
    using log_opened by blast
  have op: "f_open (rf_f rf)" using o(2) by (simp add: rf_inv_def)
  obtain e r' w' where rot: "rf_rotate rf (w0\<lparr>w_faults := [FailNow]\<rparr>) = (Inl e, r', w')"
    using op by (auto simp: rf_rotate_def File_Close_def next_fault_def Let_def)
  obtain outs r2 w2 where ws: "rf_writes r' [[1], [2]] (w'\<lparr>w_faults := []\<rparr>) = (outs, r2, w2)" by (metis prod_cases3)
  have l: "list_all (\<lambda>out. fst out = 0 \<and> snd out \<noteq> None) outs \<and> length outs = length [[1 :: byte], [2]]"
    using closed_rotator_never_recovers [OF rot op _ ws] by simp
  then have "map fst outs = [0, 0]" by (cases outs; cases "tl outs") auto
  with o(1) rot ws show ?thesis by (intro exI conjI) assumption+
qed

end
