(* ===== verification/LogSink.thy ===== *)
theory LogSink
  imports LogProps
begin

text \<open>
  The logger \<open>initLogging\<close> installs: every line of the \<open>log\<close> package becomes a record of the JSON
  handler, which goes through \<open>io.MultiWriter\<close> to standard output and to the rotating file.  \<open>fmt\<close> is
  the handler's formatting, of the time, the service and the message.
\<close>

subsection \<open>The writers\<close>

text \<open>\<open>lg_out\<close> is what standard output has taken, \<open>lg_stdout_ok\<close> whether it takes more.\<close>

record logger =
  lg_service :: string
  lg_out :: bytes
  lg_stdout_ok :: bool
  lg_file :: "rotatingFile option"

definition installed_logger :: "(string \<Rightarrow> string) \<Rightarrow> string \<Rightarrow> world \<Rightarrow> logger \<times> world" where
  "installed_logger env serviceName w =
     (case initLogging env serviceName w of (rf, w1) \<Rightarrow>
        (\<lparr>lg_service = serviceName, lg_out = [], lg_stdout_ok = True, lg_file = rf\<rparr>, w1))"

text \<open>\<open>io.MultiWriter\<close>: one writer after the other, up to the first that fails.\<close>

definition multi_write :: "bytes \<Rightarrow> logger \<Rightarrow> world \<Rightarrow> go_error option \<times> logger \<times> world" where
  "multi_write d lg w =
     (if \<not> lg_stdout_ok lg then (Some ErrNet, lg, w)
      else
        (let lg1 = lg\<lparr>lg_out := lg_out lg @ d\<rparr>
         in case lg_file lg of
              None \<Rightarrow> (None, lg1, w)
            | Some rf \<Rightarrow> (case rf_Write rf d w of (n, e, rf1, w1) \<Rightarrow> (e, lg1\<lparr>lg_file := Some rf1\<rparr>, w1))))"

text \<open>\<open>log.Printf\<close> with no flags set: the text as a line, through \<open>classicLogWriter\<close>; the handler's error
  is dropped.\<close>

definition as_line :: "string \<Rightarrow> string" where
  "as_line t = (if t = [] \<or> last t \<noteq> CHR 0x0A then t @ [CHR 0x0A] else t)"

definition log_record :: "(int \<Rightarrow> string \<Rightarrow> string \<Rightarrow> bytes) \<Rightarrow> logger \<Rightarrow> int \<times> string \<Rightarrow> bytes" where
  "log_record fmt lg line = fmt (fst line) (lg_service lg) (fst (classicLogWriter_Write (bytes_of (as_line (snd line)))))"

definition log_Printf :: "(int \<Rightarrow> string \<Rightarrow> string \<Rightarrow> bytes) \<Rightarrow> int \<times> string \<Rightarrow> logger \<Rightarrow> world \<Rightarrow> logger \<times> world" where
  "log_Printf fmt line lg w = snd (multi_write (log_record fmt lg line) lg w)"

fun log_lines :: "(int \<Rightarrow> string \<Rightarrow> string \<Rightarrow> bytes) \<Rightarrow> (int \<times> string) list \<Rightarrow> logger \<Rightarrow> world \<Rightarrow> logger \<times> world" where
  "log_lines fmt [] lg w = (lg, w)"
| "log_lines fmt (l # ls) lg w = (case log_Printf fmt l lg w of (lg1, w1) \<Rightarrow> log_lines fmt ls lg1 w1)"

text \<open>What \<open>initLogging\<close> returns: the file's \<open>Close\<close>, or nothing to do.\<close>

definition closeLogging :: "logger \<Rightarrow> world \<Rightarrow> unit res \<times> logger \<times> world" where
  "closeLogging lg w =
     (case lg_file lg of
        None \<Rightarrow> (Inr (), lg, w)
      | Some rf \<Rightarrow> (case rf_Close rf w of (r, rf1, w1) \<Rightarrow> (r, lg\<lparr>lg_file := Some rf1\<rparr>, w1)))"

subsection \<open>Facts\<close>

text \<open>A message as the record has it: the text without the line ends at its end.\<close>

lemma log_record_text:
  "log_record fmt lg (now, t) = fmt now (lg_service lg) (trim_right [CHR 0x0A] (as_line t))"
  by (simp add: log_record_def classicLogWriter_Write_def)

lemma multi_write_stdout:
  assumes "multi_write d lg w = (e, lg1, w1)" "lg_stdout_ok lg"
  shows "lg_out lg1 = lg_out lg @ d \<and> lg_stdout_ok lg1 \<and> lg_service lg1 = lg_service lg"
  using assms by (auto simp: multi_write_def Let_def split: option.splits prod.splits)

lemma multi_write_file:
  assumes "multi_write d lg w = (e, lg1, w1)" "lg_stdout_ok lg" "lg_file lg = Some rf"
  shows "\<exists>n rf1. rf_Write rf d w = (n, e, rf1, w1) \<and> lg_file lg1 = Some rf1"
  using assms by (auto simp: multi_write_def Let_def split: prod.splits)

lemma log_record_service: "lg_service lg1 = lg_service lg \<Longrightarrow> log_record fmt lg1 = log_record fmt lg"
  by (rule ext) (simp add: log_record_def)

lemma log_lines_stdout:
  "log_lines fmt ls lg w = (lg', w') \<Longrightarrow> lg_stdout_ok lg \<Longrightarrow>
     lg_out lg' = lg_out lg @ concat (map (log_record fmt lg) ls) \<and> lg_stdout_ok lg' \<and> lg_service lg' = lg_service lg"
proof (induction ls arbitrary: lg w)
  case (Cons l ls)
  obtain e lg1 w1 where m: "multi_write (log_record fmt lg l) lg w = (e, lg1, w1)" by (metis prod_cases3)
  note s = multi_write_stdout [OF m Cons.prems(2)]
  have "log_lines fmt ls lg1 w1 = (lg', w')" using Cons.prems(1) m by (simp add: log_Printf_def)
  then show ?case using Cons.IH [of lg1 w1] s log_record_service [of lg1 lg fmt] by simp
qed simp

lemma log_lines_file:
  "log_lines fmt ls lg w = (lg', w') \<Longrightarrow> lg_stdout_ok lg \<Longrightarrow> lg_file lg = Some rf \<Longrightarrow>
     \<exists>outs rf'. rf_writes rf (map (log_record fmt lg) ls) w = (outs, rf', w') \<and> lg_file lg' = Some rf'"
proof (induction ls arbitrary: lg w rf)
  case (Cons l ls)
  obtain e lg1 w1 where m: "multi_write (log_record fmt lg l) lg w = (e, lg1, w1)" by (metis prod_cases3)
  note s = multi_write_stdout [OF m Cons.prems(2)]
  obtain n rf1 where f: "rf_Write rf (log_record fmt lg l) w = (n, e, rf1, w1)" "lg_file lg1 = Some rf1"
    using multi_write_file [OF m Cons.prems(2,3)] by blast
  have "log_lines fmt ls lg1 w1 = (lg', w')" using Cons.prems(1) m by (simp add: log_Printf_def)
  then obtain outs rf' where "rf_writes rf1 (map (log_record fmt lg) ls) w1 = (outs, rf', w')" "lg_file lg' = Some rf'"
    using Cons.IH [of lg1 w1 rf1] s f(2) log_record_service [of lg1 lg fmt] by auto
  then show ?case using f(1) by simp
qed simp

text \<open>C34: (invariant) No line is lost. Whatever happens to the log file, a full disk or a rotation that fails
  included, standard output gets the record of every line, in order. And on a disk that works the file gets them
  too: the current file and its older generations, oldest first, are an end of what was there followed by the
  records, and the last record is whole in the current file.\<close>

theorem log_lines_kept:
  assumes "log_lines fmt ls lg w = (lg', w')" "lg_stdout_ok lg" "ls \<noteq> []"
  shows "lg_out lg' = lg_out lg @ concat (map (log_record fmt lg) ls)
    \<and> (case lg_file lg of
         None \<Rightarrow> lg_file lg' = None
       | Some rf \<Rightarrow> rf_inv rf w \<longrightarrow>
           (\<exists>rf'. lg_file lg' = Some rf' \<and> rf_inv rf' w'
             \<and> suffix (history (rf_path rf) w' (nat (rf_maxFiles rf)))
                 (history (rf_path rf) w (nat (rf_maxFiles rf)) @ concat (map (log_record fmt lg) ls))
             \<and> suffix (log_record fmt lg (last ls)) (gen_bytes (rf_path rf) w' 0)))"
proof (cases "lg_file lg")
  case None
  have "lg_file lg' = None" using assms(1,2) None
  proof (induction ls arbitrary: lg w)
    case (Cons l ls)
    obtain e lg1 w1 where m: "multi_write (log_record fmt lg l) lg w = (e, lg1, w1)" by (metis prod_cases3)
    then have "lg_file lg1 = None" "lg_stdout_ok lg1" using Cons.prems by (auto simp: multi_write_def)
    then show ?case using Cons.IH [of lg1 w1] Cons.prems(1) m by (simp add: log_Printf_def)
  qed simp
  then show ?thesis using log_lines_stdout [OF assms(1,2)] None by simp
next
  case (Some rf)
  obtain outs rf' where w: "rf_writes rf (map (log_record fmt lg) ls) w = (outs, rf', w')" "lg_file lg' = Some rf'"
    using log_lines_file [OF assms(1,2) Some] by blast
  have "map (log_record fmt lg) ls \<noteq> []" using assms(3) by simp
  note h = log_history_kept [OF _ w(1) this]
  have "last (map (log_record fmt lg) ls) = log_record fmt lg (last ls)" using assms(3) by (rule last_map)
  then show ?thesis using log_lines_stdout [OF assms(1,2)] Some w(2) h by simp
qed

text \<open>Two lines to a log of ten bytes; the second starts a new generation.\<close>

theorem log_lines_kept_witness:
  "\<exists>rf w0 lg w. newRotatingFile log_file 10 2 log_world = (Inr rf, w0)
    \<and> log_lines (\<lambda>t sv msg. bytes_of msg) [(1, ''listening''), (2, ''swept'')]
        \<lparr>lg_service = ''file-share'', lg_out = [], lg_stdout_ok = True, lg_file = Some rf\<rparr> w0 = (lg, w)
    \<and> lg_out lg = bytes_of ''listeningswept'' \<and> suffix (bytes_of ''swept'') (gen_bytes log_file w 0)"
proof -
  obtain rf w0 where o: "newRotatingFile log_file 10 2 log_world = (Inr rf, w0)" "rf_inv rf w0" "rf_path rf = log_file"
    using log_opened by blast
  let ?lg = "\<lparr>lg_service = ''file-share'', lg_out = [], lg_stdout_ok = True, lg_file = Some rf\<rparr>"
  obtain lg w where l: "log_lines (\<lambda>t sv msg. bytes_of msg) [(1, ''listening''), (2, ''swept'')] ?lg w0 = (lg, w)"
    by (rule prod.exhaust)
  have rec: "log_record (\<lambda>t sv msg. bytes_of msg) ?lg (1, ''listening'') = bytes_of ''listening''"
    "log_record (\<lambda>t sv msg. bytes_of msg) ?lg (2, ''swept'') = bytes_of ''swept''"
    by (simp_all add: log_record_text as_line_def) code_simp+
  have "bytes_of ''listening'' @ bytes_of ''swept'' = bytes_of ''listeningswept''" by (simp add: bytes_of_def)
  then show ?thesis using log_lines_kept [OF l] o l by (auto simp: rec)
qed

end
