(* ===== verification/MainProg.thy ===== *)
theory MainProg
  imports LinkBurn LogSink
begin

text \<open>
  \<open>main.go\<close>: the flags that are checked at start-up, the key source and the store built from them,
  and the routes of the HTTP server with the CORS wrapper of \<open>server.go\<close>.
\<close>

subsection \<open>Routing\<close>

text \<open>The handlers a request can reach.  The mux answers a path it knows under other methods with 405.\<close>

datatype route =
    ToWebSocket
  | ToStart
  | ToChunkUpload string string
  | ToChunkDownload string string
  | ToMeta string
  | ToDelete string
  | MethodNotAllowed
  | NotFound

text \<open>
  \<open>mux_route method segs\<close>: the path as its segments, decoded, as \<open>http.ServeMux\<close> matches them.  A
  wildcard matches one segment that is not empty, \<open>GET\<close> patterns match \<open>HEAD\<close> too, and of two
  patterns that match the more specific wins.  (A path that is not clean is redirected to its clean
  form before any of this.)
\<close>

definition mux_route :: "string \<Rightarrow> string list \<Rightarrow> route" where
  "mux_route method segs =
     (case segs of
        [a] \<Rightarrow> if a = ''ws'' then ToWebSocket else NotFound
      | [a, i] \<Rightarrow>
         (if a \<noteq> ''link'' \<or> i = [] then NotFound
          else if i = ''start'' \<and> method \<in> {''POST'', ''OPTIONS''} then ToStart
          else if method \<in> {''DELETE'', ''OPTIONS''} then ToDelete i
          else MethodNotAllowed)
      | [a, i, b] \<Rightarrow>
         (if a \<noteq> ''link'' \<or> i = [] \<or> b \<noteq> ''meta'' then NotFound
          else if method \<in> {''GET'', ''HEAD''} then ToMeta i
          else MethodNotAllowed)
      | [a, i, b, k] \<Rightarrow>
         (if a \<noteq> ''link'' \<or> i = [] \<or> b \<noteq> ''chunk'' \<or> k = [] then NotFound
          else if method \<in> {''PUT'', ''OPTIONS''} then ToChunkUpload i k
          else if method \<in> {''GET'', ''HEAD''} then ToChunkDownload i k
          else MethodNotAllowed)
      | _ \<Rightarrow> NotFound)"

text \<open>A request; \<open>rq_conn_ok\<close> is whether the connection takes the response.\<close>

record http_req =
  rq_method :: string
  rq_path :: "string list"
  rq_manage :: string
  rq_body :: http_body
  rq_conn_ok :: bool

text \<open>The clock as a handler reads it: seconds for the key source and the token, nanoseconds for the
  store.\<close>

record clock =
  t_key :: int
  t_token :: int
  t_store :: int

text \<open>A response of the link surface, and whether it carries the CORS headers.\<close>

datatype http_response = Response (resp_cors: bool) (resp_reply: http_reply)

definition withLinkCORS :: "string \<Rightarrow> (unit \<Rightarrow> http_reply \<times> 'a) \<Rightarrow> 'a \<Rightarrow> http_response \<times> 'a" where
  "withLinkCORS method h x =
     (if method = ''OPTIONS'' then (Response True NoContent, x)
      else (case h () of (r, y) \<Rightarrow> (Response True r, y)))"

text \<open>\<open>w.Write\<close> in a handler: the server discards the body of an answer to \<open>HEAD\<close> and reports
  success.\<close>

definition write_ok :: "http_req \<Rightarrow> bool" where
  "write_ok rq \<longleftrightarrow> rq_method rq = ''HEAD'' \<or> rq_conn_ok rq"

text \<open>The bytes of a chunk that reach the client.\<close>

definition delivered :: "http_req \<Rightarrow> http_response \<Rightarrow> bytes" where
  "delivered rq resp =
     (case resp_reply resp of
        DataReply b \<Rightarrow> if rq_method rq = ''HEAD'' \<or> \<not> rq_conn_ok rq then [] else b
      | _ \<Rightarrow> [])"

text \<open>One request to the link surface; what is not of it (\<open>/ws\<close>) is refused here.\<close>

definition serve_link :: "deps \<Rightarrow> string \<Rightarrow> brokerKeySource \<Rightarrow> clock \<Rightarrow> http_req \<Rightarrow> bytes \<times> state
     \<Rightarrow> http_response \<times> bytes \<times> state" where
  "serve_link d minTier ks t rq z =
     (case z of (rnd, x) \<Rightarrow>
        (case mux_route (rq_method rq) (rq_path rq) of
           ToStart \<Rightarrow> withLinkCORS (rq_method rq)
             (\<lambda>_. handleLinkStart d minTier ks (t_key t) (t_token t) (t_store t) (rq_body rq) rnd x) (rnd, x)
         | ToChunkUpload i k \<Rightarrow> withLinkCORS (rq_method rq)
             (\<lambda>_. case handleLinkChunkUpload d (t_store t) i k (rq_manage rq) (rq_body rq) x of
                    (r, y) \<Rightarrow> (r, rnd, y)) (rnd, x)
         | ToChunkDownload i k \<Rightarrow> withLinkCORS (rq_method rq)
             (\<lambda>_. case handleLinkChunkDownload d (t_store t) i k (write_ok rq) x of (r, y) \<Rightarrow> (r, rnd, y)) (rnd, x)
         | ToMeta i \<Rightarrow> withLinkCORS (rq_method rq) (\<lambda>_. (handleLinkMeta (fst x) i, rnd, x)) (rnd, x)
         | ToDelete i \<Rightarrow> withLinkCORS (rq_method rq)
             (\<lambda>_. case handleLinkDelete i (rq_manage rq) x of (r, y) \<Rightarrow> (r, rnd, y)) (rnd, x)
         | ToWebSocket \<Rightarrow> (Response False (HttpError 404 ''404 page not found''), rnd, x)
         | MethodNotAllowed \<Rightarrow> (Response False (HttpError 405 ''Method Not Allowed''), rnd, x)
         | NotFound \<Rightarrow> (Response False (HttpError 404 ''404 page not found''), rnd, x)))"

subsection \<open>Start-up\<close>

record flags =
  fl_addr :: string
  fl_dataDir :: string
  fl_ttl :: int
  fl_brokerPub :: string
  fl_brokerRoot :: string
  fl_brokerURL :: string
  fl_minTier :: string

text \<open>The defaults, some of them from the environment \<open>env\<close>.\<close>

definition default_flags :: "(string \<Rightarrow> string) \<Rightarrow> flags" where
  "default_flags env =
     \<lparr>fl_addr = '':9001'', fl_dataDir = ''./data'', fl_ttl = 7 * 24 * hour, fl_brokerPub = env ''BROKER_PUBKEY'',
      fl_brokerRoot = env ''BROKER_ROOT_PUBKEY'', fl_brokerURL = env ''BROKER_URL'', fl_minTier = ''paid''\<rparr>"

text \<open>\<open>flag.Parse\<close>: a flag that is not known, has no value or (the duration, read by \<open>dur\<close>) one that does
  not parse ends the program; what comes after the flags is ignored.\<close>

definition set_flag :: "(string \<Rightarrow> int option) \<Rightarrow> string \<Rightarrow> string \<Rightarrow> flags \<Rightarrow> flags option" where
  "set_flag dur name v fl =
     (if name = ''addr'' then Some (fl\<lparr>fl_addr := v\<rparr>)
      else if name = ''data-dir'' then Some (fl\<lparr>fl_dataDir := v\<rparr>)
      else if name = ''ttl'' then (case dur v of None \<Rightarrow> None | Some t \<Rightarrow> Some (fl\<lparr>fl_ttl := t\<rparr>))
      else if name = ''broker-pubkey'' then Some (fl\<lparr>fl_brokerPub := v\<rparr>)
      else if name = ''broker-root-pubkey'' then Some (fl\<lparr>fl_brokerRoot := v\<rparr>)
      else if name = ''broker-url'' then Some (fl\<lparr>fl_brokerURL := v\<rparr>)
      else if name = ''min-tier'' then Some (fl\<lparr>fl_minTier := v\<rparr>)
      else None)"

fun parse_flags :: "(string \<Rightarrow> int option) \<Rightarrow> string list \<Rightarrow> flags \<Rightarrow> flags option" where
  "parse_flags dur [] fl = Some fl"
| "parse_flags dur (a # rest) fl =
     (if length a < 2 \<or> hd a \<noteq> CHR ''-'' \<or> a = ''--'' then Some fl
      else
        (let name = (if hd (tl a) = CHR ''-'' then drop 2 a else drop 1 a)
         in if name = [] \<or> hd name = CHR ''-'' \<or> hd name = CHR ''='' then None
            else if CHR ''='' \<in> set name then
              (case set_flag dur (takeWhile (\<lambda>ch. ch \<noteq> CHR ''='') name) (tl (dropWhile (\<lambda>ch. ch \<noteq> CHR ''='') name)) fl of
                 None \<Rightarrow> None
               | Some fl1 \<Rightarrow> parse_flags dur rest fl1)
            else
              (case rest of
                 [] \<Rightarrow> None
               | v # rest1 \<Rightarrow>
                  (case set_flag dur name v fl of None \<Rightarrow> None | Some fl1 \<Rightarrow> parse_flags dur rest1 fl1))))"

text \<open>The key source the flags ask for, or the message of \<open>log.Fatal\<close> (the escapes of \<open>%q\<close> inside its
  quotes are left out).  \<open>got\<close> is what fetching the delegate certificate gives.\<close>

definition pinned_key :: "string \<Rightarrow> bytes option" where
  "pinned_key s = (case unb64 s of None \<Rightarrow> None | Some raw \<Rightarrow> if length raw = 32 then Some raw else None)"

definition key_source :: "deps \<Rightarrow> (bytes \<Rightarrow> delegateCertBody option) \<Rightarrow> flags \<Rightarrow> http_resp res \<Rightarrow> int
     \<Rightarrow> string + brokerKeySource" where
  "key_source d decCert fl got now =
     (if fl_brokerRoot fl \<noteq> [] then
        (case pinned_key (fl_brokerRoot fl) of
           None \<Rightarrow> Inl ''-broker-root-pubkey is not a valid base64 Ed25519 public key''
         | Some root \<Rightarrow>
            (if fl_brokerURL fl = [] then
               Inl (''-broker-url (or BROKER_URL) is required when -broker-root-pubkey is set '' @ em_dash
                    @ '' file-share needs it to fetch the delegate certificate'')
             else
               (case newDelegateKeySource (d_crypto d) decCert got root now of
                  Inl e \<Rightarrow> Inl (''resolving broker'' @ [CHR 0x27] @ ''s delegate key against pinned root: '' @ error_text e)
                | Inr ks \<Rightarrow> Inr ks)))
      else if fl_brokerPub fl = [] then Inl (''-broker-pubkey (or BROKER_PUBKEY) is required '' @ em_dash
          @ '' file-share needs it to verify access tokens'')
      else
        (case pinned_key (fl_brokerPub fl) of
           None \<Rightarrow> Inl ''-broker-pubkey is not a valid base64 Ed25519 public key''
         | Some pub \<Rightarrow> Inr (newStaticKeySource pub)))"

definition start_server :: "deps \<Rightarrow> (bytes \<Rightarrow> delegateCertBody option) \<Rightarrow> flags \<Rightarrow> http_resp res \<Rightarrow> int
     \<Rightarrow> world \<Rightarrow> string + (brokerKeySource \<times> state)" where
  "start_server d decCert fl got now w =
     (if fl_minTier fl \<noteq> ''free'' \<and> fl_minTier fl \<noteq> ''paid'' then
        Inl (''-min-tier must be free or paid, got '' @ CHR 0x22 # fl_minTier fl @ [CHR 0x22])
      else
        (case key_source d decCert fl got now of
           Inl e \<Rightarrow> Inl e
         | Inr ks \<Rightarrow>
            (case newStore (d_meta d) (fl_dataDir fl) (fl_ttl fl) w of
               (Inl e, w1) \<Rightarrow> Inl (''initializing store: '' @ error_text e)
             | (Inr s, w1) \<Rightarrow> Inr (ks, (s, w1)))))"

text \<open>\<open>main\<close> up to the point where it listens: the flags, the logger, the checks.  It ends with the usage,
  with \<open>log.Fatal\<close> (which does not run the deferred \<open>closeLogging\<close>), or as a server.\<close>

datatype startup = UsageExit | Fatal string | Running flags brokerKeySource logger state

definition run_main :: "deps \<Rightarrow> (string \<Rightarrow> int option) \<Rightarrow> (bytes \<Rightarrow> delegateCertBody option) \<Rightarrow> (string \<Rightarrow> string)
     \<Rightarrow> string list \<Rightarrow> http_resp res \<Rightarrow> int \<Rightarrow> world \<Rightarrow> startup" where
  "run_main d dur decCert env args got now w =
     (case parse_flags dur args (default_flags env) of
        None \<Rightarrow> UsageExit
      | Some fl \<Rightarrow>
         (case installed_logger env ''file-share'' w of (lg, w1) \<Rightarrow>
            (case start_server d decCert fl got now w1 of
               Inl msg \<Rightarrow> Fatal msg
             | Inr (ks, x) \<Rightarrow> Running fl ks lg x)))"

text \<open>\<open>sweepOnce\<close>: one turn of the sweeping loop (its \<open>recover\<close> has nothing to do in a model where no
  operation panics).\<close>

definition sweepOnce :: "deps \<Rightarrow> int \<Rightarrow> state \<Rightarrow> state" where
  "sweepOnce d now x = sweep (d_iter d) now (fst x) (snd x)"

subsection \<open>Facts\<close>

lemma pinned_key_length: "pinned_key s = Some k \<Longrightarrow> length k = 32"
  by (auto simp: pinned_key_def split: option.splits if_splits)

lemma start_server_keys:
  assumes "start_server d decCert fl got now w = Inr (ks, x)" "0 < now"
  shows "fl_minTier fl \<in> {''free'', ''paid''} \<and> length (ks_pub ks) = 32
    \<and> (if fl_brokerRoot fl = [] then unb64 (fl_brokerPub fl) = Some (ks_pub ks) \<and> ks_expiresAt ks = 0
       else \<exists>root. unb64 (fl_brokerRoot fl) = Some root \<and> key_source_inv (d_crypto d) decCert root ks)"
  using assms newDelegate_inv [of "d_crypto d" decCert got _ now ks]
  by (auto simp: start_server_def key_source_def newStaticKeySource_def pinned_key_def key_source_inv_def
      root_certified_def split: if_splits sum.splits option.splits prod.splits)

lemma run_main_Running:
  assumes "run_main d dur decCert env args got now w = Running fl ks lg x"
  obtains w1 where "parse_flags dur args (default_flags env) = Some fl"
    "installed_logger env ''file-share'' w = (lg, w1)" "start_server d decCert fl got now w1 = Inr (ks, x)"
  using assms by (auto simp: run_main_def split: option.splits prod.splits sum.splits)

text \<open>A preflight changes nothing and is always answered.\<close>

lemma preflight:
  assumes "rq_method rq = ''OPTIONS''"
    "mux_route (rq_method rq) (rq_path rq) \<in> {ToStart, ToChunkUpload i k, ToDelete i}"
  shows "serve_link d minTier ks t rq z = (Response True NoContent, z)"
  using assms by (cases z) (auto simp: serve_link_def withLinkCORS_def)

text \<open>Who reaches which route: a request that names one transfer reaches handlers of that id only.\<close>

lemma mux_route_id:
  "mux_route method segs = ToChunkUpload i k \<Longrightarrow> segs = [''link'', i, ''chunk'', k]"
  "mux_route method segs = ToChunkDownload i k \<Longrightarrow> segs = [''link'', i, ''chunk'', k] \<and> method \<in> {''GET'', ''HEAD''}"
  "mux_route method segs = ToDelete i \<Longrightarrow> segs = [''link'', i]"
  "mux_route method segs = ToMeta i \<Longrightarrow> segs = [''link'', i, ''meta'']"
  by (auto simp: mux_route_def split: list.splits if_splits)

end
