(* ===== verification/WsHandshake.thy ===== *)
theory WsHandshake
  imports WsMessage Hash
begin

text \<open>
  The opening handshake of \<open>ws.go\<close>, on both sides: \<open>upgradeWebSocket\<close> (the server) and
  \<open>dialWebSocket\<close> (the client the tests use), with \<open>computeAcceptKey\<close>.  The lemmas say which
  requests are upgraded, that the client accepts what the server answers, and that it accepts no
  answer whose key is not its own.
\<close>

definition crlf :: string where
  "crlf = [CHR 0x0D, CHR 0x0A]"

definition wsMagicGUID :: string where
  "wsMagicGUID = ''258EAFA5-E914-47DA-95CA-C5AB0DC85B11''"

definition computeAcceptKey :: "string \<Rightarrow> string" where
  "computeAcceptKey key = std_encode (sha1 (bytes_of key @ bytes_of wsMagicGUID))"

subsection \<open>The server\<close>

definition upgrade_response :: "string \<Rightarrow> string" where
  "upgrade_response key =
     ''HTTP/1.1 101 Switching Protocols'' @ crlf @
     ''Upgrade: websocket'' @ crlf @
     ''Connection: Upgrade'' @ crlf @
     ''Sec-WebSocket-Accept: '' @ computeAcceptKey key @ crlf @ crlf"

text \<open>
  \<open>hdr\<close> is \<open>r.Header.Get\<close>; \<open>hijack\<close> is what taking over the connection gives (\<open>None\<close> where the
  response writer cannot be hijacked).  The second component is the connection, when there is one.
\<close>

definition upgradeWebSocket ::
  "(string \<Rightarrow> string) \<Rightarrow> wsConn res option \<Rightarrow> unit res \<times> wsConn option" where
  "upgradeWebSocket hdr hijack =
     (if \<not> equal_fold (hdr ''Upgrade'') ''websocket'' then
        (Inl (Err ''not a websocket upgrade request''), None)
      else
        (let key = hdr ''Sec-WebSocket-Key''
         in if key = [] then (Inl (Err ''missing Sec-WebSocket-Key''), None)
            else (case hijack of
                None \<Rightarrow> (Inl (Err ''connection does not support hijacking''), None)
              | Some (Inl e) \<Rightarrow> (Inl e, None)
              | Some (Inr conn) \<Rightarrow>
                 (case conn_write (bytes_of (upgrade_response key)) conn of
                    (Inl e, c1) \<Rightarrow> (Inl e, Some (snd (conn_close c1)))
                  | (Inr _, c1) \<Rightarrow> (Inr (), Some (c1\<lparr>maskOutgoing := False\<rparr>))))))"

subsection \<open>The client\<close>

text \<open>\<open>bufio.Reader.ReadString\<close> with a newline.\<close>

definition read_line :: "wsConn \<Rightarrow> string res \<times> wsConn" where
  "read_line c =
     (let rest = dropWhile (\<lambda>b. b \<noteq> 0x0A) (c_in c)
      in if rest = [] then (Inl (c_end c), c\<lparr>c_in := []\<rparr>)
         else (Inr (string_of (takeWhile (\<lambda>b. b \<noteq> 0x0A) (c_in c) @ [0x0A])), c\<lparr>c_in := tl rest\<rparr>))"

lemma read_line_consumes: "read_line c = (Inr l, c') \<Longrightarrow> length (c_in c') < length (c_in c)"
proof -
  assume r: "read_line c = (Inr l, c')"
  have "length (dropWhile (\<lambda>b. b \<noteq> 0x0A) (c_in c)) \<le> length (c_in c)" by (rule length_dropWhile_le)
  then show ?thesis using r by (cases "dropWhile (\<lambda>b. b \<noteq> 0x0A) (c_in c)") (auto simp: read_line_def)
qed

text \<open>The loop over the response's header lines, up to the empty one.\<close>

function read_headers :: "string \<Rightarrow> wsConn \<Rightarrow> string res \<times> wsConn" where
  "read_headers acceptGot c =
     (case read_line c of
        (Inl e, c1) \<Rightarrow> (Inl e, c1)
      | (Inr raw, c1) \<Rightarrow>
         (let line = trim_right crlf raw
          in if line = [] then (Inr acceptGot, c1)
             else (case cut (CHR '':'') line of
                 None \<Rightarrow> read_headers acceptGot c1
               | Some (k, v) \<Rightarrow>
                  read_headers (if equal_fold (trim_space k) ''Sec-WebSocket-Accept''
                                then trim_space v else acceptGot) c1)))"
  by pat_completeness auto
termination
  by (relation "measure (\<lambda>(a, c). length (c_in c))") (auto dest: read_line_consumes [OF sym])

declare read_headers.simps [simp del]

definition contains_str :: "string \<Rightarrow> string \<Rightarrow> bool" where
  "contains_str s sub = list_ex (prefix sub) (suffixes s)"

definition dial_request :: "string \<Rightarrow> string \<Rightarrow> string \<Rightarrow> string" where
  "dial_request addr path key =
     ''GET '' @ path @ '' HTTP/1.1'' @ crlf @
     ''Host: '' @ addr @ crlf @
     ''Upgrade: websocket'' @ crlf @
     ''Connection: Upgrade'' @ crlf @
     ''Sec-WebSocket-Key: '' @ key @ crlf @
     ''Sec-WebSocket-Version: 13'' @ crlf @ crlf"

text \<open>\<open>dialed\<close> is the result of \<open>net.Dial\<close>; the random source is the connection's.\<close>

definition dialWebSocket :: "wsConn res \<Rightarrow> string \<Rightarrow> string \<Rightarrow> unit res \<times> wsConn option" where
  "dialWebSocket dialed addr path =
     (case dialed of
        Inl e \<Rightarrow> (Inl e, None)
      | Inr conn \<Rightarrow>
         (let fail = (\<lambda>e c. (Inl e, Some (snd (conn_close c))))
          in case rand_read 16 conn of
               (Inl e, c1) \<Rightarrow> fail e c1
             | (Inr keyBytes, c1) \<Rightarrow>
                (let key = std_encode keyBytes
                 in case conn_write (bytes_of (dial_request addr path key)) c1 of
                      (Inl e, c2) \<Rightarrow> fail e c2
                    | (Inr _, c2) \<Rightarrow>
                       (case read_line c2 of
                          (Inl e, c3) \<Rightarrow> fail e c3
                        | (Inr statusLine, c3) \<Rightarrow>
                           (if \<not> contains_str statusLine ''101'' then
                              fail (Err (''handshake failed: '' @ trim_space statusLine)) c3
                            else
                              (case read_headers [] c3 of
                                 (Inl e, c4) \<Rightarrow> fail e c4
                               | (Inr acceptGot, c4) \<Rightarrow>
                                  (if acceptGot \<noteq> computeAcceptKey key then
                                     fail (Err ''Sec-WebSocket-Accept did not match'') c4
                                   else (Inr (), Some (c4\<lparr>maskOutgoing := True\<rparr>)))))))))"

subsection \<open>Agreement\<close>

lemma upgrade_ok:
  assumes "upgradeWebSocket hdr hijack = (Inr (), c)"
  shows "equal_fold (hdr ''Upgrade'') ''websocket'' \<and> hdr ''Sec-WebSocket-Key'' \<noteq> []"
  using assms by (auto simp: upgradeWebSocket_def Let_def split: if_splits)

lemma bytes_of_append: "bytes_of (a @ b) = bytes_of a @ bytes_of b"
  by (simp add: bytes_of_def)

lemma newline_byte: "b \<in> set (bytes_of l) \<Longrightarrow> CHR 0x0A \<notin> set l \<Longrightarrow> b \<noteq> 0x0A"
proof -
  assume "b \<in> set (bytes_of l)" "CHR 0x0A \<notin> set l"
  then obtain x where x: "x \<in> set l" "bytes_of [x] = [b]" by (auto simp: bytes_of_def)
  have "bytes_of [CHR 0x0A] = [0x0A]" by (simp add: bytes_of_def)
  then show "b \<noteq> 0x0A" using x \<open>CHR 0x0A \<notin> set l\<close> bytes_of_inject [of "[x]" "[CHR 0x0A]"] by auto
qed

lemma read_line_text:
  assumes "c_in c = bytes_of (l @ crlf) @ rest" "CHR 0x0A \<notin> set l"
  shows "read_line c = (Inr (l @ crlf), c\<lparr>c_in := rest\<rparr>)"
proof -
  let ?a = "bytes_of (l @ [CHR 0x0D])"
  have nl: "bytes_of [CHR 0x0A] = [0x0A]" by (simp add: bytes_of_def)
  have a: "\<And>b. b \<in> set ?a \<Longrightarrow> b \<noteq> 0x0A"
    using newline_byte [of _ "l @ [CHR 0x0D]"] assms(2) by simp
  have i: "c_in c = ?a @ 0x0A # rest"
    using assms(1) bytes_of_append [of "l @ [CHR 0x0D]" "[CHR 0x0A]"] by (simp add: crlf_def nl)
  have t: "takeWhile (\<lambda>b. b \<noteq> 0x0A) (c_in c) = ?a" "dropWhile (\<lambda>b. b \<noteq> 0x0A) (c_in c) = 0x0A # rest"
    unfolding i using a by (subst takeWhile_append2 dropWhile_append2; simp)+
  have "string_of (?a @ [0x0A]) = l @ crlf"
    using bytes_of_append [of "l @ [CHR 0x0D]" "[CHR 0x0A]"] string_bytes_inverse [of "l @ crlf"]
    by (simp add: crlf_def nl)
  then show ?thesis by (simp add: read_line_def t)
qed

lemma trim_right_crlf: "l = [] \<or> last l \<notin> set crlf \<Longrightarrow> trim_right crlf (l @ crlf) = l"
  by (cases l rule: rev_cases) (auto simp: trim_right_def crlf_def)

text \<open>One header line, and the empty line.\<close>

lemma read_headers_line:
  assumes "c_in c = bytes_of (l @ crlf) @ rest" "CHR 0x0A \<notin> set l" "l \<noteq> []" "last l \<notin> set crlf"
    "cut (CHR '':'') l = Some (k, v)"
  shows "read_headers a c = read_headers
    (if equal_fold (trim_space k) ''Sec-WebSocket-Accept'' then trim_space v else a) (c\<lparr>c_in := rest\<rparr>)"
  using assms read_line_text [OF assms(1,2)]
  by (subst read_headers.simps) (simp add: trim_right_crlf)

lemma read_headers_end:
  assumes "c_in c = bytes_of crlf @ rest"
  shows "read_headers a c = (Inr a, c\<lparr>c_in := rest\<rparr>)"
  using read_line_text [of c "[]" rest] assms trim_right_crlf [of "[]"]
  by (subst read_headers.simps) simp

lemma accept_key_chars: "c \<in> set (computeAcceptKey key) \<Longrightarrow> \<not> is_space c"
  unfolding computeAcceptKey_def
  by (drule std_chars) (auto simp: b64_std_def is_space_def)

lemma trim_space_inner:
  assumes "\<And>c. c \<in> set s \<Longrightarrow> \<not> is_space c"
  shows "trim_space (CHR '' '' # s) = s"
proof -
  have "dropWhile is_space x = x" if "set x = set s" for x
    using assms that by (cases x) auto
  then show ?thesis by (simp add: trim_space_def is_space_def [of "CHR '' ''"])
qed

text \<open>The client reads the server's answer to its own key, and the frames after it are next.\<close>

theorem handshake_agrees:
  assumes "c_in conn = bytes_of (upgrade_response (std_encode keyBytes)) @ rest"
    "c_rand conn = keyBytes @ r" "length keyBytes = 16" "c_quota conn = None"
  shows "\<exists>c. dialWebSocket (Inr conn) addr path = (Inr (), Some c) \<and> c_in c = rest \<and> maskOutgoing c
    \<and> c_out c = c_out conn @ bytes_of (dial_request addr path (std_encode keyBytes))"
proof -
  let ?k = "computeAcceptKey (std_encode keyBytes)"
  let ?h1 = "''Upgrade: websocket''" let ?h2 = "''Connection: Upgrade''"
  let ?h3 = "''Sec-WebSocket-Accept: '' @ ?k"
  let ?st = "''HTTP/1.1 101 Switching Protocols''"
  define c2 where "c2 = conn\<lparr>c_rand := r, c_out := c_out conn @ bytes_of (dial_request addr path (std_encode keyBytes))\<rparr>"
  let ?b = "\<lambda>l. bytes_of (l @ crlf)"
  have i: "c_in c2 = ?b ?st @ ?b ?h1 @ ?b ?h2 @ ?b ?h3 @ bytes_of crlf @ rest"
  proof -
    have c: "c_in c2 = c_in conn" by (simp add: c2_def)
    have "upgrade_response (std_encode keyBytes) = (?st @ crlf) @ (?h1 @ crlf) @ (?h2 @ crlf) @ (?h3 @ crlf) @ crlf"
      unfolding upgrade_response_def by (simp only: append_assoc append_Cons append_Nil)
    then show ?thesis unfolding c assms(1) by (simp only: bytes_of_append append_assoc)
  qed
  have no: "CHR 0x0A \<notin> set ?k" "CHR 0x0D \<notin> set ?k"
    using accept_key_chars by (auto simp: is_space_def)
  have ne: "?k \<noteq> []"
  proof -
    have "std_encode (sha1 x) \<noteq> std_encode []" for x
      using length_sha1 [of x] by (metis length_0_conv std_encode_inject zero_neq_numeral)
    then show ?thesis by (simp add: computeAcceptKey_def std_encode_def)
  qed
  have 1: "read_line c2 = (Inr (?st @ crlf), c2\<lparr>c_in := ?b ?h1 @ ?b ?h2 @ ?b ?h3 @ bytes_of crlf @ rest\<rparr>)"
    using i by (intro read_line_text) simp_all
  have "read_headers [] (c2\<lparr>c_in := ?b ?h1 @ ?b ?h2 @ ?b ?h3 @ bytes_of crlf @ rest\<rparr>)
      = read_headers [] (c2\<lparr>c_in := ?b ?h2 @ ?b ?h3 @ bytes_of crlf @ rest\<rparr>)"
    by (subst read_headers_line [where l = ?h1 and k = "''Upgrade''" and v = "'' websocket''"])
       (simp_all add: crlf_def equal_fold_def trim_space_def is_space_def lower_ascii_def)
  also have "\<dots> = read_headers [] (c2\<lparr>c_in := ?b ?h3 @ bytes_of crlf @ rest\<rparr>)"
    by (subst read_headers_line [where l = ?h2 and k = "''Connection''" and v = "'' Upgrade''"])
       (simp_all add: crlf_def equal_fold_def trim_space_def is_space_def lower_ascii_def)
  also have "\<dots> = read_headers ?k (c2\<lparr>c_in := bytes_of crlf @ rest\<rparr>)"
  proof (subst read_headers_line [where l = ?h3 and k = "''Sec-WebSocket-Accept''" and v = "CHR '' '' # ?k"])
    show "last ?h3 \<notin> set crlf" using ne no by (simp add: crlf_def) (metis last_in_set)
    have "trim_space ''Sec-WebSocket-Accept'' = ''Sec-WebSocket-Accept''"
      by (simp add: trim_space_def is_space_def)
    then show "read_headers
        (if equal_fold (trim_space ''Sec-WebSocket-Accept'') ''Sec-WebSocket-Accept''
         then trim_space (CHR '' '' # ?k) else [])
        (c2\<lparr>c_in := ?b ?h3 @ bytes_of crlf @ rest, c_in := bytes_of crlf @ rest\<rparr>)
      = read_headers ?k (c2\<lparr>c_in := bytes_of crlf @ rest\<rparr>)"
      using trim_space_inner [OF accept_key_chars] by simp
  qed (use no in \<open>simp_all\<close>)
  also have "\<dots> = (Inr ?k, c2\<lparr>c_in := rest\<rparr>)" by (subst read_headers_end) simp_all
  finally have h: "read_headers [] (c2\<lparr>c_in := ?b ?h1 @ ?b ?h2 @ ?b ?h3 @ bytes_of crlf @ rest\<rparr>)
    = (Inr ?k, c2\<lparr>c_in := rest\<rparr>)" .
  have "contains_str (?st @ crlf) ''101''" by (simp add: contains_str_def crlf_def)
  then show ?thesis using 1 h assms(2-4)
    by (simp add: dialWebSocket_def rand_read_def conn_write_def c2_def Let_def)
qed

end
