(* ===== verification/System.thy ===== *)
theory System
  imports MainProg WsHandshake
begin

text \<open>
  The running server: the store all handlers share, the key source, and the sessions, moved by
  connections, messages, link requests, the sweep and the key refresh, in any order.  One event is
  one handler's run (\<open>Concurrency\<close> looks inside \<open>writeChunk\<close>).  The lemmas say what holds in every
  reachable state, and who can change a stored transfer.
\<close>

subsection \<open>States and events\<close>

text \<open>\<open>cf_root\<close> is the pinned root key in delegate mode; without one, \<open>cf_pub\<close> is the broker's key.\<close>

record sconf =
  cf_deps :: deps
  cf_minTier :: string
  cf_root :: "bytes option"
  cf_pub :: bytes
  cf_decCert :: "bytes \<Rightarrow> delegateCertBody option"

record session =
  ss_user :: string
  ss_token :: clientToken
  ss_conn :: wsConn

record server =
  sv_keys :: brokerKeySource
  sv_store :: state
  sv_sessions :: "(nat, session) gomap"

datatype event =
    EvConnect nat "string \<Rightarrow> string" "wsConn res option" int int
  | EvTurn nat int
  | EvExpire nat nat int
  | EvLink http_req clock bytes
  | EvSweep int
  | EvRefresh "http_resp res" int

text \<open>\<open>handleWS\<close> up to its loop: the upgrade, then the handshake.\<close>

definition accept :: "sconf \<Rightarrow> brokerKeySource \<Rightarrow> (string \<Rightarrow> string) \<Rightarrow> wsConn res option \<Rightarrow> int \<Rightarrow> int
     \<Rightarrow> session option" where
  "accept cf ks hdr hijack now1 now2 =
     (case upgradeWebSocket hdr hijack of
        (Inr _, Some c) \<Rightarrow>
          (case authenticate (cf_deps cf) (cf_minTier cf) ks now1 now2 c of
             (Inr (u, tok), c1) \<Rightarrow> Some \<lparr>ss_user = u, ss_token = tok, ss_conn = c1\<rparr>
           | (Inl _, c1) \<Rightarrow> None)
      | _ \<Rightarrow> None)"

inductive sys_step :: "sconf \<Rightarrow> event \<Rightarrow> server \<Rightarrow> server \<Rightarrow> bool" for cf where
  Connect: "accept cf (sv_keys sv) hdr hijack now1 now2 = Some ss \<Longrightarrow> mget (sv_sessions sv) k = None \<Longrightarrow>
    sys_step cf (EvConnect k hdr hijack now1 now2) sv (sv\<lparr>sv_sessions := mput k ss (sv_sessions sv)\<rparr>)"
| Refuse: "accept cf (sv_keys sv) hdr hijack now1 now2 = None \<Longrightarrow>
    sys_step cf (EvConnect k hdr hijack now1 now2) sv sv"
| Turn: "mget (sv_sessions sv) k = Some ss \<Longrightarrow>
    session_turn (cf_deps cf) now (ss_user ss) (ss_conn ss) (sv_store sv) = (True, c, x) \<Longrightarrow>
    sys_step cf (EvTurn k now) sv
      (sv\<lparr>sv_store := x, sv_sessions := mput k (ss\<lparr>ss_conn := c\<rparr>) (sv_sessions sv)\<rparr>)"
| Leave: "mget (sv_sessions sv) k = Some ss \<Longrightarrow>
    session_turn (cf_deps cf) now (ss_user ss) (ss_conn ss) (sv_store sv) = (False, c, x) \<Longrightarrow>
    sys_step cf (EvTurn k now) sv (sv\<lparr>sv_store := x, sv_sessions := mdel k (sv_sessions sv)\<rparr>)"
| Expire: "mget (sv_sessions sv) k = Some ss \<Longrightarrow> ExpiresAt (ss_token ss) \<le> now \<Longrightarrow>
    sys_step cf (EvExpire k n now) sv
      (sv\<lparr>sv_sessions := mput k (ss\<lparr>ss_conn := session_expire (cf_deps cf) n (ss_conn ss)\<rparr>) (sv_sessions sv)\<rparr>)"
| Link: "serve_link (cf_deps cf) (cf_minTier cf) (sv_keys sv) t rq (rnd, sv_store sv) = (resp, rnd', x) \<Longrightarrow>
    sys_step cf (EvLink rq t rnd) sv (sv\<lparr>sv_store := x\<rparr>)"
| Sweep: "sys_step cf (EvSweep now) sv (sv\<lparr>sv_store := sweepOnce (cf_deps cf) now (sv_store sv)\<rparr>)"
| Refresh: "cf_root cf = Some root \<Longrightarrow> 0 < now \<Longrightarrow>
    sys_step cf (EvRefresh got now) sv
      (sv\<lparr>sv_keys := refresh_tick (d_crypto (cf_deps cf)) (cf_decCert cf) root (got, now) (sv_keys sv)\<rparr>)"

inductive sys_reach :: "sconf \<Rightarrow> server \<Rightarrow> server \<Rightarrow> bool" for cf sv0 where
  Start: "sys_reach cf sv0 sv0"
| Step: "sys_reach cf sv0 sv \<Longrightarrow> sys_step cf ev sv sv' \<Longrightarrow> sys_reach cf sv0 sv'"

inductive_cases ConnectE [elim]: "sys_step cf (EvConnect k hdr hijack now1 now2) sv sv'"
inductive_cases TurnE [elim]: "sys_step cf (EvTurn k now) sv sv'"
inductive_cases ExpireE [elim]: "sys_step cf (EvExpire k n now) sv sv'"
inductive_cases LinkE [elim]: "sys_step cf (EvLink rq t rnd) sv sv'"
inductive_cases SweepE [elim]: "sys_step cf (EvSweep now) sv sv'"
inductive_cases RefreshE [elim]: "sys_step cf (EvRefresh got now) sv sv'"

subsection \<open>The invariant\<close>

text \<open>What every session has shown: an identity, and a token of the required tier and plan that was
  valid, under the key in force, when it connected.\<close>

definition entitled :: "sconf \<Rightarrow> session \<Rightarrow> bool" where
  "entitled cf ss \<longleftrightarrow> ss_user ss \<noteq> []
     \<and> (\<exists>pub token. token_valid (ed_verify (d_crypto (cf_deps cf))) (d_token (cf_deps cf)) pub token (ss_token ss)
          \<and> (case cf_root cf of None \<Rightarrow> pub = cf_pub cf
             | Some root \<Rightarrow> \<exists>t. root_certified (d_crypto (cf_deps cf)) (cf_decCert cf) root pub t))
     \<and> tierRank (cf_minTier cf) \<le> tierRank (Tier (ss_token ss)) \<and> Plan (ss_token ss) \<in> {[], ''full''}"

definition keys_ok :: "sconf \<Rightarrow> brokerKeySource \<Rightarrow> bool" where
  "keys_ok cf ks \<longleftrightarrow>
     (case cf_root cf of None \<Rightarrow> ks = newStaticKeySource (cf_pub cf)
      | Some root \<Rightarrow> key_source_inv (d_crypto (cf_deps cf)) (cf_decCert cf) root ks)"

definition sys_inv :: "sconf \<Rightarrow> server \<Rightarrow> bool" where
  "sys_inv cf sv \<longleftrightarrow> state_inv (sv_store sv) \<and> keys_ok cf (sv_keys sv)
     \<and> (\<forall>k ss. mget (sv_sessions sv) k = Some ss \<longrightarrow> entitled cf ss)"

lemma sys_invD:
  assumes "sys_inv cf sv"
  shows "state_inv (sv_store sv)" "keys_ok cf (sv_keys sv)"
    "mget (sv_sessions sv) k = Some ss \<Longrightarrow> entitled cf ss"
  using assms by (auto simp: sys_inv_def)

lemma entitled_user: "entitled cf ss \<Longrightarrow> ss_user ss \<noteq> []"
  by (simp add: entitled_def)

lemma entitled_conn [simp]: "entitled cf (ss\<lparr>ss_conn := c\<rparr>) = entitled cf ss"
  by (simp add: entitled_def)

lemma accept_entitled:
  assumes "keys_ok cf ks" "accept cf ks hdr hijack now1 now2 = Some ss"
  shows "entitled cf ss"
proof -
  obtain c u tok c1 where a: "authenticate (cf_deps cf) (cf_minTier cf) ks now1 now2 c = (Inr (u, tok), c1)"
    and ss: "ss = \<lparr>ss_user = u, ss_token = tok, ss_conn = c1\<rparr>"
    using assms(2) by (auto simp: accept_def split: prod.splits sum.splits option.splits)
  obtain pub token where t: "current ks now1 = Inr pub"
    "token_valid (ed_verify (d_crypto (cf_deps cf))) (d_token (cf_deps cf)) pub token tok"
    "tierRank (cf_minTier cf) \<le> tierRank (Tier tok)" "Plan tok \<in> {[], ''full''}"
    using authenticate_token [OF a] by blast
  have "\<exists>e. root_certified (d_crypto (cf_deps cf)) (cf_decCert cf) root pub e" if "cf_root cf = Some root" for root
    using assms(1) that current_certified [OF _ t(1)] by (fastforce simp: keys_ok_def)
  moreover have "pub = cf_pub cf" if "cf_root cf = None"
    using assms(1) that t(1) by (auto simp: keys_ok_def current_def newStaticKeySource_def)
  ultimately show ?thesis using t authenticate_pubkey [OF a] by (auto simp: entitled_def ss split: option.split)
qed

subsection \<open>Who changes what\<close>

text \<open>The operations a link request may cause, by its route.\<close>

definition link_may :: "http_req \<Rightarrow> store \<Rightarrow> store_op \<Rightarrow> bool" where
  "link_may rq s op \<longleftrightarrow>
     (case mux_route (rq_method rq) (rq_path rq) of
        ToStart \<Rightarrow> \<exists>i. op_id op = Some i \<and> getMeta s i = None
      | ToChunkUpload i k \<Rightarrow> op_id op = Some i \<and> (\<exists>m. getMeta s i = Some m \<and> Mode m = ''link''
          \<and> rq_manage rq = ManageToken m \<and> rq_manage rq \<noteq> [])
      | ToChunkDownload i k \<Rightarrow> op_id op = Some i \<and> (\<exists>m. getMeta s i = Some m \<and> Mode m = ''link'')
      | ToDelete i \<Rightarrow> op_id op = Some i \<and> (\<exists>m. getMeta s i = Some m \<and> Mode m = ''link''
          \<and> rq_manage rq = ManageToken m \<and> rq_manage rq \<noteq> [])
      | _ \<Rightarrow> False)"

lemma serve_link_effect:
  assumes "deps_ok d" "state_inv x" "serve_link d minTier ks t rq (rnd, x) = (resp, rnd', y)"
  shows "effect (d_meta d) (d_iter d) (link_may rq (fst x)) x y"
proof (cases "rq_method rq = ''OPTIONS''")
  case True
  then have "y = x"
    using assms(3) by (auto simp: serve_link_def withLinkCORS_def split: route.splits)
  then show ?thesis by simp
next
  case False
  show ?thesis
  proof (cases "mux_route (rq_method rq) (rq_path rq)")
    case ToStart
    then obtain r where "handleLinkStart d minTier ks (t_key t) (t_token t) (t_store t) (rq_body rq) rnd x = (r, rnd', y)"
      using assms(3) False by (auto simp: serve_link_def withLinkCORS_def split: prod.splits)
    from handleLinkStart_effect [OF this assms(1), of "[]"] show ?thesis
    proof
      assume "\<exists>op i. op_id op = Some i \<and> getMeta (fst x) i = None \<and> may_link [] op (fst x)
        \<and> store_guard op x \<and> y = store_step (d_meta d) (d_iter d) op x"
      then obtain op where op: "\<exists>i. op_id op = Some i \<and> getMeta (fst x) i = None" "store_guard op x"
        "y = store_step (d_meta d) (d_iter d) op x" by blast
      then have "link_may rq (fst x) op" using ToStart by (simp add: link_may_def)
      then show ?thesis using op by (auto intro!: effect_op)
    qed simp
  next
    case (ToChunkUpload i k)
    then obtain r where "handleLinkChunkUpload d (t_store t) i k (rq_manage rq) (rq_body rq) x = (r, y)"
      using assms(3) False by (auto simp: serve_link_def withLinkCORS_def split: prod.splits)
    from handleLinkChunkUpload_effect [OF this assms(2)] show ?thesis
    proof
      assume "\<exists>idx data. may_link (rq_manage rq) (OpWriteChunk i idx data (t_store t)) (fst x)
        \<and> y = store_step (d_meta d) (d_iter d) (OpWriteChunk i idx data (t_store t)) x"
      then obtain idx data where op: "may_link (rq_manage rq) (OpWriteChunk i idx data (t_store t)) (fst x)"
        "y = store_step (d_meta d) (d_iter d) (OpWriteChunk i idx data (t_store t)) x" by blast
      have "store_guard (OpWriteChunk i idx data (t_store t)) x" by (cases x) simp
      then show ?thesis using op ToChunkUpload by (auto simp: link_may_def intro!: effect_op)
    qed simp
  next
    case (ToChunkDownload i k)
    then obtain r where "handleLinkChunkDownload d (t_store t) i k (write_ok rq) x = (r, y)"
      using assms(3) False by (auto simp: serve_link_def withLinkCORS_def split: prod.splits)
    from handleLinkChunkDownload_effect [OF this, of "[]"] show ?thesis
    proof (rule effect_mono)
      fix op assume "op_id op = Some i \<and> may_link [] op (fst x)
        \<and> (\<exists>m. getMeta (fst x) i = Some m \<and> Mode m = ''link'')"
      then show "link_may rq (fst x) op" using ToChunkDownload by (simp add: link_may_def)
    qed
  next
    case (ToDelete i)
    then obtain r where "handleLinkDelete i (rq_manage rq) x = (r, y)"
      using assms(3) False by (auto simp: serve_link_def withLinkCORS_def split: prod.splits)
    from handleLinkDelete_effect [OF this assms(2), of "d_meta d" "d_iter d"] show ?thesis
    proof
      assume op: "may_link (rq_manage rq) (OpDelete i) (fst x) \<and> store_guard (OpDelete i) x
        \<and> y = store_step (d_meta d) (d_iter d) (OpDelete i) x"
      then have "link_may rq (fst x) (OpDelete i)" using ToDelete by (auto simp: link_may_def)
      then show ?thesis using op by (auto intro!: effect_op)
    qed simp
  qed (use assms(3) False in \<open>simp_all add: serve_link_def withLinkCORS_def\<close>)
qed

lemma sweep_inv: "deps_ok d \<Longrightarrow> state_inv x \<Longrightarrow> state_inv (sweepOnce d now x)"
  using sweep_keeps [of "fst x" "snd x" "d_iter d" now] by (simp add: sweepOnce_def deps_ok_def)

lemma sys_step_inv:
  assumes "deps_ok (cf_deps cf)" "sys_inv cf sv" "sys_step cf ev sv sv'"
  shows "sys_inv cf sv'"
  using assms(3)
proof cases
  case (Connect hdr hijack now1 now2 ss k)
  then show ?thesis using assms(2) accept_entitled by (auto simp: sys_inv_def)
next
  case (Turn k ss now c x)
  have e: "entitled cf ss" using sys_invD(3) [OF assms(2) Turn(3)] .
  have "state_inv x"
    using session_turn_inv [OF Turn(4) assms(1) entitled_user [OF e]] assms(2) by (simp add: sys_inv_def)
  then show ?thesis using assms(2) e Turn(2) by (auto simp: sys_inv_def)
next
  case (Leave k ss now c x)
  have e: "entitled cf ss" using sys_invD(3) [OF assms(2) Leave(3)] .
  have "state_inv x"
    using session_turn_inv [OF Leave(4) assms(1) entitled_user [OF e]] assms(2) by (simp add: sys_inv_def)
  then show ?thesis using assms(2) e Leave(2) by (auto simp: sys_inv_def)
next
  case (Expire k ss now n)
  then show ?thesis using assms(2) sys_invD(3) [OF assms(2)] by (auto simp: sys_inv_def)
next
  case (Link t rq rnd resp rnd' x)
  have "state_inv x"
    using effect_inv [OF serve_link_effect [OF assms(1) _ Link(3)]] assms(1,2)
    by (simp add: sys_inv_def deps_ok_def)
  then show ?thesis using assms(2) Link(2) by (simp add: sys_inv_def)
next
  case (Sweep now)
  then show ?thesis using assms(1,2) sweep_inv by (simp add: sys_inv_def)
next
  case (Refresh root now got)
  then show ?thesis using assms(2) refresh_inv by (auto simp: sys_inv_def keys_ok_def)
qed (use assms(2) in simp_all)

lemma sys_reach_inv:
  assumes "sys_reach cf sv0 sv" "deps_ok (cf_deps cf)" "sys_inv cf sv0"
  shows "sys_inv cf sv"
  using assms by (induction rule: sys_reach.induct) (auto intro: sys_step_inv)

text \<open>\<open>authorised\<close>: the event comes from a party to the transfer.\<close>

fun authorised :: "sconf \<Rightarrow> server \<Rightarrow> event \<Rightarrow> string \<Rightarrow> transferMeta \<Rightarrow> bool" where
  "authorised cf sv (EvTurn k now) j m =
     (\<exists>ss. mget (sv_sessions sv) k = Some ss \<and> (ss_user ss = From m \<or> ss_user ss = To m))"
| "authorised cf sv (EvLink rq t rnd) j m =
     (Mode m = ''link''
      \<and> (case mux_route (rq_method rq) (rq_path rq) of
           ToChunkUpload i k \<Rightarrow> i = j \<and> rq_manage rq = ManageToken m
         | ToDelete i \<Rightarrow> i = j \<and> rq_manage rq = ManageToken m
         | ToChunkDownload i k \<Rightarrow> i = j
         | _ \<Rightarrow> False))"
| "authorised cf sv (EvSweep now) j m = (TouchedAt m < now - ttl (fst (sv_store sv)))"
| "authorised cf sv _ j m = False"

lemma session_change:
  assumes "session_turn d now u c x = (b, c', y)" "deps_ok d" "u \<noteq> []" "state_inv x"
    "abs_state x j = Some (m, f)" "From m \<noteq> u" "To m \<noteq> u"
  shows "abs_state y j = Some (m, f)"
proof -
  have mj: "getMeta (fst x) j = Some m" using assms(5) by (auto simp: abs_state_def)
  show ?thesis using session_turn_effect [OF assms(1-3)]
  proof
    assume "unchanged x y"
    then show ?thesis using unchanged_abs assms(5) by metis
  next
    assume "\<exists>op i. may u op (fst x) \<and> store_guard op x \<and> y = store_step (d_meta d) (d_iter d) op x
      \<and> op_targets (d_iter d) op (fst x) = {i} \<and> (\<forall>now. op \<noteq> OpSweep now)"
    then obtain op i where op: "may u op (fst x)" "store_guard op x" "y = store_step (d_meta d) (d_iter d) op x"
      "op_targets (d_iter d) op (fst x) = {i}" by blast
    show ?thesis
    proof (cases "j = i")
      case False
      then show ?thesis using step_abs_other [OF assms(4) op(2), of "d_iter d" j "d_meta d"] op(3,4) assms(2,5)
        by (simp add: deps_ok_def)
    next
      case True
      have "y = x" using op mj assms(6,7) True
        by (cases op; cases x) (auto simp: createTransfer_def getMeta_def)
      then show ?thesis using assms(5) by simp
    qed
  qed
qed

lemma change_authorised:
  assumes "deps_ok (cf_deps cf)" "sys_inv cf sv" "sys_step cf ev sv sv'"
    "abs_state (sv_store sv) j = Some (m, f)" "abs_state (sv_store sv') j \<noteq> Some (m, f)"
  shows "authorised cf sv ev j m"
  using assms(3)
proof cases
  case (Turn k ss now c x)
  have u: "ss_user ss \<noteq> []" using sys_invD(3) [OF assms(2) Turn(3)] entitled_user by blast
  have "From m = ss_user ss \<or> To m = ss_user ss"
    using session_change [OF Turn(4) assms(1) u sys_invD(1) [OF assms(2)] assms(4)] assms(5) Turn(2) by auto
  then show ?thesis using Turn(1,3) by auto
next
  case (Leave k ss now c x)
  have u: "ss_user ss \<noteq> []" using sys_invD(3) [OF assms(2) Leave(3)] entitled_user by blast
  have "From m = ss_user ss \<or> To m = ss_user ss"
    using session_change [OF Leave(4) assms(1) u sys_invD(1) [OF assms(2)] assms(4)] assms(5) Leave(2) by auto
  then show ?thesis using Leave(1,3) by auto
next
  case (Link t rq rnd resp rnd' x)
  let ?s = "fst (sv_store sv)"
  have mj: "getMeta ?s j = Some m" using assms(4) by (auto simp: abs_state_def)
  have "\<exists>op. link_may rq ?s op \<and> \<not> (\<exists>i. op_id op = Some i \<and> i \<noteq> j)"
  proof (rule ccontr)
    assume "\<not> ?thesis"
    then have no: "\<And>op. link_may rq ?s op \<Longrightarrow> \<exists>i. op_id op = Some i \<and> i \<noteq> j" by blast
    have "map_iteration (d_iter (cf_deps cf))" using assms(1) by (simp add: deps_ok_def)
    from effect_abs_other [OF serve_link_effect [OF assms(1) sys_invD(1) [OF assms(2)] Link(3)] this
        sys_invD(1) [OF assms(2)] no]
    show False using assms(4,5) Link(2) by simp
  qed
  then obtain op where op: "link_may rq ?s op" "\<And>i. op_id op = Some i \<Longrightarrow> i = j" by blast
  show ?thesis
    using op mj by (cases "mux_route (rq_method rq) (rq_path rq)") (auto simp: link_may_def Link(1))
next
  case (Sweep now)
  obtain s w where x: "sv_store sv = (s, w)" by fastforce
  obtain s' w' where r: "sweep (d_iter (cf_deps cf)) now s w = (s', w')" by fastforce
  have "state_inv (s, w)" "map_iteration (d_iter (cf_deps cf))"
    using sys_invD(1) [OF assms(2)] assms(1) by (simp_all add: x deps_ok_def)
  then have "abs_state (s', w') j = (if TouchedAt m < now - ttl s then None else Some (m, f))"
    using sweep_refines [OF _ _ r] assms(4) by (simp add: x)
  then show ?thesis using assms(5) Sweep r by (auto simp: sweepOnce_def x split: if_splits)
qed (use assms(4,5) in simp_all)

end
