(* ===== verification/Concurrency.thy ===== *)
theory Concurrency
  imports StoreSpec
begin

text \<open>
  \<open>writeChunk\<close> of \<open>store.go\<close> as the steps other goroutines can come between: it holds the lock while
  it reads the metadata and while it commits, and not while it writes files.  The lemmas say that
  uninterrupted it is the \<open>writeChunk\<close> of \<open>Store\<close>, that a step of it leaves other transfers alone,
  and what two interleavings do that no sequence of whole operations does.
\<close>

subsection \<open>Steps\<close>

datatype wc_pc =
    PcFile transferMeta
  | PcCommit transferMeta
  | PcTmp transferMeta
  | PcRename transferMeta
  | PcDone "unit res"

record wc_job =
  job_id :: string
  job_index :: int
  job_data :: bytes
  job_pc :: wc_pc

text \<open>The first critical section, and the range check.\<close>

definition wc_begin :: "string \<Rightarrow> int \<Rightarrow> bytes \<Rightarrow> store \<Rightarrow> wc_job" where
  "wc_begin i index data s =
     \<lparr>job_id = i, job_index = index, job_data = data,
      job_pc = (case mget (meta s) i of
                  None \<Rightarrow> PcDone (Inl ErrNotExist)
                | Some m \<Rightarrow> if index < 0 \<or> index \<ge> TotalChunks m then PcDone (Inl ErrInvalid) else PcFile m)\<rparr>"

text \<open>A step: writing the chunk file, committing under the lock at the time \<open>now\<close>, writing the
  temporary metadata file, renaming it.\<close>

definition wc_step :: "meta_codec \<Rightarrow> int \<Rightarrow> wc_job \<Rightarrow> state \<Rightarrow> wc_job \<times> state" where
  "wc_step c now job x =
     (case x of (s, w) \<Rightarrow>
        (let i = job_id job; go = (\<lambda>pc. job\<lparr>job_pc := pc\<rparr>)
         in case job_pc job of
              PcFile m \<Rightarrow>
                (case WriteFile (chunk_path (transferDir s i) (job_index job)) (job_data job) w of
                   (Inl e, w1) \<Rightarrow> (go (PcDone (Inl e)), (s, w1))
                 | (Inr _, w1) \<Rightarrow> (go (PcCommit m), (s, w1)))
            | PcCommit m \<Rightarrow>
                (go (PcTmp (m\<lparr>TouchedAt := now\<rparr>)), (writeChunk_commit m i (job_index job) now s, w))
            | PcTmp m \<Rightarrow>
                (case enc_meta c m of
                   None \<Rightarrow> (go (PcDone (Inl (Err ''json: error calling MarshalJSON''))), (s, w))
                 | Some raw \<Rightarrow>
                    (case WriteFile (tmp_path (transferDir s (TransferID m))) raw w of
                       (Inl e, w1) \<Rightarrow> (go (PcDone (Inl e)), (s, w1))
                     | (Inr _, w1) \<Rightarrow> (go (PcRename m), (s, w1))))
            | PcRename m \<Rightarrow>
                (case Rename (tmp_path (transferDir s (TransferID m))) (meta_path (transferDir s (TransferID m))) w of
                   (r, w1) \<Rightarrow> (go (PcDone r), (s, w1)))
            | PcDone r \<Rightarrow> (job, (s, w))))"

fun wc_steps :: "meta_codec \<Rightarrow> int \<Rightarrow> nat \<Rightarrow> wc_job \<Rightarrow> state \<Rightarrow> wc_job \<times> state" where
  "wc_steps c now 0 job x = (job, x)"
| "wc_steps c now (Suc n) job x = (case wc_step c now job x of (job1, x1) \<Rightarrow> wc_steps c now n job1 x1)"

text \<open>Four steps without interruption are the operation.\<close>

lemma wc_done [simp]: "job_pc job = PcDone r \<Longrightarrow> wc_steps c now n job x = (job, x)"
  by (induction n) (simp_all add: wc_step_def split: prod.split)

lemma wc_sequential:
  assumes "wc_steps c now 4 (wc_begin i index data s) (s, w) = (job, x)"
    "writeChunk c i index data now s w = (r, s', w')"
  shows "job_pc job = PcDone r \<and> x = (s', w')"
  using assms
  by (auto simp: wc_begin_def wc_step_def writeChunk_def writeChunk_file_def writeMeta_def Let_def
      eval_nat_numeral transferDir_cong [of "writeChunk_commit _ i index now s" s] writeChunk_commit_def
      split: option.splits if_splits prod.splits sum.splits)

subsection \<open>Other transfers\<close>

text \<open>Whatever the interleaving, a step of a job leaves every other transfer as it was.\<close>

lemma wc_step_isolation:
  assumes inv: "store_inv s" and id: "validTransferID (job_id job)"
    and m: "\<And>m. job_pc job \<in> {PcTmp m, PcRename m} \<Longrightarrow> TransferID m = job_id job"
    and nodir: "\<And>m. job_pc job = PcRename m \<Longrightarrow>
      fs_get (w_fs w) (tmp_path (transferDir s (job_id job))) \<noteq> Some Dir"
    and step: "wc_step c now job (s, w) = (job', (s', w'))"
  shows "same_outside (child (store_root s) (job_id job)) w w'
    \<and> (\<forall>j. j \<noteq> job_id job \<longrightarrow> same_transfer j s s')"
proof -
  let ?d = "child (store_root s) (job_id job)"
  have d: "transferDir s (job_id job) = ?d"
    using inv id by (intro transferDir_child) (simp_all add: store_inv_dir)
  have b: "below ?d (child ?d n)" for n by simp
  have wr: "same_outside ?d w w1" if "WriteFile (child ?d n) z w = (r, w1)" for n z r w1
    using WriteFile_outside [OF b [of n], of w z] that by simp
  show ?thesis
  proof (cases "job_pc job")
    case (PcFile m)
    then have "s' = s \<and> (\<exists>r. WriteFile (child ?d (chunk_name (job_index job))) (job_data job) w = (r, w'))"
      using step by (auto simp: wc_step_def d path_simps split: prod.splits sum.splits)
    then show ?thesis using wr by (auto simp: same_transfer_def)
  next
    case (PcCommit m)
    then show ?thesis using step
      by (auto simp: wc_step_def writeChunk_commit_def Let_def same_transfer_def)
  next
    case (PcTmp m)
    then have "TransferID m = job_id job" using assms(3) by simp
    then have "s' = s \<and> (w' = w \<or> (\<exists>r raw. WriteFile (child ?d ''meta.json.tmp'') raw w = (r, w')))"
      using step PcTmp by (auto simp: wc_step_def d path_simps split: prod.splits sum.splits option.splits)
    then show ?thesis using wr by (auto simp: same_transfer_def)
  next
    case (PcRename m)
    then have t: "TransferID m = job_id job" using assms(3) by simp
    have "mget (w_fs (snd (Rename (child ?d ''meta.json.tmp'') (child ?d ''meta.json'') w))) q = mget (w_fs w) q"
      if "\<not> below ?d q" for q
    proof (rule Rename_frame)
      show "fs_get (w_fs w) (child ?d ''meta.json.tmp'') \<noteq> Some Dir"
        using nodir [OF PcRename] by (simp add: d path_simps)
      show "q \<noteq> child ?d ''meta.json.tmp''" "q \<noteq> child ?d ''meta.json''" using that b by metis+
    qed
    then show ?thesis using step PcRename t
      by (auto simp: wc_step_def d path_simps same_transfer_def same_outside_def split: prod.splits)
  next
    case (PcDone r)
    then show ?thesis using step by (simp add: wc_step_def same_transfer_def)
  qed
qed

subsection \<open>Two races\<close>

text \<open>A transfer deleted between a chunk's file and its commit is in memory again afterwards, with
  nothing of it on disk, and the sender's upload fails.\<close>

lemma delete_race:
  assumes inv: "state_inv (s, w)" and m: "mget (meta s) i = Some m" "0 \<le> index" "index < TotalChunks m"
    and nf: "w_faults w = []"
    and f: "wc_step c now (wc_begin i index data s) (s, w) = (job, (s1, w1))" "job_pc job = PcCommit m"
    and del: "deleteTransfer i s1 w1 = (r, s2, w2)"
  shows "r = Inr () \<and> getMeta s2 i = None
    \<and> (\<exists>job' s3 w3 e. wc_steps c now 3 job (s2, w2) = (job', (s3, w3)) \<and> job_pc job' = PcDone (Inl e)
         \<and> getMeta s3 i = Some (m\<lparr>TouchedAt := now\<rparr>)
         \<and> (\<forall>q. below (transferDir s i) q \<longrightarrow> mget (w_fs w3) q = None))"
proof -
  let ?d = "child (store_root s) i" let ?m = "m\<lparr>TouchedAt := now\<rparr>"
  have d: "transferDir s i = ?d" and i: "TransferID m = i"
    using inv m(1) store_inv_transferDir store_inv_meta by (auto simp: state_inv_def meta_wf_def)
  have s1: "s1 = s" and jid: "job_id job = i" "job_index job = index"
    and wr: "WriteFile (chunk_path ?d index) data w = (Inr (), w1)"
    using f m d by (auto simp: wc_begin_def wc_step_def split: prod.splits sum.splits)
  have w1: "w_faults w1 = []" using no_faults(1) [OF nf, of "chunk_path ?d index" data] wr by simp
  have td: "transferDir s' (TransferID m) = ?d" if "dataDir s' = dataDir s" for s'
    using transferDir_cong [OF that, of i] by (simp add: d i)
  have rm: "RemoveAll ?d w1 = (Inr (), w1\<lparr>w_fs := filter (\<lambda>(q, n). \<not> below ?d q) (w_fs w1)\<rparr>)"
    using w1 by (intro RemoveAll_ok) simp_all
  have s2: "r = Inr ()" "s2 = forget i s" and w2: "w2 = w1\<lparr>w_fs := filter (\<lambda>(q, n). \<not> below ?d q) (w_fs w1)\<rparr>"
    using del by (simp_all add: deleteTransfer_def s1 d rm)
  have gone: "mget (w_fs w2) q = None" if "below ?d q" for q using that by (simp add: w2)
  define s3 where "s3 = writeChunk_commit m i index now s2"
  have s3: "dataDir s3 = dataDir s" "getMeta s3 i = Some ?m"
    by (simp_all add: s3_def writeChunk_commit_def Let_def s2 forget_def getMeta_def)
  have pe: "parent_errno (w_fs w2) (tmp_path ?d) = Some ENOENT"
    using gone [of ?d] by (simp add: parent_errno_def path_simps)
  have wf: "WriteFile (tmp_path ?d) raw w2 = (Inl (PathError ''open'' (tmp_path ?d) ENOENT), w2)" for raw
    using pe w1 by (simp add: WriteFile_def Let_def w2)
  have 1: "wc_step c now job (s2, w2) = (job\<lparr>job_pc := PcTmp ?m\<rparr>, (s3, w2))"
    using f(2) jid by (simp add: wc_step_def s3_def)
  obtain e where 2: "wc_step c now (job\<lparr>job_pc := PcTmp ?m\<rparr>) (s3, w2) = (job\<lparr>job_pc := PcDone (Inl e)\<rparr>, (s3, w2))"
    using wf td [OF s3(1)] by (cases "enc_meta c ?m") (simp_all add: wc_step_def)
  have "wc_steps c now 3 job (s2, w2) = (job\<lparr>job_pc := PcDone (Inl e)\<rparr>, (s3, w2))"
    using 1 2 by (simp add: eval_nat_numeral wc_step_def [of _ _ "job\<lparr>job_pc := PcDone (Inl e)\<rparr>"])
  moreover have "getMeta s2 i = None" by (simp add: s2 forget_def getMeta_def)
  ultimately show ?thesis using s2(1) s3(2) gone by (auto simp: d)
qed

text \<open>Two uploads to one transfer that both write the temporary metadata file before either renames
  it: the first renames it away, and the second is told its chunk was rejected.\<close>

lemma tmp_race:
  assumes inv: "state_inv (s, w)" and nf: "w_faults w = []" and m: "mget (meta s) i = Some m"
    and dir: "mget (w_fs w) (transferDir s i) = Some Dir"
      "fs_get (w_fs w) (tmp_path (transferDir s i)) \<noteq> Some Dir"
      "fs_get (w_fs w) (meta_path (transferDir s i)) \<noteq> Some Dir"
    and pc: "job_pc a = PcTmp ma" "job_pc b = PcTmp mb" "TransferID ma = i" "TransferID mb = i"
    and enc: "enc_meta c ma = Some ra" "enc_meta c mb = Some rb"
    and sched: "wc_step c t1 a (s, w) = (a1, x1)" "wc_step c t2 b x1 = (b1, x2)"
      "wc_step c t3 a1 x2 = (a2, x3)" "wc_step c t4 b1 x3 = (b2, x4)"
  shows "job_pc a2 = PcDone (Inr ())
    \<and> job_pc b2 = PcDone (Inl (PathError ''rename'' (tmp_path (transferDir s i)) ENOENT))"
proof -
  let ?d = "child (store_root s) i"
  have d: "transferDir s i = ?d"
    using inv m store_inv_transferDir by (auto simp: state_inv_def)
  let ?t = "child ?d ''meta.json.tmp''" let ?f = "child ?d ''meta.json''"
  note ds = dir [unfolded d path_simps]
  have wa: "WriteFile ?t ra w = (Inr (), w\<lparr>w_fs := mput ?t (File ra) (w_fs w)\<rparr>)"
    using nf ds by (intro WriteFile_ok) simp_all
  define w1 where "w1 = w\<lparr>w_fs := mput ?t (File ra) (w_fs w)\<rparr>"
  have 1: "a1 = a\<lparr>job_pc := PcRename ma\<rparr>" "x1 = (s, w1)"
    using sched(1) wa pc enc d by (simp_all add: wc_step_def path_simps w1_def)
  have wb: "WriteFile ?t rb w1 = (Inr (), w1\<lparr>w_fs := mput ?t (File rb) (w_fs w1)\<rparr>)"
    using nf ds by (intro WriteFile_ok) (simp_all add: w1_def)
  define w2 where "w2 = w1\<lparr>w_fs := mput ?t (File rb) (w_fs w1)\<rparr>"
  have 2: "b1 = b\<lparr>job_pc := PcRename mb\<rparr>" "x2 = (s, w2)"
    using sched(2) wb pc enc d by (simp_all add: wc_step_def path_simps w2_def 1)
  have rn: "Rename ?t ?f w2 = (Inr (), w2\<lparr>w_fs := mput ?f (File rb) (mdel ?t (w_fs w2))\<rparr>)"
    using nf ds by (intro Rename_ok) (simp_all add: w2_def w1_def)
  define w3 where "w3 = w2\<lparr>w_fs := mput ?f (File rb) (mdel ?t (w_fs w2))\<rparr>"
  have 3: "a2 = a\<lparr>job_pc := PcDone (Inr ())\<rparr>" "x3 = (s, w3)"
    using sched(3) rn pc d by (simp_all add: wc_step_def path_simps w3_def 1 2)
  have "Rename ?t ?f w3 = (Inl (PathError ''rename'' ?t ENOENT), w3)"
    using nf by (simp add: Rename_def Let_def w3_def w2_def w1_def)
  then have "job_pc b2 = PcDone (Inl (PathError ''rename'' ?t ENOENT))"
    using sched(4) pc d by (auto simp: wc_step_def path_simps 2 3 split: prod.splits)
  then show ?thesis using 3 by (simp add: d path_simps)
qed

end
