(* ===== verification/Instances.thy ===== *)
theory Instances
  imports System Concurrency
begin

text \<open>
  Concrete inputs for the properties: a codec that meets the laws the store needs, simple
  cryptography that meets the laws of the handshake, an empty data directory, connections.  Every
  hypothesis the properties have is met by these at once.
\<close>

subsection \<open>A codec\<close>

text \<open>Strings are written with a mark before each byte and another at the end.\<close>

definition put_str :: "string \<Rightarrow> bytes" where
  "put_str s = concat (map (\<lambda>b. [1, b]) (bytes_of s)) @ [0]"

fun get_bytes :: "bytes \<Rightarrow> (bytes \<times> bytes) option" where
  "get_bytes (x # y # rest) =
     (if x = 0 then Some ([], y # rest)
      else map_option (\<lambda>(bs, r). (y # bs, r)) (get_bytes rest))"
| "get_bytes [x] = (if x = 0 then Some ([], []) else None)"
| "get_bytes [] = None"

definition get_str :: "bytes \<Rightarrow> (string \<times> bytes) option" where
  "get_str bs = map_option (\<lambda>(b, r). (string_of b, r)) (get_bytes bs)"

lemma get_put_bytes: "get_bytes (concat (map (\<lambda>b. [1, b]) bs) @ 0 # rest) = Some (bs, rest)"
proof (induction bs)
  case Nil
  then show ?case by (cases rest) auto
next
  case (Cons b bs)
  then show ?case by simp
qed

lemma get_put_str [simp]: "get_str (put_str s @ rest) = Some (s, rest)"
  by (simp add: get_str_def put_str_def get_put_bytes)

definition put_int :: "int \<Rightarrow> bytes" where
  "put_int i = put_str ((if i < 0 then CHR ''-'' else CHR ''+'') # nat_digits (nat (abs i)))"

definition get_int :: "bytes \<Rightarrow> (int \<times> bytes) option" where
  "get_int bs =
     (case get_str bs of
        Some (c # ds, r) \<Rightarrow>
          (case digits_val 0 ds of None \<Rightarrow> None
           | Some n \<Rightarrow> Some (if c = CHR ''-'' then - int n else int n, r))
      | _ \<Rightarrow> None)"

lemma get_put_int [simp]: "get_int (put_int i @ rest) = Some (i, rest)"
  by (simp add: get_int_def put_int_def)

definition put_bool :: "bool \<Rightarrow> bytes" where
  "put_bool b = put_int (if b then 1 else 0)"

definition get_bool :: "bytes \<Rightarrow> (bool \<times> bytes) option" where
  "get_bool bs = map_option (\<lambda>(i, r). (i = 1, r)) (get_int bs)"

lemma get_put_bool [simp]: "get_bool (put_bool b @ rest) = Some (b, rest)"
  by (simp add: get_bool_def put_bool_def)

lemma get_put_bool_end [simp]: "get_bool (put_bool b) = Some (b, [])"
  using get_put_bool [of b "[]"] by simp

definition encode_meta :: "transferMeta \<Rightarrow> bytes" where
  "encode_meta m =
     put_str (TransferID m) @ put_str (From m) @ put_str (To m) @ put_int (TotalChunks m)
       @ put_int (CreatedAt m) @ put_int (TouchedAt m) @ put_bool (Shareable m) @ put_str (Mode m)
       @ put_str (ManageToken m) @ put_bool (OneTime m)"

definition decode_meta :: "bytes \<Rightarrow> transferMeta option" where
  "decode_meta b0 =
     Option.bind (get_str b0) (\<lambda>(x0, b1).
     Option.bind (get_str b1) (\<lambda>(x1, b2).
     Option.bind (get_str b2) (\<lambda>(x2, b3).
     Option.bind (get_int b3) (\<lambda>(x3, b4).
     Option.bind (get_int b4) (\<lambda>(x4, b5).
     Option.bind (get_int b5) (\<lambda>(x5, b6).
     Option.bind (get_bool b6) (\<lambda>(x6, b7).
     Option.bind (get_str b7) (\<lambda>(x7, b8).
     Option.bind (get_str b8) (\<lambda>(x8, b9).
     Option.bind (get_bool b9) (\<lambda>(x9, b10).
     Some \<lparr>TransferID = x0, From = x1, To = x2, TotalChunks = x3,
       CreatedAt = x4, TouchedAt = x5, Shareable = x6,
       Mode = x7, ManageToken = x8, OneTime = x9\<rparr>))))))))))"

lemma decode_encode_meta: "decode_meta (encode_meta m) = Some m"
  by (simp add: decode_meta_def encode_meta_def)

definition sample_codec :: meta_codec where
  "sample_codec = \<lparr>enc_meta = (\<lambda>m. Some (encode_meta m)), dec_meta = decode_meta\<rparr>"

lemma sample_codec_ok [simp]: "meta_codec_ok sample_codec" "codec_total sample_codec"
  by (simp_all add: meta_codec_ok_def codec_total_def sample_codec_def decode_encode_meta)

subsection \<open>Cryptography\<close>

text \<open>Not secure, but lawful: the key agreement is exclusive or, sealing is the identity.\<close>

definition fit32 :: "bytes \<Rightarrow> bytes" where
  "fit32 k = take 32 (k @ replicate 32 0)"

lemma length_fit32 [simp]: "length (fit32 k) = 32"
  by (simp add: fit32_def)

lemma fit32_fit32 [simp]: "fit32 (fit32 k) = fit32 k"
proof -
  have "take 32 (fit32 k @ replicate 32 0) = fit32 k" using length_fit32 [of k] by simp
  then show ?thesis by (simp add: fit32_def [of "fit32 k"])
qed

definition sample_crypto :: crypto_ops where
  "sample_crypto =
     \<lparr>x_pub = fit32, x_ecdh = (\<lambda>a p. Some (map2 xor (fit32 a) (fit32 p))),
      gcm_seal = (\<lambda>k n p. p), gcm_open = (\<lambda>k n c. Some c),
      ed_verify = (\<lambda>pub msg sig. sig = pub)\<rparr>"

lemma map2_xor_commute: "map2 xor a b = map2 xor b (a :: bytes)"
  by (induction a b rule: list_induct2') (auto simp: xor.commute)

lemma sample_crypto_ok [simp]: "crypto_laws sample_crypto"
  by (auto simp: crypto_laws_def sample_crypto_def map2_xor_commute)

subsection \<open>The server's dependencies\<close>

text \<open>Messages are told apart by a short text; the token decoder accepts one payload.\<close>

definition sample_token :: clientToken where
  "sample_token = \<lparr>ClientID = ''c'', Tier = ''paid'', Plan = ''full'', IssuedAt = 0, ExpiresAt = 1000\<rparr>"

definition sample_key :: bytes where
  "sample_key = replicate 32 7"

definition sample_messages :: "(bytes \<times> wsEnvelope) list" where
  "sample_messages =
     [(bytes_of ''hello'', (envelope ''hello'')\<lparr>env_PubKey := b64 (fit32 [1]),
          env_Token := issued_token (bytes_of ''claims'') sample_key\<rparr>),
      (bytes_of ''response'', (envelope ''challenge_response'')\<lparr>env_Response := replicate 32 5\<rparr>),
      (bytes_of ''start'', (envelope ''start_upload'')
          \<lparr>env_TransferID := ''t'', env_To := ''v'', env_TotalChunks := 1\<rparr>),
      (bytes_of ''chunk'', (envelope ''chunk'')\<lparr>env_TransferID := ''t''\<rparr>),
      (bytes_of ''download'', (envelope ''download'')\<lparr>env_TransferID := ''t''\<rparr>),
      (bytes_of ''complete'', (envelope ''complete'')\<lparr>env_TransferID := ''t''\<rparr>)]"

definition sample_deps :: deps where
  "sample_deps =
     \<lparr>d_crypto = sample_crypto,
      d_token = (\<lambda>b. if b = bytes_of ''claims'' then Some sample_token else None),
      d_enc = (\<lambda>env. Some (bytes_of (env_Type env))),
      d_dec = map_of sample_messages,
      d_start = (\<lambda>b. if b = bytes_of ''start'' then
         Some \<lparr>ls_Token = issued_token (bytes_of ''claims'') sample_key, ls_TotalChunks = 1,
               ls_OneTime = True, ls_SecretOnly = False\<rparr> else None),
      d_meta = sample_codec,
      d_iter = (\<lambda>ks. ks)\<rparr>"

lemma sample_deps_ok [simp]: "deps_ok sample_deps"
  by (auto simp: deps_ok_def sample_deps_def sample_messages_def envelope_def int64_range_def
      split: if_splits)

subsection \<open>A store on an empty directory\<close>

definition sample_root :: gopath where
  "sample_root = GoPath True [''d'']"

definition sample_world :: world where
  "sample_world = \<lparr>w_fs = [(sample_root, Dir)], w_faults = []\<rparr>"

definition sample_store :: store where
  "sample_store = empty_store ''/d'' 100"

lemma sample_store_root [simp]: "clean_path (dataDir sample_store) = sample_root"
  by (simp add: sample_store_def empty_store_def clean_path_def sample_root_def starts_with_slash_def
      clean_step_def)

lemma sample_inv [simp]: "state_inv (sample_store, sample_world)"
  unfolding state_inv_def disk_inv_def fst_conv snd_conv sample_store_root
  by (simp add: sample_store_def sample_world_def prefixes_of_def sample_root_def)

lemma sample_exact [simp]: "exact sample_codec (sample_store, sample_world)"
proof -
  have "mget (w_fs sample_world) q = None" if "below (child sample_root i) q" for i q
    using that by (auto simp: sample_world_def below_def)
  moreover have "mget (meta sample_store) i = None" for i
    by (simp add: sample_store_def empty_store_def)
  ultimately show ?thesis
    by (simp add: exact_def durable_def durable_at_def exact_at_def sample_world_def)
qed

lemma sample_durable [simp]: "durable sample_codec (sample_store, sample_world)"
  using sample_exact by (simp add: exact_def)

lemma sample_live [simp]: "live sample_codec (sample_store, sample_world)"
  by (simp add: live_def)

subsection \<open>Connections\<close>

definition sample_conn :: "bytes \<Rightarrow> bytes \<Rightarrow> wsConn" where
  "sample_conn inp rnd =
     \<lparr>c_in = inp, c_end = IO_EOF, c_out = [], c_quota = None, c_rand = rnd, c_closed = False,
      maskOutgoing = False\<rparr>"

lemma sample_conn_open [simp]: "open_server (sample_conn inp rnd)"
  by (simp add: sample_conn_def open_server_def)

lemma sample_conn_simps [simp]: "c_in (sample_conn inp rnd) = inp" "c_rand (sample_conn inp rnd) = rnd"
  "c_out (sample_conn inp rnd) = []" "maskOutgoing (sample_conn inp rnd) = False"
  "c_quota (sample_conn inp rnd) = None"
  by (simp_all add: sample_conn_def)

text \<open>A message in one unmasked frame.\<close>

definition one_frame :: "wsOpcode \<Rightarrow> bytes \<Rightarrow> wframe list" where
  "one_frame opcode b = [WFrame True opcode None b]"

lemma one_frame_carries [simp]:
  "opcode \<in> {opText, opBinary} \<Longrightarrow> length b \<le> 1000 \<Longrightarrow> carries (one_frame opcode b) opcode b"
  by (auto simp: one_frame_def carries_def is_control_def data_of_def sound_frame_def frame_wf_def
      opcode_defs maxMessageSize_def maxFrameSize_def)

end
