(* ===== verification/StoreProps.thy ===== *)
theory StoreProps
  imports StoreRefine Instances
begin

text \<open>
  The properties of the store.  The witnesses run it on an empty data directory: a client creates a
  transfer \<open>t\<close> of two chunks, uploads the first one and time passes.
\<close>

subsection \<open>The run of the witnesses\<close>

lemma store_guard_simps [simp]:
  "store_guard (OpCreate i u r n share now) x \<longleftrightarrow> u \<noteq> [] \<and> r \<noteq> [] \<and> 0 < n \<and> int64_range n"
  "store_guard (OpCreateLink i token n once now) x \<longleftrightarrow> 0 < n \<and> int64_range n"
  "store_guard (OpTouch i now) x" "store_guard (OpWriteChunk i k d now) x" "store_guard (OpSweep now) x"
  by (cases x; simp)+

definition sample_state :: state where
  "sample_state = (sample_store, sample_world)"

definition sample_ops :: "store_op list" where
  "sample_ops = [OpCreate ''t'' ''u'' ''v'' 2 False 5, OpWriteChunk ''t'' 0 [1] 6,
     OpWriteChunk ''t'' 9 [2] 7, OpSweep 50]"

definition sample_run :: state where
  "sample_run = run (store_step sample_codec (\<lambda>ks. ks)) sample_ops sample_state"

lemma sample_guard [simp]:
  "guarded_run (store_step sample_codec (\<lambda>ks. ks)) store_guard sample_ops sample_state"
  by (simp add: sample_ops_def int64_range_def)

lemma sample_state_ok [simp]:
  "live sample_codec sample_state" "state_inv sample_state" "durable sample_codec sample_state"
  by (simp_all add: sample_state_def)

lemma sample_ttl [simp]: "ttl (fst sample_state) = 100"
  by (simp add: sample_state_def sample_store_def empty_store_def)

lemma sample_store_empty [simp]: "senderCount sample_store u = 0" "getMeta sample_store i = None"
  "mget (meta sample_store) i = None"
  by (simp_all add: sample_store_def empty_store_def senderCount_def count_vals_def getMeta_def)

lemma sample_spec [simp]: "spec_of sample_state = Map.empty"
  by (rule ext) (simp add: sample_state_def spec_of_at sample_store_def empty_store_def)

lemma valid_t [simp]: "validTransferID ''t''"
  by (simp add: validTransferID_def id_char_def)

definition sample_entry :: spec_entry where
  "sample_entry = ((direct_meta ''t'' ''u'' ''v'' 2 False 5)\<lparr>TouchedAt := 6\<rparr>, [0 \<mapsto> [1]], {})"

lemma sample_fold: "fold (spec_step 100) sample_ops Map.empty = [''t'' \<mapsto> sample_entry]"
  by (rule ext) (simp add: sample_ops_def sample_entry_def spec_update_def spec_count_def direct_meta_def)

lemma sample_run_spec: "spec_of sample_run = [''t'' \<mapsto> sample_entry]"
  using run_spec [of sample_codec sample_state "\<lambda>ks. ks" sample_ops]
  by (simp add: sample_run_def sample_fold)

lemma sample_run_ok [simp]: "live sample_codec sample_run" "state_inv sample_run"
  using run_spec [OF sample_state_ok(1) sample_guard map_iteration_id]
  by (simp_all add: sample_run_def live_def)

lemma sample_run_meta [simp]:
  "getMeta (fst sample_run) ''t'' = Some (fst sample_entry)"
  using fun_cong [OF sample_run_spec, of "''t''"]
  by (auto simp: sample_entry_def spec_of_Some abs_state_def)

subsection \<open>Runs of operations\<close>

lemma run_confined:
  "state_inv x \<Longrightarrow> guarded_run (store_step c iter) store_guard ops x \<Longrightarrow> map_iteration iter \<Longrightarrow>
     same_outside (store_root (fst x)) (snd x) (snd (run (store_step c iter) ops x))
     \<and> same_config (fst x) (fst (run (store_step c iter) ops x))"
proof (induction ops arbitrary: x)
  case (Cons op ops)
  let ?y = "store_step c iter op x"
  have "same_outside (store_root (fst x)) (snd x) (snd ?y) \<and> same_config (fst x) (fst ?y)"
    using store_step_confined [of "fst x" "snd x" op iter c] Cons.prems by simp
  moreover have "same_outside (store_root (fst ?y)) (snd ?y) (snd (run (store_step c iter) ops ?y))
      \<and> same_config (fst ?y) (fst (run (store_step c iter) ops ?y))"
    using Cons.IH [of ?y] Cons.prems store_step_inv [of x op iter c] by simp
  ultimately show ?case by (auto simp: same_config_def intro: same_outside_trans)
qed (simp add: same_config_def)

text \<open>C1: (refinement) Whatever sequence of operations runs, in whatever order the maps are ranged over,
  the store of \<open>store.go\<close> on a disk that does not fail behaves as the specification's map from ids to
  metadata, chunks and served indices: the abstraction commutes with the whole run.\<close>

theorem store_refines_spec:
  assumes "live c x" "map_iteration iter" "guarded_run (store_step c iter) store_guard ops x"
  shows "spec_of (run (store_step c iter) ops x) = fold (spec_step (ttl (fst x))) ops (spec_of x)"
  using run_spec [OF assms(1,3,2)] by simp

theorem store_refines_spec_witness:
  "spec_of sample_run = [''t'' \<mapsto> sample_entry] \<and> fst (snd sample_entry) 0 = Some [1]
     \<and> live sample_codec sample_state
     \<and> guarded_run (store_step sample_codec (\<lambda>ks. ks)) store_guard sample_ops sample_state"
  using store_refines_spec [of sample_codec sample_state "\<lambda>ks. ks" sample_ops]
  by (simp add: sample_run_def sample_fold, simp add: sample_entry_def)

text \<open>C10: (invariant) Every sequence of operations, whatever the disk does to them (calls may fail, or fail
  half way), keeps the store's invariant: ids are valid and name their own record, chunk counts are
  positive, received and served indices are in range and never outlive their transfer, a burnt link is
  gone, no account has more than 1000 transfers.\<close>

theorem store_runs_keep_inv:
  assumes "state_inv x" "map_iteration iter" "guarded_run (store_step c iter) store_guard ops x"
  shows "state_inv (run (store_step c iter) ops x)"
  using store_machine.run_inv [of iter x c ops] assms by simp

definition faulty_state :: state where
  "faulty_state = (sample_store, sample_world\<lparr>w_faults := [NoFault, FailAfter 3, FailNow]\<rparr>)"

lemma faulty_state_ok [simp]: "state_inv faulty_state" "durable sample_codec faulty_state"
  using unchanged_inv [of sample_state faulty_state] unchanged_durable [of sample_state faulty_state]
  by (simp_all add: unchanged_def faulty_state_def sample_state_def)

lemma faulty_guard [simp]:
  "guarded_run (store_step sample_codec (\<lambda>ks. ks)) store_guard sample_ops faulty_state"
  by (simp add: sample_ops_def int64_range_def)

theorem store_runs_keep_inv_witness:
  "state_inv (run (store_step sample_codec (\<lambda>ks. ks)) sample_ops faulty_state)"
  using store_runs_keep_inv [of faulty_state "\<lambda>ks. ks" sample_codec sample_ops] by simp

text \<open>No sequence of operations, under any faults, creates, changes or removes a file or
  directory outside the data directory.\<close>

theorem store_runs_confined:
  assumes "state_inv x" "map_iteration iter" "guarded_run (store_step c iter) store_guard ops x"
    "\<not> below (store_root (fst x)) q"
  shows "mget (w_fs (snd (run (store_step c iter) ops x))) q = mget (w_fs (snd x)) q"
  using run_confined [OF assms(1,3,2)] assms(4) by (simp add: same_outside_def)

theorem store_runs_confined_witness:
  "mget (w_fs (snd (run (store_step sample_codec (\<lambda>ks. ks)) sample_ops faulty_state))) (GoPath True [''etc''])
     = None"
proof -
  have s: "store_root (fst faulty_state) = sample_root" by (simp add: faulty_state_def)
  then have "\<not> below (store_root (fst faulty_state)) (GoPath True [''etc''])"
    unfolding s by (simp add: below_def sample_root_def)
  from store_runs_confined [OF faulty_state_ok(1) map_iteration_id faulty_guard this]
  show ?thesis by (simp add: faulty_state_def sample_world_def sample_root_def)
qed



text \<open>Restarting a store that ran on a disk without faults gives back the specification's
  map, every chunk and time stamp included, but for the served indices, which are only kept in memory;
  and the restarted store can go on in the same way.\<close>

theorem restart_roundtrip:
  assumes "live c x" "map_iteration iter" "guarded_run (store_step c iter) store_guard ops x"
    "run (store_step c iter) ops x = (s, w)"
  shows "\<exists>s'. newStore c (dataDir s) (ttl s) w = (Inr s', w) \<and> live c (s', w)
    \<and> spec_of (s', w) = (\<lambda>i. map_option (\<lambda>(m, f, v). (m, f, {}))
         (fold (spec_step (ttl (fst x))) ops (spec_of x) i))"
  using restart_live [of c s w] run_spec [OF assms(1,3,2)] assms(4) by simp

theorem restart_roundtrip_witness:
  "\<exists>(s :: store) w s'. newStore sample_codec (dataDir s) (ttl s) w = (Inr s', w)
     \<and> spec_of (s', w) = [''t'' \<mapsto> sample_entry]"
proof -
  obtain s w where r: "run (store_step sample_codec (\<lambda>ks. ks)) sample_ops sample_state = (s, w)" by fastforce
  obtain s' where n: "newStore sample_codec (dataDir s) (ttl s) w = (Inr s', w)"
    and sp: "spec_of (s', w) = (\<lambda>i. map_option (\<lambda>(m, f, v). (m, f, {})) (fold (spec_step 100) sample_ops Map.empty i))"
    using restart_roundtrip [OF sample_state_ok(1) map_iteration_id sample_guard r] by auto
  have "spec_of (s', w) = [''t'' \<mapsto> sample_entry]"
    unfolding sp sample_fold by (rule ext) (simp add: sample_entry_def)
  with n show ?thesis by blast
qed

text \<open>C22: (error) \<open>createTransfer\<close> on every branch: an existing id is accepted as it is, a malformed id and a
  sender with 1000 transfers are refused with their own errors and nothing changes, and on a disk that
  does not fail every other request succeeds with exactly the requested record.\<close>

theorem createTransfer_outcome:
  assumes lv: "live c (s, w)" and g: "u \<noteq> []" "r \<noteq> []" "0 < n" "int64_range n"
    and y: "createTransfer c i u r n share now s w = (res, s', w')"
  shows "res = (if getMeta s i \<noteq> None then Inr ()
                else if \<not> validTransferID i then Inl (Err ''invalid transfer id'')
                else if senderCount s u \<ge> 1000 then Inl (Err ''transfer limit reached for this account'')
                else Inr ())
    \<and> (if getMeta s i \<noteq> None \<or> \<not> is_ok res then (s', w') = (s, w)
       else getMeta s' i = Some (direct_meta i u r n share now) \<and> receivedIndices s' i = [])"
proof -
  have l: "meta_codec_ok c" "codec_total c" "state_inv (s, w)" "exact c (s, w)" using lv by (auto simp: live_def)
  let ?m = "direct_meta i u r n share now"
  have sel: "TransferID ?m = i" by (simp add: direct_meta_def)
  have wf: "validTransferID i \<Longrightarrow> meta_wf (TransferID ?m) ?m"
    using g by (simp add: meta_wf_def direct_meta_def direct_form_def)
  have inst: "mget (meta s) i = None \<Longrightarrow> validTransferID i \<Longrightarrow> \<exists>s' w'. install_transfer c ?m s w = (Inr (), s', w')
      \<and> s' = s\<lparr>meta := mput i ?m (meta s), received := mput i [] (received s)\<rparr>"
    using exact_install [OF l, of ?m] wf by (auto simp: sel)
  note d = y [unfolded createTransfer_def maxTransfersPerSender_def]
  show ?thesis using d inst by (auto simp: getMeta_def receivedIndices_def split: if_splits)
qed

theorem createTransfer_outcome_witness:
  "fst (createTransfer sample_codec ''../x'' ''u'' ''v'' 2 False 5 sample_store sample_world)
     = Inl (Err ''invalid transfer id'')
   \<and> fst (createTransfer sample_codec ''t'' ''u'' ''v'' 2 False 5 sample_store sample_world) = Inr ()"
proof -
  have g: "''u'' \<noteq> []" "''v'' \<noteq> []" "(0 :: int) < 2" "int64_range 2" by (simp_all add: int64_range_def)
  have e: "fst (createTransfer sample_codec i ''u'' ''v'' 2 False 5 sample_store sample_world)
      = (if \<not> validTransferID i then Inl (Err ''invalid transfer id'') else Inr ())" for i
  proof -
    obtain r s w where "createTransfer sample_codec i ''u'' ''v'' 2 False 5 sample_store sample_world = (r, s, w)"
      by (metis prod_cases3)
    from createTransfer_outcome [OF sample_live g this] this show ?thesis by simp
  qed
  have "\<not> validTransferID ''../x''" by (simp add: validTransferID_def id_char_def)
  then show ?thesis unfolding e by simp
qed

text \<open>C21: (functional) \<open>writeChunk\<close> on every branch: an unknown transfer and an index outside
  \<open>[0, TotalChunks)\<close> are refused with their errors and change nothing; otherwise, on a disk that does not
  fail, it succeeds and reading the chunk back gives the bytes written.\<close>

theorem writeChunk_outcome:
  assumes lv: "live c (s, w)" and y: "writeChunk c i k d now s w = (res, s', w')"
  shows "case getMeta s i of
      None \<Rightarrow> res = Inl ErrNotExist \<and> (s', w') = (s, w)
    | Some m \<Rightarrow>
        if k < 0 \<or> k \<ge> TotalChunks m then res = Inl ErrInvalid \<and> (s', w') = (s, w)
        else res = Inr () \<and> readChunk s' i k w' = (Inr d, w') \<and> k \<in> set (receivedIndices s' i)
             \<and> getMeta s' i = Some (m\<lparr>TouchedAt := now\<rparr>)"
proof (cases "mget (meta s) i")
  case None
  then show ?thesis using y by (simp add: writeChunk_def getMeta_def)
next
  case (Some m)
  have l: "meta_codec_ok c" "codec_total c" "state_inv (s, w)" "exact c (s, w)" using lv by (auto simp: live_def)
  show ?thesis
  proof (cases "k < 0 \<or> k \<ge> TotalChunks m")
    case True
    then show ?thesis using y Some by (auto simp: writeChunk_def writeChunk_file_def getMeta_def)
  next
    case False
    then have ok: "res = Inr ()" using exact_writeChunk(3) [OF l Some, of k d now] y by simp
    have lv': "live c (s', w')" using live_step [OF lv, of "OpWriteChunk i k d now" "\<lambda>ks. ks"] y by simp
    have y': "writeChunk c i k d now s w = (Inr (), s', w')" using y ok by simp
    obtain m1 f where a: "abs_state (s, w) i = Some (m1, f)"
      "abs_state (s', w') i = Some (m1\<lparr>TouchedAt := now\<rparr>, f(k \<mapsto> d))"
      using writeChunk_refines [OF l(3) y'] by auto
    have m1: "m1 = m" using a(1) Some by (simp add: abs_state_def getMeta_def)
    have m': "mget (meta s') i = Some (m\<lparr>TouchedAt := now\<rparr>)" "chunk_of (s', w') i k = Some d"
      using a(2) m1 by (auto simp: abs_state_def getMeta_def)
    have k: "k \<in> received_set s' i" using m'(2) by (auto simp: chunk_of_def split: if_splits)
    have "durable c (s', w')" "w_faults w' = []" using lv' by (simp_all add: live_def exact_def)
    from readChunk_ok [OF this m'(1) k] m'(2)
    show ?thesis using Some False ok m'(1) k by (simp add: getMeta_def)
  qed
qed

theorem writeChunk_outcome_witness:
  "case sample_run of (s, w) \<Rightarrow>
     (case writeChunk sample_codec ''t'' 1 [8, 9] 60 s w of (res, s', w') \<Rightarrow>
        res = Inr () \<and> readChunk s' ''t'' 1 w' = (Inr [8, 9], w'))"
proof -
  obtain s w where r: "sample_run = (s, w)" by fastforce
  obtain res s' w' where y: "writeChunk sample_codec ''t'' 1 [8, 9] 60 s w = (res, s', w')"
    by (metis prod_cases3)
  have m: "getMeta s ''t'' = Some (fst sample_entry)" using sample_run_meta unfolding r by simp
  show ?thesis
    using writeChunk_outcome [OF sample_run_ok(1) [unfolded r] y] m unfolding r prod.case y
    by (simp add: sample_entry_def direct_meta_def)
qed

text \<open>No path traversal. A transfer's directory is a direct child of the data directory named by
  its id, the files the store writes for it are direct children of that directory, and the trees of two
  transfers are disjoint.\<close>

theorem transfer_paths_confined:
  fixes s :: store
  assumes "dataDir s \<noteq> []" "validTransferID i"
  shows "parent (transferDir s i) = clean_path (dataDir s) \<and> base (transferDir s i) = i
    \<and> parent (meta_path (transferDir s i)) = transferDir s i \<and> parent (tmp_path (transferDir s i)) = transferDir s i
    \<and> parent (chunk_path (transferDir s i) k) = transferDir s i
    \<and> (\<forall>j q. validTransferID j \<longrightarrow> i \<noteq> j \<longrightarrow> below (transferDir s i) q \<longrightarrow> \<not> below (transferDir s j) q)"
  using assms below_child_other by (auto simp: transferDir_child path_simps)

theorem transfer_paths_confined_witness:
  "parent (transferDir sample_store ''t'') = sample_root
   \<and> \<not> below (transferDir sample_store ''r'') (chunk_path (transferDir sample_store ''t'') 4)"
proof -
  have d: "dataDir sample_store \<noteq> []" by (simp add: sample_store_def empty_store_def)
  have v: "validTransferID ''r''" "''t'' \<noteq> ''r''" by (simp_all add: validTransferID_def id_char_def)
  have "below (transferDir sample_store ''t'') (chunk_path (transferDir sample_store ''t'') 4)"
    by (simp add: chunk_path_child)
  then show ?thesis
    using transfer_paths_confined [OF d valid_t, of 0] v sample_store_root by metis
qed

text \<open>The cap, as the number of an account's transfers.\<close>

lemma sender_bound:
  assumes "state_inv x" "map_iteration iter" "guarded_run (store_step c iter) store_guard ops x" "u \<noteq> []"
  shows "card {i. \<exists>m. getMeta (fst (run (store_step c iter) ops x)) i = Some m \<and> From m = u} \<le> 1000"
proof -
  obtain s w where y: "run (store_step c iter) ops x = (s, w)" by fastforce
  have si: "store_inv s"
    using store_machine.run_inv [of iter x c ops] assms(1-3) y by (simp add: state_inv_def)
  have "{i. \<exists>m. mget (meta s) i = Some m \<and> From m = u}
      = {i. \<exists>m f v. spec_of (s, w) i = Some (m, f, v) \<and> From m = u}"
    by (auto simp: spec_of_at)
  then show ?thesis
    using spec_count_of [OF store_invD(2) [OF si], of w u] store_invD(8) [OF si assms(4)] y
    by (simp add: spec_count_def maxTransfersPerSender_def getMeta_def)
qed

text \<open>Isolation. An operation changes nothing of a transfer it is not about: not its record, not
  its index sets, not a file of its directory. A sweep is about the transfers that have expired.\<close>

theorem store_op_isolation:
  assumes "state_inv x" "store_guard op x" "map_iteration iter" "j \<notin> op_targets iter op (fst x)"
  shows "same_transfer j (fst x) (fst (store_step c iter op x))
    \<and> (\<forall>q. below (child (store_root (fst x)) j) q \<longrightarrow>
         mget (w_fs (snd (store_step c iter op x))) q = mget (w_fs (snd x)) q)"
  using assms
    store_step_isolation(1) [of "fst x" "snd x" op iter j c "fst (store_step c iter op x)" "snd (store_step c iter op x)"]
    store_step_isolation(2) [of "fst x" "snd x" op iter j c "fst (store_step c iter op x)" "snd (store_step c iter op x)"]
  by simp_all

theorem store_op_isolation_witness:
  "same_transfer ''t'' (fst sample_run)
     (fst (store_step sample_codec (\<lambda>ks. ks) (OpCreateLink ''l'' ''m'' 3 True 70) sample_run))
   \<and> getMeta (fst (store_step sample_codec (\<lambda>ks. ks) (OpCreateLink ''l'' ''m'' 3 True 70) sample_run)) ''t''
     = Some (fst sample_entry)"
proof -
  have "store_guard (OpCreateLink ''l'' ''m'' 3 True 70) sample_run" by (simp add: int64_range_def)
  from store_op_isolation [OF sample_run_ok(2) this map_iteration_id, of "''t''" sample_codec]
  have s: "same_transfer ''t'' (fst sample_run)
     (fst (store_step sample_codec (\<lambda>ks. ks) (OpCreateLink ''l'' ''m'' 3 True 70) sample_run))" by simp
  then show ?thesis using sample_run_meta by (simp add: same_transfer_def getMeta_def)
qed

text \<open>C30: (functional) \<open>listForRecipient\<close> returns each transfer addressed to the caller exactly once, with
  its own id, sender, size, time and shareable flag, and no other transfer.\<close>

theorem listForRecipient_exact:
  assumes inv: "store_inv s" and iter: "map_iteration iter"
  shows "set (listForRecipient iter s u) = {summary_of m | i m. getMeta s i = Some m \<and> To m = u}
    \<and> distinct (map ts_TransferID (listForRecipient iter s u))"
proof
  have r: "set (range_meta iter s) = {m. \<exists>i. mget (meta s) i = Some m}"
  proof -
    have mf: "set (List.map_filter g xs) = {m. \<exists>i \<in> set xs. g i = Some m}"
      for g :: "string \<Rightarrow> transferMeta option" and xs
      by (force simp: map_filter_def)
    have "set (iter (map fst (meta s))) = fst ` set (meta s)" using map_iteration_set [OF iter] by simp
    then show ?thesis unfolding range_meta_def mf using mget_key [of "meta s"] by blast
  qed
  show "set (listForRecipient iter s u) = {summary_of m | i m. getMeta s i = Some m \<and> To m = u}"
    using r by (auto simp: listForRecipient_def getMeta_def)
  have id: "mget (meta s) i = Some m \<Longrightarrow> TransferID m = i" for i m
    using store_inv_meta [OF inv] by (auto simp: meta_wf_def)
  have "map TransferID (range_meta iter s) = filter (\<lambda>i. mget (meta s) i \<noteq> None) (iter (map fst (meta s)))"
  proof -
    have "map TransferID (List.map_filter (mget (meta s)) xs) = filter (\<lambda>i. mget (meta s) i \<noteq> None) xs" for xs
      by (induction xs) (auto simp: map_filter_simps id split: option.splits)
    then show ?thesis by (simp add: range_meta_def)
  qed
  then have "distinct (map TransferID (range_meta iter s))"
    using map_iteration_distinct [OF iter store_invD(2) [OF inv]] by simp
  then show "distinct (map ts_TransferID (listForRecipient iter s u))"
    by (simp add: listForRecipient_def summary_of_def comp_def distinct_map_filter)
qed

theorem listForRecipient_exact_witness:
  "summary_of (fst sample_entry) \<in> set (listForRecipient rev (fst sample_run) ''v'')
   \<and> listForRecipient rev (fst sample_run) ''w'' = []"
proof -
  have i: "store_inv (fst sample_run)" using sample_run_ok(2) by (simp add: state_inv_def)
  have to_v: "To (fst sample_entry) = ''v''" by (simp add: sample_entry_def direct_meta_def)
  have only: "getMeta (fst sample_run) i = Some m \<Longrightarrow> m = fst sample_entry" for i m
    using fun_cong [OF sample_run_spec, of i] spec_of_None [of sample_run i] sample_run_meta
    by (auto split: if_splits)
  have "\<not> (getMeta (fst sample_run) i = Some m \<and> To m = ''w'')" for i m
    using only [of i m] by (auto simp: sample_entry_def direct_meta_def)
  then have "set (listForRecipient rev (fst sample_run) ''w'') = {}"
    unfolding conjunct1 [OF listForRecipient_exact [OF i map_iteration_rev, of "''w''"]] by blast
  moreover have "summary_of (fst sample_entry) \<in> set (listForRecipient rev (fst sample_run) ''v'')"
    unfolding conjunct1 [OF listForRecipient_exact [OF i map_iteration_rev, of "''v''"]]
    using sample_run_meta to_v by blast
  ultimately show ?thesis by simp
qed

end
