(* ===== verification/WsHandler.thy ===== *)
theory WsHandler
  imports WsSession WsHandshake
begin

text \<open>
  \<open>handleWS\<close> of \<open>server.go\<close> as a whole: upgrade, authenticate, then the read loop until it returns,
  and the deferred close.  \<open>nows\<close> are the readings of the clock the turns of the loop make: the loop
  runs at most as many turns, and once there are more readings than bytes on the connection their
  number no longer matters (\<open>handleWS_enough\<close>).
\<close>

definition handleWS :: "deps \<Rightarrow> string \<Rightarrow> brokerKeySource \<Rightarrow> (string \<Rightarrow> string) \<Rightarrow> wsConn res option
     \<Rightarrow> int \<Rightarrow> int \<Rightarrow> int list \<Rightarrow> state \<Rightarrow> wsConn option \<times> state" where
  "handleWS d minTier ks hdr hijack now1 now2 nows x =
     (case upgradeWebSocket hdr hijack of
        (Inl e, c) \<Rightarrow> (c, x)
      | (Inr _, None) \<Rightarrow> (None, x)
      | (Inr _, Some c) \<Rightarrow>
         (case authenticate d minTier ks now1 now2 c of
            (Inl e, c1) \<Rightarrow> (Some (snd (ws_Close c1)), x)
          | (Inr (pubkey, tok), c1) \<Rightarrow>
             (case session_run d pubkey nows c1 x of
                (_, c2, y) \<Rightarrow> (Some (snd (ws_Close c2)), y))))"

lemma ws_Close_closed [simp]: "c_closed (snd (ws_Close c))"
  by (auto simp: ws_Close_def conn_close_def)

lemma conn_close_closed [simp]: "c_closed (snd (conn_close c))"
  by (simp add: conn_close_def)

lemma authenticate_input:
  assumes "authenticate d minTier ks now1 now2 c = (Inr (u, tok), c')"
  shows "length (c_in c') \<le> length (c_in c)"
proof -
  obtain hello c1 challenge c2 resp c3 where
    a: "read_hello d c = (Inr hello, c1)" "send_challenge d u c1 = (Inr challenge, c2)"
    "read_response d c2 = (Inr resp, c3)" "reply d ((envelope ''auth_ok'')\<lparr>env_OK := True\<rparr>) c3 = (Inr (), c')"
    using authenticate_Inr [OF assms] by metis
  obtain b rest where "WriteMessage b (c1\<lparr>c_rand := rest\<rparr>) = (Inr (), c2)"
    using send_challenge_Inr [OF a(2)] by metis
  then have "c_in c2 = c_in c1" using writeFrame_same by (fastforce simp: WriteMessage_def)
  moreover have "conn_grows c c1" "conn_grows c2 c3" "conn_grows c3 c'"
    using a(1,3,4) by (auto simp: read_hello_def read_response_def dest: read_envelope_grows reply_grows)
  ultimately show ?thesis by (auto simp: conn_grows_def dest!: suffix_length_le)
qed

lemma upgrade_input:
  "upgradeWebSocket hdr (Some (Inr conn)) = (Inr (), Some c) \<Longrightarrow> c_in c = c_in conn"
  by (auto simp: upgradeWebSocket_def Let_def dest!: conn_write_same split: if_splits prod.splits sum.splits)

lemma upgrade_failed_closed:
  "upgradeWebSocket hdr hijack = (Inl e, Some c) \<Longrightarrow> c_closed c"
  by (auto simp: upgradeWebSocket_def Let_def split: if_splits prod.splits sum.splits option.splits)

lemma session_run_ended:
  "fst (session_run d u nows c x) = False \<Longrightarrow> session_run d u (nows @ later) c x = session_run d u nows c x"
  by (induction nows arbitrary: c x) (auto split: prod.splits bool.splits)

lemma session_run_inv:
  "session_run d u nows c x = (b, c', y) \<Longrightarrow> deps_ok d \<Longrightarrow> u \<noteq> [] \<Longrightarrow> state_inv x \<Longrightarrow> state_inv y"
proof (induction nows arbitrary: c x)
  case (Cons now nows)
  then show ?case by (auto dest: session_turn_inv split: prod.splits bool.splits)
qed simp

lemma handleWS_enough:
  assumes "hijack = Some (Inr conn)" "length (c_in conn) < length nows"
  shows "handleWS d minTier ks hdr hijack now1 now2 (nows @ later) x
    = handleWS d minTier ks hdr hijack now1 now2 nows x"
proof (cases "upgradeWebSocket hdr hijack")
  case (Pair r oc)
  then show ?thesis
  proof (cases r)
    case (Inr v)
    show ?thesis
    proof (cases oc)
      case (Some c)
      have c: "c_in c = c_in conn" using upgrade_input Pair Inr Some assms(1) by simp
      obtain a c1 where a: "authenticate d minTier ks now1 now2 c = (a, c1)" by fastforce
      have "session_run d u (nows @ later) c1 x = session_run d u nows c1 x" if "a = Inr (u, tok)" for u tok
        using authenticate_input a that c assms(2) by (intro session_run_ended session_ends) fastforce
      then show ?thesis using Pair Inr Some a by (auto simp: handleWS_def split: sum.splits)
    qed (use Pair Inr in \<open>simp add: handleWS_def\<close>)
  qed (simp add: handleWS_def)
qed

lemma handleWS_closes:
  "handleWS d minTier ks hdr hijack now1 now2 nows x = (Some c, y) \<Longrightarrow> c_closed c"
  by (auto simp: handleWS_def dest: upgrade_failed_closed split: prod.splits sum.splits option.splits)

lemma handleWS_inv:
  assumes "handleWS d minTier ks hdr hijack now1 now2 nows x = (oc, y)" "deps_ok d" "state_inv x"
  shows "state_inv y"
  using assms by (auto simp: handleWS_def split: prod.splits sum.splits option.splits
      dest!: authenticate_pubkey intro: session_run_inv)

end
