(* ===== verification/WsProps.thy ===== *)
theory WsProps
  imports WsHandler Instances
begin

text \<open>
  The properties of the WebSocket layer of \<open>ws.go\<close> and of the connection handler: framing, messages,
  the handshake, the end of a session.
\<close>

text \<open>C18: (roundtrip) A frame written by either side of a connection (a server does not mask, a client masks
  with a fresh key) is read back by the other side: same opcode, same payload, final bit set, and exactly
  the frame's bytes are taken from the input, for all three encodings of the length.\<close>

theorem frame_roundtrip:
  assumes "opcode AND 0x0F = opcode" "length p \<le> maxFrameSize" "c_quota c = None"
    "maskOutgoing c \<Longrightarrow> 4 \<le> length (c_rand c)"
  shows "\<exists>c' b. writeFrame opcode p c = (Inr (), c') \<and> c_out c' = c_out c @ b
    \<and> (\<forall>r rest. c_in r = b @ rest \<longrightarrow> readFrame r = (Inr (True, opcode, p), r\<lparr>c_in := rest\<rparr>))"
proof (cases "maskOutgoing c")
  case True
  then have k: "c_rand c = take 4 (c_rand c) @ drop 4 (c_rand c)" "length (take 4 (c_rand c)) = 4"
    using assms(4) by simp_all
  have "frame_wf opcode (Some (take 4 (c_rand c))) p" using assms(1,2) k(2) by (simp add: frame_wf_def)
  then show ?thesis using writeFrame_client [OF True assms(3) k] readFrame_frame by simp
next
  case False
  have "frame_wf opcode None p" using assms(1,2) by (simp add: frame_wf_def)
  then show ?thesis using writeFrame_server [OF False assms(3)] readFrame_frame by simp
qed

theorem frame_roundtrip_witness:
  "\<exists>c' b. writeFrame opBinary (replicate 70000 5) ((sample_conn [] [1, 2, 3, 4])\<lparr>maskOutgoing := True\<rparr>) = (Inr (), c')
    \<and> (\<forall>r. c_in r = b @ [1] \<longrightarrow> readFrame r = (Inr (True, opBinary, replicate 70000 5), r\<lparr>c_in := [1]\<rparr>))"
  using frame_roundtrip [of opBinary "replicate 70000 5" "(sample_conn [] [1, 2, 3, 4])\<lparr>maskOutgoing := True\<rparr>"]
  by (auto simp: opBinary_def maxFrameSize_def)

text \<open>C17: (functional) A message cut into fragments any way, with pings and pongs between them, is put together
  again: \<open>ReadMessage\<close> returns the fragments' data in order and the first opcode, answers every ping with
  its own payload, and leaves the bytes after the last fragment for the next call.\<close>

theorem message_reassembled:
  assumes "opcode \<in> {opText, opBinary}" "message_frames opcode False fs" "list_all sound_frame fs"
    "length (data_of fs) \<le> maxMessageSize" "\<not> maskOutgoing c" "c_quota c = None" "c_in c = wire fs @ rest"
  shows "ReadMessage c = (Inr (data_of fs, opcode), c\<lparr>c_in := rest, c_out := c_out c @ pongs fs\<rparr>)"
  using ReadMessage_carries [of fs opcode "data_of fs" c rest] assms by (simp add: carries_def open_server_def)

definition three_frames :: "wframe list" where
  "three_frames = [WFrame False opText (Some [1, 2, 3, 4]) [10], WFrame True opPing None [7],
     WFrame True opContinuation (Some [4, 3, 2, 1]) [20, 30]]"

theorem message_reassembled_witness:
  "fst (ReadMessage (sample_conn (wire three_frames @ [99]) [])) = Inr ([10, 20, 30], opText)
   \<and> c_in (snd (ReadMessage (sample_conn (wire three_frames @ [99]) []))) = [99]
   \<and> c_out (snd (ReadMessage (sample_conn (wire three_frames @ [99]) []))) = [0x8A, 1, 7]"
proof -
  have f: "message_frames opText False three_frames" "list_all sound_frame three_frames"
    "data_of three_frames = [10, 20, 30]" "pongs three_frames = [0x8A, 1, 7]"
    by (simp_all add: three_frames_def is_control_def sound_frame_def frame_wf_def data_of_def pongs_def opcode_defs
        maxFrameSize_def frame_bytes_def frame_header_def byte_of_nat_def Let_def)
  have "length (data_of three_frames) \<le> maxMessageSize" by (simp add: f(3) maxMessageSize_def maxFrameSize_def)
  from message_reassembled [OF _ f(1,2) this, of "sample_conn (wire three_frames @ [99]) []" "[99]"]
  show ?thesis by (simp add: f(3,4))
qed

text \<open>C24: (bounds) Whatever bytes a client sends, before or after it has authenticated, a message the server
  accepts is at most 24 MiB long and is text or binary, and reading it took at least one byte off the input;
  a frame is at most 6 MiB.\<close>

theorem received_bounds:
  assumes "ReadMessage c = (Inr (p, opcode), c')" "readFrame c2 = (Inr (fin, op2, q), c2')"
  shows "length p \<le> 24 * 2 ^ 20 \<and> opcode \<in> {opText, opBinary} \<and> length (c_in c') < length (c_in c)
    \<and> length q \<le> 6 * 2 ^ 20 \<and> length (c_in c2') < length (c_in c2)"
  using ReadMessage_ok(2) [OF assms(1)] readFrame_bound [OF assms(2)] readFrame_consumes [OF assms(2)]
  by (simp add: maxMessageSize_def maxFrameSize_def)

theorem received_bounds_witness:
  "\<exists>c'. ReadMessage (sample_conn (wire (one_frame opText [5]) @ []) []) = (Inr ([5], opText), c')
    \<and> length (c_in c') < length (wire (one_frame opText [5]))"
proof -
  let ?c = "sample_conn (wire (one_frame opText [5]) @ []) []"
  obtain c' where m: "ReadMessage ?c = (Inr ([5], opText), c')"
    using ReadMessage_carries [of "one_frame opText [5]" opText "[5]" ?c "[]"] by simp
  have "frame_wf opText None [5]" by (simp add: frame_wf_def opText_def maxFrameSize_def)
  then obtain c2 where "readFrame ?c = (Inr (True, opText, [5]), c2)"
    using readFrame_frame [of opText None "[5]" ?c True "[]"] by (simp add: one_frame_def wire_def)
  from received_bounds [OF m this] m show ?thesis by auto
qed


definition sample_hdr :: "string \<Rightarrow> string" where
  "sample_hdr n = (if n = ''Upgrade'' then ''WebSocket'' else if n = ''Sec-WebSocket-Key'' then std_encode (replicate 16 9) else [])"


text \<open>C32: (equivalence) The two sides of the handshake agree: the client of \<open>dialWebSocket\<close>, given the server's
  answer to a request that carries the client's own key, accepts the connection, will mask its frames while
  the server will not, and finds the server's first frame next on its input.\<close>

theorem handshake_agreement:
  assumes "upgradeWebSocket hdr (Some (Inr sc)) = (Inr (), Some sc')" "c_quota sc = None"
    "hdr ''Sec-WebSocket-Key'' = std_encode keyBytes" "length keyBytes = 16"
    "c_rand conn = keyBytes @ r" "c_quota conn = None" "c_in conn = drop (length (c_out sc)) (c_out sc') @ rest"
  shows "\<exists>c. dialWebSocket (Inr conn) addr path = (Inr (), Some c) \<and> c_in c = rest
    \<and> maskOutgoing c \<and> \<not> maskOutgoing sc'"
proof -
  have "c_out sc' = c_out sc @ bytes_of (upgrade_response (std_encode keyBytes)) \<and> \<not> maskOutgoing sc'"
    using assms(1,2,3) by (auto simp: upgradeWebSocket_def conn_write_def Let_def split: if_splits)
  then show ?thesis using handshake_agrees [of conn keyBytes rest r addr path] assms(4-7) by auto
qed

theorem handshake_agreement_witness:
  "\<exists>sc' c. upgradeWebSocket sample_hdr (Some (Inr (sample_conn [] []))) = (Inr (), Some sc')
     \<and> dialWebSocket (Inr (sample_conn (c_out sc' @ [1, 2]) (replicate 16 9))) ''host'' ''/ws'' = (Inr (), Some c)
     \<and> c_in c = [1, 2]"
proof -
  have "equal_fold ''WebSocket'' ''websocket''" by code_simp
  then have u: "equal_fold (sample_hdr ''Upgrade'') ''websocket''"
    "sample_hdr ''Sec-WebSocket-Key'' = std_encode (replicate 16 9)"
    by (simp_all add: sample_hdr_def)
  have ne: "std_encode (replicate 16 9) \<noteq> []"
    using std_encode_inject [of "replicate 16 9" "[]"] by (auto simp: std_encode_def)
  obtain sc' where up: "upgradeWebSocket sample_hdr (Some (Inr (sample_conn [] []))) = (Inr (), Some sc')"
    using u ne by (simp add: upgradeWebSocket_def conn_write_def Let_def)
  from handshake_agreement [OF up _ u(2), of "sample_conn (c_out sc' @ [1, 2]) (replicate 16 9)" "[]" "[1, 2]" "''host''" "''/ws''"]
  show ?thesis using up by auto
qed

end
