(* ===== verification/AuthProps.thy ===== *)
theory AuthProps
  imports StoreProps MainProg
begin

text \<open>
  The properties of who is let in: access tokens, the challenge handshake, the broker's delegate
  certificates, key derivation, and the key a server starts with.
\<close>

subsection \<open>Tokens\<close>

text \<open>C14: (equivalence) \<open>verifyToken\<close> accepts exactly the tokens that consist of a payload and a signature in
  base64 around the first dot, signed by the broker's key, of at least the required tier, on a plan that
  includes the service, and not past their expiry; and it returns the signed claims.\<close>

theorem token_accepted_iff:
  "verifyToken ed dec pub token minTier vpn now = Inr tok \<longleftrightarrow>
     (\<exists>p s payload sig. token = p @ CHR ''.'' # s \<and> CHR ''.'' \<notin> set p
        \<and> std_decode p = Some payload \<and> std_decode s = Some sig \<and> ed pub payload sig \<and> dec payload = Some tok)
     \<and> (minTier = ''paid'' \<longrightarrow> Tier tok = ''paid'')
     \<and> (Plan tok = [] \<or> Plan tok = ''full'' \<or> vpn \<and> Plan tok = ''vpn'')
     \<and> now \<le> ExpiresAt tok"
  by (auto simp: verifyToken_iff token_valid_def tierRank_def plan_admits_def)

lemma sample_ed [simp]: "ed_verify (d_crypto sample_deps) pub msg sig \<longleftrightarrow> sig = pub"
  by (simp add: sample_deps_def sample_crypto_def)

lemma sample_dec [simp]: "d_token sample_deps (bytes_of ''claims'') = Some sample_token"
  by (simp add: sample_deps_def)

lemma sample_claims [simp]: "Tier sample_token = ''paid''" "Plan sample_token = ''full''" "ExpiresAt sample_token = 1000"
  by (simp_all add: sample_token_def)

theorem token_accepted_iff_witness:
  "verifyToken (ed_verify sample_crypto) (d_token sample_deps) sample_key
     (issued_token (bytes_of ''claims'') sample_key) ''paid'' False 1000 = Inr sample_token"
  unfolding token_accepted_iff issued_token_def
  by (intro conjI exI [of _ "std_encode (bytes_of ''claims'')"] exI [of _ "std_encode sample_key"]
      exI [of _ "bytes_of ''claims''"] exI [of _ sample_key])
    (use sample_ed in \<open>auto simp: std_encode_no_dot sample_crypto_def\<close>)

text \<open>A token the broker issues is accepted until its expiry and refused afterwards with \<open>token expired\<close>.\<close>

lemma issued_token_lifetime:
  assumes "ed pub payload sig" "dec payload = Some tok" "Tier tok = ''paid''" "Plan tok = ''full''"
  shows "verifyToken ed dec pub (issued_token payload sig) minTier vpn now
    = (if now \<le> ExpiresAt tok then Inr tok else Inl (Err ''token expired''))"
proof -
  have "cut (CHR ''.'') (issued_token payload sig) = Some (std_encode payload, std_encode sig)"
    using std_encode_no_dot [of payload] by (simp add: issued_token_def cut_append)
  then show ?thesis using assms by (simp add: verifyToken_def tierRank_def)
qed

subsection \<open>The handshake\<close>


text \<open>C26: (liveness) A client that holds the private key of the public key it announces and a token that checks,
  and that answers the challenge it opens with its key, is authenticated as that public key, however it cuts its
  messages into frames; the server has then sent exactly the challenge and the \<open>auth_ok\<close> (and the pongs).\<close>

theorem authenticate_accepts:
  assumes "crypto_laws (d_crypto d)" "open_server c" "c_in c = wire fs1 @ wire fs2 @ rest"
    "carries fs1 opText b1" "d_dec d b1 = Some hello" "env_Type hello = ''hello''"
    "env_PubKey hello = b64 (x_pub (d_crypto d) priv)"
    "check_token d minTier ks (env_Token hello) False now1 now2 = Inr tok"
    "c_rand c = ephPriv @ challenge @ nonce @ r" "length ephPriv = 32" "length challenge = 32" "length nonce = nonceSize"
    "x_ecdh (d_crypto d) ephPriv (x_pub (d_crypto d) priv) = Some shared"
    "d_enc d (challenge_envelope (d_crypto d) ephPriv shared nonce challenge) = Some b2"
    "d_enc d ((envelope ''auth_ok'')\<lparr>env_OK := True\<rparr>) = Some b3"
    "carries fs2 opText b4" "d_dec d b4 = Some resp" "env_Type resp = ''challenge_response''"
    "client_answer (d_crypto d) priv (challenge_envelope (d_crypto d) ephPriv shared nonce challenge)
        = Some (env_Response resp)"
  shows "authenticate d minTier ks now1 now2 c
    = (Inr (b64 (x_pub (d_crypto d) priv), tok),
       c\<lparr>c_in := rest, c_rand := r, c_out := c_out c @ pongs fs1 @ text_frame b2 @ pongs fs2 @ text_frame b3\<rparr>)"
  by (rule authenticate_complete [OF assms])

definition sample_hello :: wsEnvelope where
  "sample_hello = (envelope ''hello'')\<lparr>env_PubKey := b64 (fit32 [1]),
     env_Token := issued_token (bytes_of ''claims'') sample_key\<rparr>"

definition sample_response :: wsEnvelope where
  "sample_response = (envelope ''challenge_response'')\<lparr>env_Response := replicate 32 5\<rparr>"

definition auth_conn :: wsConn where
  "auth_conn = sample_conn
     (wire (one_frame opText (bytes_of ''hello'')) @ wire (one_frame opText (bytes_of ''response'')) @ [42])
     (replicate 32 3 @ replicate 32 5 @ replicate 12 6 @ [])"

lemma sample_decodes:
  "d_dec sample_deps (bytes_of ''hello'') = Some sample_hello"
  "d_dec sample_deps (bytes_of ''response'') = Some sample_response"
  by (simp_all add: sample_deps_def sample_messages_def sample_hello_def sample_response_def)

lemma sample_token_checks:
  "check_token sample_deps ''paid'' (newStaticKeySource sample_key) (env_Token sample_hello) False 10 11
     = Inr sample_token"
  by (simp add: check_token_iff current_def newStaticKeySource_def sample_hello_def tierRank_def plan_admits_def
      issued_token_valid)

definition sample_shared :: bytes where
  "sample_shared = map2 xor (fit32 (replicate 32 3)) (fit32 (fit32 [1]))"

text \<open>The hypotheses of the exchange, at these values, in their order.\<close>

lemma sample_exchange:
  shows "crypto_laws (d_crypto sample_deps)" "open_server auth_conn"
    "c_in auth_conn = wire (one_frame opText (bytes_of ''hello'')) @ wire (one_frame opText (bytes_of ''response'')) @ [42]"
    "carries (one_frame opText (bytes_of ''hello'')) opText (bytes_of ''hello'')"
    "d_dec sample_deps (bytes_of ''hello'') = Some sample_hello" "env_Type sample_hello = ''hello''"
    "env_PubKey sample_hello = b64 (x_pub (d_crypto sample_deps) [1])"
    "check_token sample_deps ''paid'' (newStaticKeySource sample_key) (env_Token sample_hello) False 10 11
       = Inr sample_token"
    "c_rand auth_conn = replicate 32 3 @ replicate 32 5 @ replicate 12 6 @ []"
    "length (replicate 32 (3 :: byte)) = 32" "length (replicate 32 (5 :: byte)) = 32"
    "length (replicate 12 (6 :: byte)) = nonceSize"
    "x_ecdh (d_crypto sample_deps) (replicate 32 3) (x_pub (d_crypto sample_deps) [1]) = Some sample_shared"
    "d_enc sample_deps (challenge_envelope (d_crypto sample_deps) (replicate 32 3) sample_shared
       (replicate 12 6) (replicate 32 5)) = Some (bytes_of ''challenge'')"
    "d_enc sample_deps ((envelope ''auth_ok'')\<lparr>env_OK := True\<rparr>) = Some (bytes_of ''auth_ok'')"
    "carries (one_frame opText (bytes_of ''response'')) opText (bytes_of ''response'')"
    "d_dec sample_deps (bytes_of ''response'') = Some sample_response"
    "env_Type sample_response = ''challenge_response''"
    "client_answer (d_crypto sample_deps) [1] (challenge_envelope (d_crypto sample_deps) (replicate 32 3) sample_shared
      (replicate 12 6) (replicate 32 5)) = Some (env_Response sample_response)"
proof -
  have cr: "x_pub (d_crypto sample_deps) = fit32"
    "\<And>a p. x_ecdh (d_crypto sample_deps) a p = Some (map2 xor (fit32 a) (fit32 p))"
    "\<And>e. d_enc sample_deps e = Some (bytes_of (env_Type e))"
    by (simp_all add: sample_deps_def sample_crypto_def)
  show laws: "crypto_laws (d_crypto sample_deps)" by (simp add: sample_deps_def)
  show dh: "x_ecdh (d_crypto sample_deps) (replicate 32 3) (x_pub (d_crypto sample_deps) [1]) = Some sample_shared"
    by (simp add: cr sample_shared_def)
  show "d_dec sample_deps (bytes_of ''hello'') = Some sample_hello"
    "d_dec sample_deps (bytes_of ''response'') = Some sample_response" by (rule sample_decodes)+
  show "check_token sample_deps ''paid'' (newStaticKeySource sample_key) (env_Token sample_hello) False 10 11
       = Inr sample_token" by (rule sample_token_checks)
  show "client_answer (d_crypto sample_deps) [1] (challenge_envelope (d_crypto sample_deps) (replicate 32 3) sample_shared
      (replicate 12 6) (replicate 32 5)) = Some (env_Response sample_response)"
    using client_answer_challenge [OF laws dh, of "replicate 12 6" "replicate 32 5"]
    by (simp add: nonceSize_def sample_response_def)
qed (simp_all add: auth_conn_def sample_hello_def sample_response_def
    envelope_def challenge_envelope_def nonceSize_def sample_deps_def sample_crypto_def)

lemma sample_authenticates:
  "\<exists>c. authenticate sample_deps ''paid'' (newStaticKeySource sample_key) 10 11 auth_conn
     = (Inr (b64 (x_pub (d_crypto sample_deps) [1]), sample_token), c) \<and> c_in c = [42]"
  using authenticate_complete [OF sample_exchange] by simp


theorem authenticate_accepts_witness:
  "fst (authenticate sample_deps ''paid'' (newStaticKeySource sample_key) 10 11 auth_conn)
     = Inr (b64 (x_pub (d_crypto sample_deps) [1]), sample_token)"
  using authenticate_accepts [OF sample_exchange] by simp

subsection \<open>The broker's key\<close>

text \<open>C16: (invariant) With a pinned root, the key tokens are checked against is certified: whatever the broker, or
  whoever answers for it, returned at start-up and at every refresh, a key that \<open>current\<close> hands out comes from a
  certificate signed by the root, naming this root, and not yet expired.\<close>

theorem delegate_key_certified:
  assumes "newDelegateKeySource cr dec got rootPub start = Inr ks" "0 < start"
    "list_all (\<lambda>tick. 0 < snd tick) ticks"
    "current (run (refresh_tick cr dec rootPub) ticks ks) now = Inr pub"
  shows "\<exists>body sig cert. ed_verify cr rootPub body sig \<and> dec body = Some cert \<and> RootPubKey cert = b64 rootPub
    \<and> unb64 (DelegatePubKey cert) = Some pub \<and> length pub = 32 \<and> now \<le> dc_ExpiresAt cert"
  using refreshed_key_certified [OF assms] by (auto simp: root_certified_def)

definition sample_cert :: delegateCertBody where
  "sample_cert = \<lparr>DelegatePubKey = b64 (replicate 32 8), RootPubKey = b64 sample_key, dc_IssuedAt = 5, dc_ExpiresAt = 50\<rparr>"

definition sample_fetch :: "http_resp res" where
  "sample_fetch = Inr \<lparr>StatusCode = 200, Status = ''200 OK'', Body = Inr [1], SigHeader = b64 sample_key\<rparr>"

definition cert_dec :: "bytes \<Rightarrow> delegateCertBody option" where
  "cert_dec b = (if b = [1] then Some sample_cert else None)"

lemma sample_delegate:
  "newDelegateKeySource sample_crypto cert_dec sample_fetch sample_key 10
     = Inr \<lparr>ks_pub = replicate 32 8, ks_expiresAt = 50\<rparr>"
  by (simp add: newDelegateKeySource_def resolveDelegateKey_def sample_fetch_def cert_dec_def sample_cert_def
      sample_crypto_def)

lemma failed_fetch: "resolveDelegateKey cr dec (Inl e) rootPub now = Inl (Err (''fetching delegate cert: '' @ error_text e))"
  by (simp add: resolveDelegateKey_def)

theorem delegate_key_certified_witness:
  "current (run (refresh_tick sample_crypto cert_dec sample_key) [(Inl ErrNet, 20)]
       \<lparr>ks_pub = replicate 32 8, ks_expiresAt = 50\<rparr>) 50 = Inr (replicate 32 8)
   \<and> (\<exists>body cert. cert_dec body = Some cert \<and> unb64 (DelegatePubKey cert) = Some (replicate 32 8) \<and> 50 \<le> dc_ExpiresAt cert)"
proof -
  have c: "current (run (refresh_tick sample_crypto cert_dec sample_key) [(Inl ErrNet, 20)]
       \<lparr>ks_pub = replicate 32 8, ks_expiresAt = 50\<rparr>) 50 = Inr (replicate 32 8)"
    by (simp add: refresh_tick_def failed_fetch current_def)
  show ?thesis using delegate_key_certified [OF sample_delegate _ _ c] c by auto
qed

text \<open>Refresh failures are safe: while every refresh fails, for whatever reason, the key stays the last
  good one; it is used until its certificate expires and from then on \<open>current\<close> refuses.\<close>

theorem refresh_outage:
  assumes "newDelegateKeySource cr dec got rootPub start = Inr ks" "0 < start"
    "list_all (\<lambda>(got, t). \<not> is_ok (resolveDelegateKey cr dec got rootPub t)) ticks"
  shows "run (refresh_tick cr dec rootPub) ticks ks = ks
    \<and> (if now \<le> ks_expiresAt ks then current (run (refresh_tick cr dec rootPub) ticks ks) now = Inr (ks_pub ks)
       else \<not> is_ok (current (run (refresh_tick cr dec rootPub) ticks ks) now))"
proof -
  have "run (refresh_tick cr dec rootPub) ticks ks = ks"
    using assms(3) by (induction ticks) (auto simp: refresh_tick_def not_is_ok_iff)
  moreover have "0 < ks_expiresAt ks" using newDelegate_inv [OF assms(1,2)] by (simp add: key_source_inv_def)
  ultimately show ?thesis by (simp add: current_def)
qed

theorem refresh_outage_witness:
  "\<not> is_ok (current (run (refresh_tick sample_crypto cert_dec sample_key) [(Inl ErrNet, 20), (Inl IO_EOF, 30)]
       \<lparr>ks_pub = replicate 32 8, ks_expiresAt = 50\<rparr>) 51)"
  using refresh_outage [OF sample_delegate, of "[(Inl ErrNet, 20), (Inl IO_EOF, 30)]" 51]
  by (auto simp: failed_fetch)

lemma start_server_key:
  assumes "start_server d decCert fl got now w = Inr (ks, x)" "0 < now"
  shows "fl_minTier fl \<in> {''free'', ''paid''} \<and> length (ks_pub ks) = 32
    \<and> (if fl_brokerRoot fl = [] then unb64 (fl_brokerPub fl) = Some (ks_pub ks) \<and> ks_expiresAt ks = 0
       else \<exists>root. unb64 (fl_brokerRoot fl) = Some root \<and> length root = 32 \<and> fl_brokerURL fl \<noteq> []
              \<and> key_source_inv (d_crypto d) decCert root ks)"
proof -
  have "\<exists>root. unb64 (fl_brokerRoot fl) = Some root \<and> length root = 32 \<and> fl_brokerURL fl \<noteq> []"
    if "fl_brokerRoot fl \<noteq> []"
    using assms(1) that by (auto simp: start_server_def key_source_def pinned_key_def
        split: if_splits sum.splits option.splits prod.splits)
  then show ?thesis using start_server_keys [OF assms] by auto
qed

text \<open>C33: (safety) A server that starts checks tokens against a real key: whatever the command line, the
  environment, the broker's answer and the disk, \<open>main\<close> gets to the point where it serves only with, when no root is
  configured, the 32 bytes given by \<open>-broker-pubkey\<close>, for good, or else a key certified by the configured 32-byte
  root; and with one of the two known minimum tiers. Anything else ends the program.\<close>

theorem started_server_key:
  assumes "run_main d dur decCert env args got now w = Running fl ks lg x" "0 < now"
  shows "fl_minTier fl \<in> {''free'', ''paid''} \<and> length (ks_pub ks) = 32
    \<and> (if fl_brokerRoot fl = [] then unb64 (fl_brokerPub fl) = Some (ks_pub ks) \<and> ks_expiresAt ks = 0
       else \<exists>root. unb64 (fl_brokerRoot fl) = Some root \<and> length root = 32 \<and> fl_brokerURL fl \<noteq> []
              \<and> key_source_inv (d_crypto d) decCert root ks)"
  using assms(1) by (rule run_main_Running) (rule start_server_key [OF _ assms(2)])

definition sample_flags :: flags where
  "sample_flags = \<lparr>fl_addr = '':9001'', fl_dataDir = ''/d'', fl_ttl = 100, fl_brokerPub = b64 sample_key, fl_brokerRoot = [],
     fl_brokerURL = [], fl_minTier = ''paid''\<rparr>"

lemma sample_starts:
  "\<exists>s. start_server sample_deps cert_dec sample_flags (Inl ErrNet) 10 sample_world
     = Inr (newStaticKeySource sample_key, (s, sample_world))"
proof -
  obtain s where "newStore sample_codec ''/d'' 100 sample_world = (Inr s, sample_world)"
    using restart_live [OF sample_live] by (auto simp: sample_store_def empty_store_def)
  moreover have "b64 sample_key \<noteq> []"
    using unb64_b64 [of sample_key] by (auto simp: unb64_def sample_key_def std_decode_def)
  ultimately show ?thesis
    by (simp add: start_server_def key_source_def pinned_key_def sample_flags_def sample_deps_def sample_key_def)
qed

text \<open>The key from the environment, the rest from the command line.\<close>

definition sample_env :: "string \<Rightarrow> string" where
  "sample_env n = (if n = ''BROKER_PUBKEY'' then b64 sample_key else [])"

lemma sample_parse:
  "parse_flags (\<lambda>v. Some 100) [''-data-dir=/d'', ''--ttl'', ''100ns''] (default_flags sample_env) = Some sample_flags"
  by (simp add: set_flag_def default_flags_def sample_env_def sample_flags_def)

theorem started_server_key_witness:
  "\<exists>lg s. run_main sample_deps (\<lambda>v. Some 100) cert_dec sample_env [''-data-dir=/d'', ''--ttl'', ''100ns''] (Inl ErrNet) 10
      sample_world = Running sample_flags (newStaticKeySource sample_key) lg (s, sample_world)
    \<and> length (ks_pub (newStaticKeySource sample_key)) = 32"
proof -
  obtain s where s: "start_server sample_deps cert_dec sample_flags (Inl ErrNet) 10 sample_world
      = Inr (newStaticKeySource sample_key, (s, sample_world))" using sample_starts by blast
  obtain lg where "installed_logger sample_env ''file-share'' sample_world = (lg, sample_world)"
    by (simp add: installed_logger_def initLogging_def sample_env_def Let_def)
  then have "run_main sample_deps (\<lambda>v. Some 100) cert_dec sample_env [''-data-dir=/d'', ''--ttl'', ''100ns''] (Inl ErrNet) 10
      sample_world = Running sample_flags (newStaticKeySource sample_key) lg (s, sample_world)"
    using s by (simp add: run_main_def sample_parse del: parse_flags.simps)
  from started_server_key [OF this] this show ?thesis by auto
qed

subsection \<open>Keys\<close>

text \<open>C31: (equivalence) \<open>hkdf\<close>, whose loop keeps one block and a byte counter, computes HKDF-SHA-256 of RFC 5869
  with a salt of 32 zero bytes: the prefix of \<open>T(1) || T(2) || ...\<close> of the requested length, where
  \<open>T(i) = HMAC(PRK, T(i-1) || info || i)\<close> and \<open>PRK = HMAC(salt, secret)\<close>.\<close>

theorem hkdf_is_rfc5869:
  assumes "len \<le> 32 * m"
  shows "hkdf secret info len
    = take len (concat (map (\<lambda>i. hkdf_T (hmac_sha256 (replicate 32 0) secret) (bytes_of info) (Suc i)) [0..<m]))"
  using hkdf_reference [OF assms, of secret info] by (simp add: hkdf_blocks_def)

theorem hkdf_is_rfc5869_witness:
  "deriveAuthKey [1, 2, 3] = hkdf_T (hmac_sha256 (replicate 32 0) [1, 2, 3]) (bytes_of authKeyInfo) 1"
proof -
  have "length (hkdf_T prk info (Suc 0)) = 32" for prk info by simp
  then show ?thesis using hkdf_is_rfc5869 [of 32 1 "[1, 2, 3]" authKeyInfo]
    by (simp add: deriveAuthKey_def aeadKeySize_def)
qed

text \<open>With a key of an AES size and enough random bytes, what \<open>seal\<close> returns opens; other keys and nonces are refused.\<close>

lemma seal_open_roundtrip:
  assumes "crypto_laws cr" "12 \<le> length (c_rand c)"
  shows "if length key \<in> {16, 24, 32}
    then (\<exists>ct. seal cr key p c = (Inr (take 12 (c_rand c), ct), c\<lparr>c_rand := drop 12 (c_rand c)\<rparr>)
           \<and> open_aead cr key (take 12 (c_rand c)) ct = Inr p
           \<and> (\<forall>n. length n \<noteq> 12 \<longrightarrow> open_aead cr key n ct = Inl (Err ''bad nonce size'')))
    else \<not> is_ok (fst (seal cr key p c)) \<and> snd (seal cr key p c) = c \<and> (\<forall>n ct. \<not> is_ok (open_aead cr key n ct))"
  using assms by (auto simp: seal_def open_aead_def newAEAD_def rand_read_def nonceSize_def crypto_laws_def)

end
