(* ===== verification/StoreResume.thy ===== *)
theory StoreResume
  imports StoreRefine
begin

text \<open>
  Uploads across restarts: a store that can also be started again on its files, as an interface that
  extends \<open>chunk_store\<close>, and the store of \<open>store.go\<close> with \<open>newStore\<close> as an instance of it.
\<close>

locale recoverable_store = chunk_store +
  fixes restart :: "'a \<Rightarrow> 'a"
  assumes restart_valid: "valid x \<Longrightarrow> valid (restart x)"
    and restart_lookup: "valid x \<Longrightarrow> lookup (restart x) i = lookup x i"
    and restart_chunk: "valid x \<Longrightarrow> chunk (restart x) i k = chunk x i k"
begin

text \<open>Runs of uploads, with a restart after each.\<close>

fun put_runs :: "string \<Rightarrow> (int \<times> int \<times> bytes) list list \<Rightarrow> 'a \<Rightarrow> 'a" where
  "put_runs i [] x = x"
| "put_runs i (kds # runs) x = put_runs i runs (restart (put_all i kds x))"

text \<open>The restarts leave no trace: the chunks are those of one uninterrupted run.\<close>

lemma put_runs_chunks:
  assumes "valid x" "lookup x i = Some m" "list_all (list_all (\<lambda>(t, k, d). 0 \<le> k \<and> k < TotalChunks m)) runs"
  shows "valid (put_runs i runs x)
    \<and> chunk (put_runs i runs x) j l
      = (if j = i then (case map_of (rev (map snd (concat runs))) l of None \<Rightarrow> chunk x i l | Some d \<Rightarrow> Some d)
         else chunk x j l)
    \<and> (\<exists>m'. lookup (put_runs i runs x) i = Some m' \<and> same_but_touch m m')"
  using assms
proof (induction runs arbitrary: x m)
  case (Cons kds runs)
  let ?y = "put_all i kds x"
  have r: "list_all (\<lambda>(t, k, d). 0 \<le> k \<and> k < TotalChunks m) kds" using Cons.prems(3) by simp
  have y: "valid ?y" "\<And>j l. chunk ?y j l = (if j = i then (case map_of (rev (map snd kds)) l of None \<Rightarrow> chunk x i l
      | Some d \<Rightarrow> Some d) else chunk x j l)"
    using put_all_chunks [OF Cons.prems(1,2) r] by blast+
  obtain m' where m': "lookup ?y i = Some m'" "same_but_touch m m'"
    using put_all_chunks [OF Cons.prems(1,2) r] by blast
  have z: "valid (restart ?y)" "lookup (restart ?y) i = Some m'" "\<And>j l. chunk (restart ?y) j l = chunk ?y j l"
    using restart_valid restart_lookup restart_chunk y(1) m'(1) by simp_all
  have "list_all (list_all (\<lambda>(t, k, d). 0 \<le> k \<and> k < TotalChunks m')) runs"
    using Cons.prems(3) same_but_touch_fields [OF m'(2)] by simp
  from Cons.IH [OF z(1,2) this] show ?case
    using y(2) z(3) same_but_touch_trans [OF m'(2)] by (auto simp: map_of_append split: option.splits)
qed simp

end

text \<open>Stopping the server and starting it again on the same directory.\<close>

definition restart_store :: "meta_codec \<Rightarrow> state \<Rightarrow> state" where
  "restart_store c x =
     (case x of (s, w) \<Rightarrow>
        (case newStore c (dataDir s) (ttl s) w of (Inl e, w') \<Rightarrow> (s, w') | (Inr s', w') \<Rightarrow> (s', w')))"

lemma restart_store_live:
  assumes "live c x"
  shows "live c (restart_store c x)"
    "spec_of (restart_store c x) = (\<lambda>i. map_option (\<lambda>(m, f, v). (m, f, {})) (spec_of x i))"
proof -
  obtain s w where x: "x = (s, w)" by (rule prod.exhaust)
  obtain s' where "newStore c (dataDir s) (ttl s) w = (Inr s', w)" "live c (s', w)"
    "spec_of (s', w) = (\<lambda>i. map_option (\<lambda>(m, f, v). (m, f, {})) (spec_of (s, w) i))"
    using restart_live [OF assms [unfolded x]] by blast
  then show "live c (restart_store c x)"
    "spec_of (restart_store c x) = (\<lambda>i. map_option (\<lambda>(m, f, v). (m, f, {})) (spec_of x i))"
    by (simp_all add: restart_store_def x)
qed

lemma restart_store_abs:
  assumes "live c x"
  shows "abs_state (restart_store c x) = abs_state x"
proof
  fix i
  show "abs_state (restart_store c x) i = abs_state x i"
    using fun_cong [OF restart_store_live(2) [OF assms], of i]
    by (cases "abs_state (restart_store c x) i"; cases "abs_state x i") (auto simp: spec_of_def)
qed

interpretation model_restart: recoverable_store "live c" "\<lambda>x. getMeta (fst x)" chunk_of
  "put_chunk_at c" "remove_transfer c" "restart_store c" for c :: meta_codec
proof unfold_locales
  fix x i k
  assume l: "live c x"
  note a = restart_store_abs [OF l]
  show "live c (restart_store c x)" by (rule restart_store_live(1) [OF l])
  show "getMeta (fst (restart_store c x)) i = getMeta (fst x) i" by (simp add: getMeta_abs a)
  have "state_inv x" "state_inv (restart_store c x)"
    using l restart_store_live(1) [OF l] by (simp_all add: live_def)
  then show "chunk_of (restart_store c x) i k = chunk_of x i k" by (simp add: chunk_of_abs_inv a)
qed

end
