(* ===== verification/WsResume.thy ===== *)
theory WsResume
  imports WsTransfer StoreResume
begin

text \<open>
  A transfer uploaded over several sessions with restarts of the server between them: what is stored
  in the end is what one uninterrupted session would have stored.
\<close>

text \<open>Sessions that upload, each with its own connection, and the server restarted after each.\<close>

fun upload_runs :: "deps \<Rightarrow> string \<Rightarrow> (upload_item list \<times> wsConn) list \<Rightarrow> state \<Rightarrow> state" where
  "upload_runs d u [] x = x"
| "upload_runs d u ((items, c) # runs) x =
     (case session_run d u (map up_time items) c x of
        (b, c', y) \<Rightarrow> upload_runs d u runs (restart_store (d_meta d) y))"

definition upload_run_ok :: "deps \<Rightarrow> string \<Rightarrow> transferMeta \<Rightarrow> upload_item list \<times> wsConn \<Rightarrow> bool" where
  "upload_run_ok d i m r \<longleftrightarrow> (case r of (items, c) \<Rightarrow>
     list_all (\<lambda>it. upload_item_ok d i it \<and> 0 \<le> up_index it \<and> up_index it < TotalChunks m) items
     \<and> open_server c \<and> prefix (upload_wire items) (c_in c))"

lemma upload_runs_puts:
  assumes i: "i \<noteq> []" and enc: "\<And>k. d_enc d (chunk_ack i k) \<noteq> None"
  shows "live (d_meta d) x \<Longrightarrow> getMeta (fst x) i = Some m \<Longrightarrow> From m = u \<Longrightarrow> list_all (upload_run_ok d i m) runs \<Longrightarrow>
    upload_runs d u runs x = model_restart.put_runs (d_meta d) i (map (\<lambda>(items, c). upload_puts items) runs) x"
proof (induction runs arbitrary: x m)
  case Nil
  then show ?case by (simp add: model_restart.put_runs.simps)
next
  case (Cons r0 runs)
  obtain items c where run: "r0 = (items, c)" by (rule prod.exhaust)
  obtain rest where r: "list_all (\<lambda>it. upload_item_ok d i it \<and> 0 \<le> up_index it \<and> up_index it < TotalChunks m) items"
    "open_server c" "c_in c = upload_wire items @ rest"
    using Cons.prems(4) by (auto simp: run upload_run_ok_def prefix_def)
  let ?y = "model_store.put_all (d_meta d) i (upload_puts items) x"
  obtain c' where s: "session_run d u (map up_time items) c x = (True, c', ?y)"
    using session_run_upload [OF i enc Cons.prems(1-3) r] by blast
  have "list_all (\<lambda>(t, k, b). 0 \<le> k \<and> k < TotalChunks m) (upload_puts items)"
    using r(1) by (simp add: upload_puts_def list_all_iff)
  note y = model_store.put_all_chunks [OF Cons.prems(1,2) this]
  obtain m' where m': "getMeta (fst ?y) i = Some m'" "same_but_touch m m'" using y by blast
  note f = same_but_touch_fields [OF m'(2)]
  have ly: "live (d_meta d) ?y" using y by blast
  have "getMeta (fst (restart_store (d_meta d) ?y)) i = Some m'"
    using model_restart.restart_lookup [OF ly] m'(1) by simp
  moreover have "list_all (upload_run_ok d i m') runs" using Cons.prems(4) f by (auto simp: upload_run_ok_def list_all_iff)
  ultimately show ?case
    using Cons.IH [OF model_restart.restart_valid [OF ly]] Cons.prems(3) f s
    by (simp add: run model_restart.put_runs.simps)
qed

lemma upload_runs_stored:
  assumes lv: "live (d_meta d) x" and m: "getMeta (fst x) i = Some m" "From m = u" and i: "i \<noteq> []"
    and runs: "list_all (upload_run_ok d i m) runs" and enc: "\<And>k. d_enc d (chunk_ack i k) \<noteq> None"
  shows "live (d_meta d) (upload_runs d u runs x)
    \<and> (\<exists>m'. getMeta (fst (upload_runs d u runs x)) i = Some m' \<and> same_but_touch m m')
    \<and> chunk_of (upload_runs d u runs x) i k
      = (case last_data (concat (map fst runs)) k of None \<Rightarrow> chunk_of x i k | Some b \<Rightarrow> Some b)"
proof -
  let ?runs = "map (\<lambda>(items, c). upload_puts items) runs"
  have ok: "list_all (list_all (\<lambda>(t, k, b). 0 \<le> k \<and> k < TotalChunks m)) ?runs"
    using runs by (fastforce simp: list_all_iff upload_run_ok_def upload_puts_def)
  have "map snd (concat ?runs) = map (\<lambda>it. (up_index it, up_data it)) (concat (map fst runs))"
    by (induction runs) (auto simp: upload_puts_def)
  then show ?thesis
    using model_restart.put_runs_chunks [OF lv m(1) ok, of i k] upload_runs_puts [OF i enc lv m runs]
    by (simp add: last_data_def)
qed

end
