(* ===== verification/DispatchProps.thy ===== *)
theory DispatchProps
  imports AuthProps WsResume
begin

text \<open>
  The properties of the control messages of \<open>dispatch\<close> and of the transfers they carry out.  The
  witnesses use a transfer \<open>t\<close> of one chunk from \<open>u\<close> to \<open>v\<close>.
\<close>

subsection \<open>The transfer of the witnesses\<close>

definition one_chunk :: state where
  "one_chunk = store_step sample_codec (\<lambda>ks. ks) (OpCreate ''t'' ''u'' ''v'' 1 False 5) sample_state"

lemma one_chunk_live [simp]: "live sample_codec one_chunk"
  using live_step [OF sample_state_ok(1), of "OpCreate ''t'' ''u'' ''v'' 1 False 5" "\<lambda>ks. ks"]
  by (simp add: one_chunk_def int64_range_def)

lemma one_chunk_spec: "spec_of one_chunk = [''t'' \<mapsto> (direct_meta ''t'' ''u'' ''v'' 1 False 5, Map.empty, {})]"
  using step_spec [OF sample_state_ok(1), of "OpCreate ''t'' ''u'' ''v'' 1 False 5" "\<lambda>ks. ks"]
  by (simp add: one_chunk_def int64_range_def spec_count_def)

lemma one_chunk_meta [simp]: "getMeta (fst one_chunk) ''t'' = Some (direct_meta ''t'' ''u'' ''v'' 1 False 5)"
  using fun_cong [OF one_chunk_spec, of "''t''"] by (auto simp: spec_of_Some abs_state_def)

lemma sample_enc [simp]: "d_enc sample_deps e = Some (bytes_of (env_Type e))" "d_meta sample_deps = sample_codec"
  "d_iter sample_deps = (\<lambda>ks. ks)"
  by (simp_all add: sample_deps_def)

subsection \<open>Refusals\<close>

text \<open>What the protocol refuses, and with which text.\<close>

definition refusal :: "string \<Rightarrow> wsEnvelope \<Rightarrow> store \<Rightarrow> string option" where
  "refusal u env s =
     (let i = env_TransferID env; t = env_Type env;
          who = (\<lambda>P. case getMeta s i of None \<Rightarrow> False | Some m \<Rightarrow> P m)
      in if t = ''start_upload'' then
           (if i = [] \<or> env_To env = [] \<or> env_TotalChunks env \<le> 0
            then Some ''start_upload requires transfer_id, to, total_chunks''
            else if \<not> validTransferID i
            then Some ''transfer_id must be 1-128 characters, letters/digits/hyphen/underscore only'' else None)
         else if t = ''chunk'' then
           (if i = [] then Some ''chunk requires transfer_id''
            else if \<not> who (\<lambda>m. From m = u) then Some ''no such transfer for this sender'' else None)
         else if t = ''status'' then
           (if i = [] then Some ''status requires transfer_id''
            else if \<not> who (\<lambda>m. From m = u \<or> To m = u) then Some ''no such transfer for this identity'' else None)
         else if t = ''download'' \<or> t = ''complete'' then
           (if \<not> who (\<lambda>m. To m = u) then Some ''no such transfer for this recipient'' else None)
         else None)"

text \<open>C25: (error) A request that names no transfer, a malformed id, or a transfer the identity is not the sender,
  party or recipient of, is answered with one error frame that carries the right text; nothing else is read or
  written, the store and the disk are untouched, and the session goes on.\<close>

theorem refused_requests:
  assumes "refusal u env (fst x) = Some msg" "open_server c" "d_enc d (error_envelope ''error'' msg) = Some b"
  shows "dispatch d now u env c x = (Inr (), c\<lparr>c_out := c_out c @ text_frame b\<rparr>, x)"
proof -
  have "refuse d msg c x = (Inr (), c\<lparr>c_out := c_out c @ text_frame b\<rparr>, x)"
    using reply_open [OF assms(2,3)] by (simp add: refuse_def)
  moreover consider "env_Type env = ''start_upload''" | "env_Type env = ''chunk''" | "env_Type env = ''status''"
    | "env_Type env = ''download''" | "env_Type env = ''complete''"
    using assms(1) by (auto simp: refusal_def Let_def split: if_splits)
  then have "dispatch d now u env c x = refuse d msg c x"
  proof cases
    case 1
    then show ?thesis using assms(1)
      by (auto simp: refusal_def Let_def dispatch_def on_start_upload_def split: if_splits)
  next
    case 2
    then show ?thesis using assms(1)
      by (auto simp: refusal_def Let_def dispatch_def on_chunk_def split: if_splits option.splits)
  next
    case 3
    then show ?thesis using assms(1)
      by (auto simp: refusal_def Let_def dispatch_def on_status_def split: if_splits option.splits)
  next
    case 4
    then show ?thesis using assms(1)
      by (auto simp: refusal_def Let_def dispatch_def on_download_def split: if_splits option.splits)
  next
    case 5
    then show ?thesis using assms(1)
      by (auto simp: refusal_def Let_def dispatch_def on_complete_def split: if_splits option.splits)
  qed
  ultimately show ?thesis by simp
qed

theorem refused_requests_witness:
  "dispatch sample_deps 9 ''w'' ((envelope ''download'')\<lparr>env_TransferID := ''t''\<rparr>) (sample_conn [] []) one_chunk
     = (Inr (), (sample_conn [] [])\<lparr>c_out := text_frame (bytes_of ''error'')\<rparr>, one_chunk)"
proof -
  have "refusal ''w'' ((envelope ''download'')\<lparr>env_TransferID := ''t''\<rparr>) (fst one_chunk)
      = Some ''no such transfer for this recipient''"
    by (simp add: refusal_def envelope_def direct_meta_def)
  from refused_requests [OF this sample_conn_open, of sample_deps "bytes_of ''error''"] show ?thesis
    by (simp add: error_envelope_def envelope_def)
qed

subsection \<open>Transfers\<close>

text \<open>C6: (functional) What the sender uploads is what the recipient downloads, resumed uploads included. Chunks may come
  in any order, in any fragmentation, more than once (the last wins), and over any number of sessions with the
  server restarted after each; when they cover every index, a download sends a header and the data of every chunk in
  the order of the indices, then \<open>download_done\<close>.\<close>

theorem uploads_are_downloaded:
  assumes "live (d_meta d) x" "getMeta (fst x) i = Some m" "From m = u" "To m = v" "i \<noteq> []"
    "list_all (upload_run_ok d i m) runs"
    "\<And>k. 0 \<le> k \<Longrightarrow> k < TotalChunks m \<Longrightarrow> last_data (concat (map fst runs)) k \<noteq> None"
    "\<And>k. d_enc d (chunk_ack i k) \<noteq> None" "d_enc d (download_done i) = Some fin"
    "open_server c" "env_Type env = ''download''" "env_TransferID env = i"
  shows "dispatch d now v env c (upload_runs d u runs x) = (Inr (), c\<lparr>c_out := c_out c
    @ concat (map (\<lambda>k. chunk_frames d i k (the (last_data (concat (map fst runs)) k))) [0..TotalChunks m - 1])
    @ text_frame fin\<rparr>, upload_runs d u runs x)"
proof -
  let ?y = "upload_runs d u runs x" let ?last = "last_data (concat (map fst runs))"
  note s = upload_runs_stored [OF assms(1-3,5,6,8)]
  obtain m' where m': "getMeta (fst ?y) i = Some m'" "same_but_touch m m'" using s by blast
  note f = same_but_touch_fields [OF m'(2)]
  have ch: "chunk_of ?y i k = Some (the (?last k))" if "0 \<le> k" "k < TotalChunks m'" for k
    using s [of k] assms(7) [of k] that f by auto
  have "live (d_meta d) ?y" "To m' = v" using s f assms(4) by simp_all
  from complete_download [OF this(1) m'(1) this(2) ch assms(9-12)] show ?thesis using f by simp
qed

definition sample_items :: "upload_item list" where
  "sample_items = [\<lparr>up_time = 6, up_head = one_frame opText (bytes_of ''chunk''),
     up_body = one_frame opBinary [1, 2, 3], up_index = 0, up_data = [1, 2, 3]\<rparr>]"

text \<open>The chunk is sent, the server restarted, and the chunk sent again with other contents.\<close>

definition sample_items2 :: "upload_item list" where
  "sample_items2 = [\<lparr>up_time = 7, up_head = one_frame opText (bytes_of ''chunk''),
     up_body = one_frame opBinary [4, 5], up_index = 0, up_data = [4, 5]\<rparr>]"

definition sample_runs :: "(upload_item list \<times> wsConn) list" where
  "sample_runs = [(sample_items, sample_conn (upload_wire sample_items) []),
     (sample_items2, sample_conn (upload_wire sample_items2) [])]"

theorem uploads_are_downloaded_witness:
  "\<exists>y. upload_runs sample_deps ''u'' sample_runs one_chunk = y
    \<and> dispatch sample_deps 9 ''v'' ((envelope ''download'')\<lparr>env_TransferID := ''t''\<rparr>) (sample_conn [] []) y
      = (Inr (), (sample_conn [] [])\<lparr>c_out := text_frame (bytes_of ''chunk'') @ binary_frame [4, 5]
           @ text_frame (bytes_of ''download_done'')\<rparr>, y)"
proof -
  let ?env = "(envelope ''download'')\<lparr>env_TransferID := ''t''\<rparr>"
  let ?m = "direct_meta ''t'' ''u'' ''v'' 1 False 5"
  have m: "From ?m = ''u''" "To ?m = ''v''" "TotalChunks ?m = 1" by (simp_all add: direct_meta_def)
  have "upload_item_ok sample_deps ''t'' it" if "it \<in> set (sample_items @ sample_items2)" for it
    using that by (auto simp: sample_items_def sample_items2_def upload_item_ok_def sample_deps_def sample_messages_def
        envelope_def intro!: exI [of _ "bytes_of ''chunk''"])
  then have ok: "list_all (upload_run_ok sample_deps ''t'' ?m) sample_runs"
    by (simp add: m sample_runs_def upload_run_ok_def sample_items_def sample_items2_def)
  have ld: "last_data (concat (map fst sample_runs)) k = (if k = 0 then Some [4, 5] else None)" for k
    by (simp add: last_data_def sample_runs_def sample_items_def sample_items2_def)
  have all: "\<And>k. 0 \<le> k \<Longrightarrow> k < TotalChunks ?m \<Longrightarrow> last_data (concat (map fst sample_runs)) k \<noteq> None"
    by (simp add: m ld)
  have env: "env_Type ?env = ''download''" "env_TransferID ?env = ''t''" by (simp_all add: envelope_def)
  have live: "live (d_meta sample_deps) one_chunk" by simp
  have t: "''t'' \<noteq> []" by simp
  have enc: "\<And>k. d_enc sample_deps (chunk_ack ''t'' k) \<noteq> None"
    "d_enc sample_deps (download_done ''t'') = Some (bytes_of ''download_done'')"
    by (simp_all add: download_done_def envelope_def)
  have f: "chunk_frames sample_deps ''t'' 0 [4, 5] = text_frame (bytes_of ''chunk'') @ binary_frame [4, 5]"
    by (simp add: chunk_frames_def chunk_header_def envelope_def)
  from uploads_are_downloaded [OF live one_chunk_meta m(1,2) t ok all enc sample_conn_open [of "[]" "[]"] env, of 9]
  show ?thesis by (simp add: m ld f)
qed

text \<open>\<open>complete\<close> by the recipient: a transfer that is not shareable disappears, in memory and from
  the disk, and no other transfer changes; a shareable one stays as it is.\<close>

theorem complete_removes:
  assumes "live (d_meta d) x" "env_Type env = ''complete''" "getMeta (fst x) (env_TransferID env) = Some m" "To m = u"
  shows "\<exists>y. dispatch d now u env c x = (Inr (), c, y) \<and> live (d_meta d) y
    \<and> (if Shareable m then y = x
       else spec_of y = (spec_of x)(env_TransferID env := None)
         \<and> (\<forall>q. below (transferDir (fst x) (env_TransferID env)) q \<longrightarrow> mget (w_fs (snd y)) q = None))"
proof (cases "Shareable m")
  case True
  then show ?thesis using assms by (auto simp: dispatch_def on_complete_def)
next
  case False
  let ?i = "env_TransferID env"
  obtain s w where x: "x = (s, w)" by fastforce
  have l: "state_inv (s, w)" "w_faults w = []" using assms(1) x by (auto simp: live_def exact_def)
  have m: "mget (meta s) ?i = Some m" using assms(3) x by (simp add: getMeta_def)
  have dir: "transferDir s ?i = child (store_root s) ?i"
    using store_inv_transferDir m l(1) by (simp add: state_inv_def)
  let ?y = "(forget ?i s, w\<lparr>w_fs := filter (\<lambda>(q, n). \<not> below (child (store_root s) ?i) q) (w_fs w)\<rparr>)"
  have del: "deleteTransfer ?i s w = (Inr (), ?y)" by (rule delete_clears [OF l(1) m l(2)])
  have g: "store_guard (OpDelete ?i) (s, w)" using assms(3) x by simp
  have "live (d_meta d) ?y" "spec_of ?y = (spec_of (s, w))(?i := None)"
    using live_step [OF assms(1) [unfolded x] g map_iteration_id] del delete_spec [OF l(1), of ?i] assms(3) x
    by (simp_all del: spec_of_None)
  moreover have "mget (filter (\<lambda>(q, n). \<not> below p q) fs) q = None" if "below p q" for p q and fs :: filesys
    using that by (induction fs) auto
  moreover have "dispatch d now u env c x = (Inr (), c, ?y)"
    using assms(2-4) False x del by (simp add: dispatch_def on_complete_def)
  ultimately show ?thesis using False dir x by auto
qed

theorem complete_removes_witness:
  "\<exists>y. dispatch sample_deps 9 ''v'' ((envelope ''complete'')\<lparr>env_TransferID := ''t''\<rparr>) (sample_conn [] []) one_chunk
     = (Inr (), sample_conn [] [], y) \<and> spec_of y = Map.empty"
proof -
  have e: "env_Type ((envelope ''complete'')\<lparr>env_TransferID := ''t''\<rparr>) = ''complete''"
    "env_TransferID ((envelope ''complete'')\<lparr>env_TransferID := ''t''\<rparr>) = ''t''"
    by (simp_all add: envelope_def)
  have "live (d_meta sample_deps) one_chunk" by simp
  from complete_removes [OF this e(1), of _ "''v''" 9 "sample_conn [] []", unfolded e(2), OF one_chunk_meta]
  show ?thesis by (auto simp: direct_meta_def one_chunk_spec)
qed

end
