(* ===== verification/Protocol.thy ===== *)
theory Protocol
  imports WsHandler WsTransfer
begin

text \<open>
  The protocol of \<open>types.go\<close> as types of what the server sends: the reply each request has, and the
  output of a whole connection, handshake included.  The lemmas say that the handlers send nothing
  else, to a peer that takes what is sent.
\<close>

subsection \<open>What is sent\<close>

datatype sent = Msg wsEnvelope | Bin bytes | Pong bytes

fun sent_bytes :: "deps \<Rightarrow> sent \<Rightarrow> bytes" where
  "sent_bytes d (Msg env) = text_frame (case d_enc d env of None \<Rightarrow> [] | Some b \<Rightarrow> b)"
| "sent_bytes d (Bin b) = binary_frame b"
| "sent_bytes d (Pong b) = frame_bytes True opPong None b"

definition wire_of :: "deps \<Rightarrow> sent list \<Rightarrow> bytes" where
  "wire_of d out = concat (map (sent_bytes d) out)"

fun is_pong :: "sent \<Rightarrow> bool" where
  "is_pong (Pong b) = True"
| "is_pong s = False"

text \<open>A request's replies, with the fields \<open>types.go\<close> gives each message and no others.\<close>

definition is_error :: "string \<Rightarrow> sent list \<Rightarrow> bool" where
  "is_error t out = (case out of [Msg e] \<Rightarrow> e = error_envelope t (env_Error e) \<and> env_Error e \<noteq> [] | _ \<Rightarrow> False)"

fun chunk_stream :: "string \<Rightarrow> int \<Rightarrow> sent list \<Rightarrow> bool" where
  "chunk_stream i k [Msg e] = (e = (envelope ''download_done'')\<lparr>env_TransferID := i\<rparr>)"
| "chunk_stream i k (Msg e # Bin b # out) =
     (k \<le> env_Index e \<and> e = (envelope ''chunk'')\<lparr>env_TransferID := i, env_Index := env_Index e\<rparr>
      \<and> chunk_stream i (env_Index e + 1) out)"
| "chunk_stream i k out = False"

definition reply_type :: "wsEnvelope \<Rightarrow> sent list \<Rightarrow> bool" where
  "reply_type env out =
     (let t = env_Type env; i = env_TransferID env
      in if t = ''start_upload'' then
           is_error ''error'' out \<or> out = [Msg ((envelope ''upload_ready'')\<lparr>env_TransferID := i\<rparr>)]
         else if t = ''chunk'' then
           (let answer = dropWhile is_pong out
            in is_error ''error'' answer
               \<or> answer = [Msg ((envelope ''chunk_ack'')\<lparr>env_TransferID := i, env_Index := env_Index env\<rparr>)])
         else if t = ''status'' then
           is_error ''error'' out
           \<or> (case out of
                [Msg e] \<Rightarrow> e = (envelope ''status_result'')\<lparr>env_TransferID := i, env_ReceivedIndices := env_ReceivedIndices e\<rparr>
                  \<and> sorted (env_ReceivedIndices e) \<and> distinct (env_ReceivedIndices e) \<and> list_all (\<lambda>k. 0 \<le> k) (env_ReceivedIndices e)
              | _ \<Rightarrow> False)
         else if t = ''list'' then
           (case out of [Msg e] \<Rightarrow> e = (envelope ''list_result'')\<lparr>env_Transfers := env_Transfers e\<rparr> | _ \<Rightarrow> False)
         else if t = ''download'' then is_error ''error'' out \<or> chunk_stream i 0 out
         else if t = ''complete'' then out = [] \<or> is_error ''error'' out
         else out = [])"

text \<open>The handshake: what has been sent when it ends, well or not.\<close>

definition is_challenge :: "wsEnvelope \<Rightarrow> bool" where
  "is_challenge e \<longleftrightarrow> e = (envelope ''challenge'')\<lparr>env_ServerEphemeralPub := env_ServerEphemeralPub e,
     env_Nonce := env_Nonce e, env_Ciphertext := env_Ciphertext e\<rparr> \<and> length (env_Nonce e) = nonceSize"

definition handshake_type :: "bool \<Rightarrow> sent list \<Rightarrow> bool" where
  "handshake_type ok out =
     (let said = filter (\<lambda>s. \<not> is_pong s) out
      in if ok then (case said of [Msg e, Msg e'] \<Rightarrow> is_challenge e \<and> e' = (envelope ''auth_ok'')\<lparr>env_OK := True\<rparr> | _ \<Rightarrow> False)
         else said = [] \<or> is_error ''auth_error'' said
           \<or> (case said of Msg e # rest \<Rightarrow> is_challenge e \<and> (rest = [] \<or> is_error ''auth_error'' rest) | _ \<Rightarrow> False))"

text \<open>A session: one reply for each request, in the order of the requests; the last may be cut short.\<close>

inductive session_type :: "wsEnvelope list \<Rightarrow> sent list \<Rightarrow> bool" where
  session_stop: "session_type [] []"
| session_pong: "session_type reqs out \<Longrightarrow> session_type reqs (Pong b # out)"
| session_reply: "reply_type env r \<Longrightarrow> session_type reqs out \<Longrightarrow> session_type (env # reqs) (r @ out)"
| session_cut: "reply_type env (r @ rest) \<Longrightarrow> session_type [env] r"

subsection \<open>What the calls send\<close>

text \<open>From \<open>c\<close> to \<open>c'\<close> exactly \<open>out\<close> has been sent.\<close>

definition emits :: "deps \<Rightarrow> sent list \<Rightarrow> wsConn \<Rightarrow> wsConn \<Rightarrow> bool" where
  "emits d out c c' \<longleftrightarrow> open_server c' \<and> c_out c' = c_out c @ wire_of d out"

lemma emits_nil [simp]: "emits d [] c c' \<longleftrightarrow> open_server c' \<and> c_out c' = c_out c"
  by (simp add: emits_def wire_of_def)

lemma emits_append: "emits d a c c1 \<Longrightarrow> emits d b c1 c2 \<Longrightarrow> emits d (a @ b) c c2"
  by (simp add: emits_def wire_of_def)

lemma emits_open: "emits d out c c' \<Longrightarrow> open_server c'"
  by (simp add: emits_def)

lemma reply_emits:
  assumes "reply d env c = (r, c')" "open_server c"
  shows "(r = Inr () \<and> emits d [Msg env] c c') \<or> (\<not> is_ok r \<and> c' = c)"
  using assms by (auto simp: reply_def WriteMessage_open emits_def wire_of_def split: option.splits)

lemma send_ignoring_emits: "open_server c \<Longrightarrow> emits d [Msg env] c (send_ignoring d env c)"
  by (auto simp: send_ignoring_def WriteMessage_open emits_def wire_of_def split: option.splits)

lemma readFrame_emits: "readFrame c = (r, c') \<Longrightarrow> open_server c \<Longrightarrow> emits d [] c c'"
  by (auto simp: open_server_def dest!: readFrame_rest)

lemma read_body_emits:
  assumes "read_body limit payload first c = (t, c')" "open_server c"
  shows "\<exists>out. list_all is_pong out \<and> emits d out c c'"
proof -
  obtain r c1 where f: "readFrame c = (r, c1)" by (rule prod.exhaust)
  have c1: "emits d [] c c1" using readFrame_emits [OF f assms(2)] .
  show ?thesis
  proof (cases "\<exists>fin data. r = Inr (fin, opPing, data)")
    case True
    then obtain fin data where r: "r = Inr (fin, opPing, data)" by blast
    have "writeFrame opPong data c1 = (Inr (), c1\<lparr>c_out := c_out c1 @ frame_bytes True opPong None data\<rparr>)"
      using c1 by (intro writeFrame_server) (simp_all add: open_server_def)
    then have "emits d [Pong data] c c'" using assms(1) f r c1
      by (auto simp: read_body_def emits_def wire_of_def)
    then show ?thesis by (intro exI [of _ "[Pong data]"]) simp
  next
    case False
    then have "c' = c1" using assms(1) f
      by (auto simp: read_body_def Let_def split: sum.splits prod.splits if_splits)
    then show ?thesis using c1 by (intro exI [of _ "[]"]) simp
  qed
qed

lemma read_loop_emits:
  "read_loop limit payload first c = (r, c') \<Longrightarrow> open_server c \<Longrightarrow> \<exists>out. list_all is_pong out \<and> emits d out c c'"
proof (induction limit payload first c arbitrary: r c' rule: read_loop.induct)
  case (1 limit payload first c)
  obtain t c1 where b: "read_body limit payload first c = (t, c1)" by (rule prod.exhaust)
  obtain out where o: "list_all is_pong out" "emits d out c c1" using read_body_emits [OF b 1(3)] by blast
  show ?case
  proof (cases t)
    case (Return r1)
    then show ?thesis using 1(2) b o by (auto simp: read_loop.simps [of limit])
  next
    case (Continue p first')
    then have "read_loop limit p first' c1 = (r, c')" using 1(2) b by (simp add: read_loop.simps [of limit _ _ c])
    from 1(1) [OF b [symmetric] Continue this emits_open [OF o(2)]] o
    show ?thesis using emits_append by (metis list_all_append)
  qed
qed

lemma ReadMessage_emits:
  "ReadMessage c = (r, c') \<Longrightarrow> open_server c \<Longrightarrow> \<exists>out. list_all is_pong out \<and> emits d out c c'"
  unfolding ReadMessage_def by (rule read_loop_emits)

subsection \<open>What the handlers send\<close>

text \<open>A request was answered as its type says, or the session ends and part of such an answer was sent.\<close>

definition typed_turn :: "deps \<Rightarrow> wsEnvelope \<Rightarrow> unit res \<Rightarrow> wsConn \<Rightarrow> wsConn \<Rightarrow> bool" where
  "typed_turn d env r c c' \<longleftrightarrow>
     (\<exists>out. emits d out c c' \<and> (if is_ok r then reply_type env out else \<exists>rest. reply_type env (out @ rest)))"

lemma typed_answer:
  assumes "answer d e c1 x = (r, c', y)" "emits d out c c1" "reply_type env (out @ [Msg e])"
  shows "typed_turn d env r c c'"
proof -
  obtain r1 c2 where a: "reply d e c1 = (r1, c2)" by (rule prod.exhaust)
  have "(r1 = Inr () \<and> emits d [Msg e] c1 c2) \<or> (\<not> is_ok r1 \<and> c2 = c1)"
    using reply_emits [OF a emits_open [OF assms(2)]] .
  moreover have "r = r1" "c' = c2" using assms(1) a by (simp_all add: answer_def)
  ultimately show ?thesis using assms(2,3) emits_append [OF assms(2), of "[Msg e]"]
    unfolding typed_turn_def by (auto simp: is_ok_iff)
qed

lemma typed_stop:
  assumes "emits d out c c'" "reply_type env (out @ rest)" "\<not> is_ok r"
  shows "typed_turn d env r c c'"
  using assms by (auto simp: typed_turn_def)

lemma typed_refuse:
  assumes "refuse d msg c1 x = (r, c', y)" "emits d out c c1" "reply_type env (out @ [Msg (error_envelope ''error'' msg)])"
  shows "typed_turn d env r c c'"
  using typed_answer [of d "error_envelope ''error'' msg" c1 x r c' y out c env] assms
  by (simp add: answer_def refuse_def)

lemma is_error_refusal [simp]: "is_error t [Msg (error_envelope t msg)] \<longleftrightarrow> msg \<noteq> []"
  by (auto simp: is_error_def error_envelope_def envelope_def)

lemma send_chunks_emits:
  "send_chunks d i idxs c x = (r, c', y) \<Longrightarrow> open_server c \<Longrightarrow> sorted_wrt (<) idxs \<Longrightarrow> \<forall>j \<in> set idxs. k \<le> j \<Longrightarrow>
     \<exists>out. emits d out c c' \<and> chunk_stream i k (out @ [Msg ((envelope ''download_done'')\<lparr>env_TransferID := i\<rparr>)])"
proof (induction idxs arbitrary: c x k)
  case Nil
  then show ?case by (intro exI [of _ "[]"]) simp
next
  case (Cons j idxs)
  let ?e = "(envelope ''chunk'')\<lparr>env_TransferID := i, env_Index := j\<rparr>"
  obtain v w1 where rd: "readChunk (fst x) i j (snd x) = (v, w1)" by (rule prod.exhaust)
  show ?case
  proof (cases v)
    case (Inl e)
    then show ?thesis using Cons.prems(1,2) rd by (intro exI [of _ "[]"]) simp
  next
    case (Inr b)
    define c1 where "c1 = c\<lparr>c_out := c_out c @ text_frame (case d_enc d ?e of None \<Rightarrow> [] | Some b \<Rightarrow> b)\<rparr>"
    define c2 where "c2 = c1\<lparr>c_out := c_out c1 @ binary_frame b\<rparr>"
    have o: "open_server c1" "open_server c2" using Cons.prems(2) by (simp_all add: c1_def c2_def)
    have w1: "WriteMessage (case d_enc d ?e of None \<Rightarrow> [] | Some b \<Rightarrow> b) c = (Inr (), c1)"
      by (simp add: WriteMessage_open [OF Cons.prems(2)] c1_def)
    have w2: "WriteBinary b c1 = (Inr (), c2)" by (simp add: WriteBinary_open [OF o(1)] c2_def)
    have "send_chunks d i idxs c2 (fst x, w1) = (r, c', y)" using Cons.prems(1) rd Inr w1 w2 by (simp add: Let_def)
    moreover have "sorted_wrt (<) idxs" "\<forall>l \<in> set idxs. j + 1 \<le> l" using Cons.prems(3) by auto
    ultimately obtain out where out: "emits d out c2 c'"
      "chunk_stream i (j + 1) (out @ [Msg ((envelope ''download_done'')\<lparr>env_TransferID := i\<rparr>)])"
      using Cons.IH [OF _ o(2)] by blast
    have "emits d [Msg ?e, Bin b] c c2" using o(2) by (simp add: emits_def wire_of_def c1_def c2_def)
    then have "emits d ([Msg ?e, Bin b] @ out) c c'" using out(1) by (rule emits_append)
    moreover have "chunk_stream i k (([Msg ?e, Bin b] @ out) @ [Msg ((envelope ''download_done'')\<lparr>env_TransferID := i\<rparr>)])"
      using out(2) Cons.prems(4) by (simp add: envelope_def)
    ultimately show ?thesis by blast
  qed
qed

lemma pongs_first [simp]: "list_all is_pong out \<Longrightarrow> dropWhile is_pong (out @ Msg e # rest) = Msg e # rest"
  by (induction out) auto

text \<open>Each message.\<close>

lemma typed_err:
  assumes "refuse d msg c x = (r, c', y)" "open_server c" "msg \<noteq> []"
    "env_Type env \<in> {''start_upload'', ''chunk'', ''status'', ''download'', ''complete''}"
  shows "typed_turn d env r c c'"
  using assms by (intro typed_refuse [OF assms(1), where out = "[]"]) (auto simp: reply_type_def)

lemma typed_silence:
  assumes "open_server c" "env_Type env \<notin> {''start_upload'', ''chunk'', ''status'', ''list'', ''download''}"
  shows "typed_turn d env r c c"
  using assms unfolding typed_turn_def
  by (intro exI [of _ "[]"]) (auto simp: reply_type_def intro: exI [of _ "[]"])

lemma start_upload_typed:
  assumes "on_start_upload d now u env c x = (r, c', y)" "open_server c" "env_Type env = ''start_upload''"
  shows "typed_turn d env r c c'"
proof -
  have here: "emits d [] c c" using assms(2) by simp
  have ok: "typed_turn d env r c c'"
    if "answer d ((envelope ''upload_ready'')\<lparr>env_TransferID := env_TransferID env\<rparr>) c z = (r, c', y)" for z
    using assms(3) by (intro typed_answer [OF that here]) (simp add: reply_type_def)
  have stop: "typed_turn d env r c c" if "\<not> is_ok r" for r
    using assms(3) that
    by (intro typed_stop [OF here, where rest = "[Msg (error_envelope ''error'' ''x'')]"]) (simp_all add: reply_type_def)
  show ?thesis using assms ok stop
    by (fastforce simp: on_start_upload_def intro: typed_err split: if_splits prod.splits sum.splits)
qed

lemma chunk_typed:
  assumes "on_chunk d now u env c x = (r, c', y)" "open_server c" "env_Type env = ''chunk''"
  shows "typed_turn d env r c c'"
proof (cases "env_TransferID env = [] \<or> (case getMeta (fst x) (env_TransferID env) of None \<Rightarrow> True | Some m \<Rightarrow> From m \<noteq> u)")
  case True
  then show ?thesis using assms by (auto simp: on_chunk_def intro: typed_err split: if_splits)
next
  case False
  obtain v c1 where rm: "ReadMessage c = (v, c1)" by (rule prod.exhaust)
  obtain out where out: "list_all is_pong out" "emits d out c c1" using ReadMessage_emits [OF rm assms(2)] by blast
  have stop: "typed_turn d env r c c1" if "\<not> is_ok r" for r
    using assms(3) that out(1)
    by (intro typed_stop [OF out(2), where rest = "[Msg (error_envelope ''error'' ''x'')]"]) (simp_all add: reply_type_def)
  have no: "typed_turn d env r c c'" if "refuse d msg c1 z = (r, c', y)" "msg \<noteq> []" for msg z
    using assms(3) that out(1) by (intro typed_refuse [OF that(1) out(2)]) (simp add: reply_type_def)
  have ok: "typed_turn d env r c c'"
    if "answer d ((envelope ''chunk_ack'')\<lparr>env_TransferID := env_TransferID env, env_Index := env_Index env\<rparr>) c1 z = (r, c', y)" for z
    using assms(3) out(1) by (intro typed_answer [OF that out(2)]) (simp add: reply_type_def)
  show ?thesis using assms False rm stop no ok
    by (fastforce simp: on_chunk_def split: if_splits prod.splits sum.splits)
qed

lemma received_listed:
  assumes "store_inv s"
  shows "sorted_wrt (<) (receivedIndices s i) \<and> (\<forall>k \<in> set (receivedIndices s i). 0 \<le> k)"
proof -
  have "sorted_wrt (<) (receivedIndices s i)"
    using receivedIndices_sorted receivedIndices_distinct [OF assms] strict_sorted_iff by blast
  then show ?thesis
    using over_metaD [OF store_inv_over(1) [OF assms]] by (fastforce simp: received_set_def received_wf_def split: option.splits)
qed

lemma status_typed:
  assumes "on_status d u env c x = (r, c', y)" "open_server c" "store_inv (fst x)" "env_Type env = ''status''"
  shows "typed_turn d env r c c'"
proof -
  let ?ks = "receivedIndices (fst x) (env_TransferID env)"
  have ok: "typed_turn d env r c c'"
    if "answer d ((envelope ''status_result'')\<lparr>env_TransferID := env_TransferID env, env_ReceivedIndices := ?ks\<rparr>) c x = (r, c', y)"
    using assms(2,4) received_listed [OF assms(3), of "env_TransferID env"]
    by (intro typed_answer [OF that, where out = "[]"]) (simp_all add: reply_type_def strict_sorted_iff list_all_iff)
  show ?thesis using assms ok by (auto simp: on_status_def intro: typed_err split: if_splits)
qed

lemma list_typed:
  assumes "on_list d u c x = (r, c', y)" "open_server c" "env_Type env = ''list''"
  shows "typed_turn d env r c c'"
  using assms by (intro typed_answer [OF assms(1) [unfolded on_list_def], where out = "[]"]) (simp_all add: reply_type_def)

lemma download_typed:
  assumes "on_download d u env c x = (r, c', y)" "open_server c" "store_inv (fst x)" "env_Type env = ''download''"
  shows "typed_turn d env r c c'"
proof (cases "case getMeta (fst x) (env_TransferID env) of None \<Rightarrow> True | Some m \<Rightarrow> To m \<noteq> u")
  case True
  then show ?thesis using assms by (auto simp: on_download_def intro: typed_err split: if_splits)
next
  case False
  let ?i = "env_TransferID env"
  obtain v c1 z where sc: "send_chunks d ?i (receivedIndices (fst x) ?i) c x = (v, c1, z)" by (metis prod_cases3)
  obtain out where out: "emits d out c c1"
    "chunk_stream ?i 0 (out @ [Msg ((envelope ''download_done'')\<lparr>env_TransferID := ?i\<rparr>)])"
    using send_chunks_emits [OF sc assms(2)] received_listed [OF assms(3)] by blast
  have t: "reply_type env (out @ [Msg ((envelope ''download_done'')\<lparr>env_TransferID := ?i\<rparr>)])"
    using assms(4) out(2) by (simp add: reply_type_def)
  have ok: "typed_turn d env r c c'"
    if "answer d ((envelope ''download_done'')\<lparr>env_TransferID := ?i\<rparr>) c1 z = (r, c', y)"
    by (rule typed_answer [OF that out(1) t])
  have stop: "\<not> is_ok r \<Longrightarrow> typed_turn d env r c c1" by (rule typed_stop [OF out(1) t])
  show ?thesis using assms(1) False sc ok stop by (auto simp: on_download_def split: sum.splits)
qed

lemma complete_typed:
  assumes "on_complete d u env c x = (r, c', y)" "open_server c" "env_Type env = ''complete''"
  shows "typed_turn d env r c c'"
  using assms
  by (fastforce simp: on_complete_def intro: typed_err typed_silence split: option.splits if_splits prod.splits)

lemmas message_typed = start_upload_typed chunk_typed status_typed list_typed download_typed complete_typed

lemma dispatch_typed:
  assumes "dispatch d now u env c x = (r, c', y)" "open_server c" "store_inv (fst x)"
  shows "typed_turn d env r c c'"
  using assms by (auto simp: dispatch_def intro: message_typed typed_silence split: if_splits)

subsection \<open>Sessions\<close>

lemma session_pongs:
  "list_all is_pong out \<Longrightarrow> session_type reqs rest \<Longrightarrow> session_type reqs (out @ rest)"
proof (induction out)
  case (Cons s out)
  then show ?case by (cases s) (auto intro: session_pong)
qed simp

lemma session_typed:
  "session_run d u nows c x = (b, c', y) \<Longrightarrow> open_server c \<Longrightarrow> deps_ok d \<Longrightarrow> u \<noteq> [] \<Longrightarrow> state_inv x \<Longrightarrow>
     \<exists>reqs out. emits d out c c' \<and> session_type reqs out"
proof (induction nows arbitrary: c x)
  case Nil
  then show ?case by (intro exI [of _ "[]"]) (auto intro: session_stop)
next
  case (Cons now nows)
  obtain g c1 z where t: "session_turn d now u c x = (g, c1, z)" by (metis prod_cases3)
  have inv: "state_inv z" using session_turn_inv [OF t Cons.prems(3-5)] .
  have rest: "\<exists>reqs out. emits d out c1 c' \<and> session_type reqs out" if "g" "open_server c1"
    using Cons.IH [of c1 z] Cons.prems t that inv by simp
  have cut: "g \<or> c' = c1" using Cons.prems(1) t by (cases g) simp_all
  obtain v c0 where rm: "ReadMessage c = (v, c0)" by (rule prod.exhaust)
  obtain ps where ps: "list_all is_pong ps" "emits d ps c c0" using ReadMessage_emits [OF rm Cons.prems(2)] by blast
  have quiet: ?case if "c1 = c0"
  proof (cases g)
    case True
    have "open_server c1" using emits_open [OF ps(2)] that by simp
    from rest [OF True this] obtain reqs out where "emits d out c1 c'" "session_type reqs out" by blast
    then show ?thesis using that ps session_pongs emits_append by metis
  next
    case False
    then show ?thesis using that ps cut session_pongs [OF ps(1) session_stop] by (metis append_Nil2)
  qed
  show ?case
  proof (cases "\<exists>raw env. v = Inr (raw, opText) \<and> d_dec d raw = Some env")
    case False
    then have "c1 = c0" using t rm
      by (auto simp: session_turn_def split: sum.splits if_splits option.splits)
    then show ?thesis by (rule quiet)
  next
    case True
    then obtain raw env where e: "v = Inr (raw, opText)" "d_dec d raw = Some env" by blast
    obtain r c2 w where dsp: "dispatch d now u env c0 x = (r, c2, w)" by (metis prod_cases3)
    have g: "g = is_ok r" "c1 = c2" using t rm e dsp by (simp_all add: session_turn_def)
    have "typed_turn d env r c0 c2"
      using dispatch_typed [OF dsp emits_open [OF ps(2)]] Cons.prems(5) by (simp add: state_inv_def)
    then obtain out where out: "emits d out c0 c1" "if g then reply_type env out else \<exists>rest. reply_type env (out @ rest)"
      unfolding typed_turn_def g by blast
    note e1 = emits_append [OF ps(2) out(1)]
    show ?thesis
    proof (cases g)
      case True
      then obtain reqs more where m: "emits d more c1 c'" "session_type reqs more"
        using rest emits_open [OF out(1)] by blast
      then have "session_type (env # reqs) (ps @ out @ more)"
        using out(2) True by (intro session_pongs [OF ps(1)] session_reply) simp_all
      then show ?thesis using emits_append [OF e1 m(1)] by auto
    next
      case False
      then have "session_type [env] (ps @ out)"
        using out(2) by (intro session_pongs [OF ps(1)]) (auto intro: session_cut)
      then show ?thesis using e1 cut False by blast
    qed
  qed
qed

subsection \<open>The handshake\<close>

lemma read_envelope_emits:
  "read_envelope d t1 t2 p c = (r, c') \<Longrightarrow> open_server c \<Longrightarrow> \<exists>out. list_all is_pong out \<and> emits d out c c'"
  using ReadMessage_emits [of c] by (fastforce simp: read_envelope_def split: prod.splits sum.splits if_splits option.splits)

lemma rand_read_emits: "rand_read n c = (r, c') \<Longrightarrow> open_server c \<Longrightarrow> emits d [] c c'"
  using rand_read_same [of n c r c'] by (simp add: open_server_def)

lemma send_challenge_emits:
  assumes "send_challenge d pk c = (r, c')" "open_server c"
  shows "(\<exists>e. is_ok r \<and> is_challenge e \<and> emits d [Msg e] c c') \<or> (\<not> is_ok r \<and> emits d [] c c')"
proof (cases r)
  case (Inr challenge)
  from assms(1) [unfolded Inr] obtain ephPriv nonce shared rest b where
    c: "length nonce = nonceSize"
    "d_enc d ((envelope ''challenge'')\<lparr>env_ServerEphemeralPub := x_pub (d_crypto d) ephPriv, env_Nonce := nonce,
        env_Ciphertext := gcm_seal (d_crypto d) (deriveAuthKey shared) nonce challenge\<rparr>) = Some b"
    "WriteMessage b (c\<lparr>c_rand := rest\<rparr>) = (Inr (), c')"
    by (rule send_challenge_Inr) blast
  let ?e = "(envelope ''challenge'')\<lparr>env_ServerEphemeralPub := x_pub (d_crypto d) ephPriv, env_Nonce := nonce,
        env_Ciphertext := gcm_seal (d_crypto d) (deriveAuthKey shared) nonce challenge\<rparr>"
  have "is_challenge ?e" using c(1) by (simp add: is_challenge_def envelope_def)
  moreover have "emits d [Msg ?e] c c'"
    using c(2,3) assms(2) WriteMessage_open [of "c\<lparr>c_rand := rest\<rparr>" b] by (auto simp: emits_def wire_of_def)
  ultimately show ?thesis using Inr by auto
next
  case (Inl e)
  have rr: "emits d [] c0 c1 \<and> open_server c1" if "rand_read n c0 = (v, c1)" "open_server c0" for n c0 c1 v
    using rand_read_emits [OF that] by simp
  have rp: "emits d [] c0 c1" if "reply d env c0 = (Inl e, c1)" "open_server c0" for env c0 c1 e
    using reply_emits [OF that] that(2) by auto
  show ?thesis using assms Inl
    by (auto simp: send_challenge_def parseX25519Public_def generateX25519Keypair_def seal_def
        split: option.splits if_splits prod.splits sum.splits dest!: rr rp)
qed

lemma handshake_more:
  assumes "filter (\<lambda>s. \<not> is_pong s) out = [Msg e]" "is_challenge e"
  shows "handshake_type False out" "handshake_type True (out @ [Msg ((envelope ''auth_ok'')\<lparr>env_OK := True\<rparr>)])"
    "msg \<noteq> [] \<Longrightarrow> handshake_type False (out @ [Msg (error_envelope ''auth_error'' msg)])"
  using assms by (simp_all add: handshake_type_def)

lemma no_pongs: "list_all is_pong out \<Longrightarrow> filter (\<lambda>s. \<not> is_pong s) out = []"
  by (induction out) auto

text \<open>From the challenge on.\<close>

lemma challenged_typed:
  assumes a: "authenticate d minTier ks now1 now2 c = (r, c')"
    and before: "read_hello d c = (Inr hello, c1)" "check_token d minTier ks (env_Token hello) False now1 now2 = Inr tok"
      "send_challenge d (env_PubKey hello) c1 = (Inr challenge, c2)"
    and sent: "emits d p c c2" "filter (\<lambda>s. \<not> is_pong s) p = [Msg e]" "is_challenge e"
  shows "\<exists>out. emits d out c c' \<and> handshake_type (is_ok r) out"
proof -
  obtain q c3 where rs: "read_response d c2 = (q, c3)" by (rule prod.exhaust)
  obtain p2 where p2: "list_all is_pong p2" "emits d p2 c2 c3"
    using read_envelope_emits [OF rs [unfolded read_response_def] emits_open [OF sent(1)]] by blast
  note e3 = emits_append [OF sent(1) p2(2)]
  have said: "filter (\<lambda>s. \<not> is_pong s) (p @ p2) = [Msg e]" using sent(2) no_pongs [OF p2(1)] by simp
  have stop: ?thesis if "c' = c3" "\<not> is_ok r"
    using e3 handshake_more(1) [OF said sent(3)] that by auto
  note facts = a before rs
  consider (unread) "\<not> is_ok q" | (wrong) resp where "q = Inr resp" "env_Response resp \<noteq> challenge"
    | (right) resp where "q = Inr resp" "env_Response resp = challenge"
    by (cases q) auto
  then show ?thesis
  proof cases
    case unread
    then show ?thesis using facts stop by (cases q) (auto simp: authenticate_def)
  next
    case wrong
    let ?e = "error_envelope ''auth_error'' ''challenge mismatch''"
    have "c' = send_ignoring d ?e c3" "\<not> is_ok r" using facts wrong by (auto simp: authenticate_def)
    moreover have "emits d ((p @ p2) @ [Msg ?e]) c (send_ignoring d ?e c3)"
      using emits_append [OF e3] send_ignoring_emits [OF emits_open [OF e3]] by blast
    ultimately show ?thesis using handshake_more(3) [OF said sent(3), of "''challenge mismatch''"] by (metis list.distinct(1))
  next
    case right
    let ?ok = "(envelope ''auth_ok'')\<lparr>env_OK := True\<rparr>"
    obtain w c4 where rp: "reply d ?ok c3 = (w, c4)" by (rule prod.exhaust)
    note re = reply_emits [OF rp emits_open [OF e3]]
    show ?thesis
    proof (cases "is_ok w")
      case False
      then show ?thesis using facts right rp re stop by (auto simp: authenticate_def split: sum.splits)
    next
      case True
      then have "emits d ((p @ p2) @ [Msg ?ok]) c c4" using re e3 emits_append by blast
      moreover have "is_ok r" "c' = c4" using facts right rp True by (auto simp: authenticate_def split: sum.splits)
      ultimately show ?thesis using handshake_more(2) [OF said sent(3)] by (metis (full_types))
    qed
  qed
qed

lemma authenticate_typed:
  assumes a: "authenticate d minTier ks now1 now2 c = (r, c')" and o: "open_server c"
  shows "\<exists>out. emits d out c c' \<and> handshake_type (is_ok r) out"
proof -
  obtain h c1 where h: "read_hello d c = (h, c1)" by (rule prod.exhaust)
  obtain p1 where p1: "list_all is_pong p1" "emits d p1 c c1"
    using read_envelope_emits [OF h [unfolded read_hello_def] o] by blast
  have quiet: ?thesis if "c' = c2" "\<not> is_ok r" "emits d [] c1 c2" for c2
    using that emits_append [OF p1(2) that(3)] no_pongs [OF p1(1)] by (auto simp: handshake_type_def)
  show ?thesis
  proof (cases h)
    case (Inl e)
    then show ?thesis using a h quiet [of c1] emits_open [OF p1(2)] by (auto simp: authenticate_def)
  next
    case hello: (Inr hello)
    show ?thesis
    proof (cases "check_token d minTier ks (env_Token hello) False now1 now2")
      case (Inl e)
      let ?e = "error_envelope ''auth_error'' (''access token rejected: '' @ error_text e)"
      have "c' = send_ignoring d ?e c1" "\<not> is_ok r" using a h hello Inl by (auto simp: authenticate_def)
      moreover have "emits d (p1 @ [Msg ?e]) c (send_ignoring d ?e c1)"
        using emits_append [OF p1(2)] send_ignoring_emits [OF emits_open [OF p1(2)]] by blast
      moreover have "handshake_type False (p1 @ [Msg ?e])" using no_pongs [OF p1(1)] by (simp add: handshake_type_def)
      ultimately show ?thesis by (metis (full_types))
    next
      case tok: (Inr tok)
      obtain v c2 where ch: "send_challenge d (env_PubKey hello) c1 = (v, c2)" by (rule prod.exhaust)
      note sc = send_challenge_emits [OF ch emits_open [OF p1(2)]]
      show ?thesis
      proof (cases v)
        case (Inl e)
        then show ?thesis using a h hello tok ch sc quiet [of c2] by (auto simp: authenticate_def)
      next
        case (Inr challenge)
        then obtain e where e: "is_challenge e" "emits d [Msg e] c1 c2" using sc by auto
        then show ?thesis
          using challenged_typed [OF a _ tok _ emits_append [OF p1(2) e(2)] _ e(1)] h hello ch Inr no_pongs [OF p1(1)] by simp
      qed
    qed
  qed
qed

end
