(* ===== verification/ProtocolProps.thy ===== *)
theory ProtocolProps
  imports Protocol DispatchProps WsProps
begin

text \<open>
  The types of what the server sends: one control message, and a whole connection.
\<close>

text \<open>Every control message is answered as its type says: at most one \<open>error\<close>, or the reply
  \<open>types.go\<close> lists for it, with the id and index of the request, the received indices in order and without
  repetition, and a download as headers with ascending indices, each followed by its binary frame, and
  \<open>download_done\<close>; no message carries a field that is not its own. Where the session ends instead, what was sent
  is the beginning of such an answer. This holds of every envelope a client may send.\<close>

theorem dispatch_replies_typed:
  assumes "dispatch d now u env c x = (r, c', y)" "open_server c" "state_inv x"
  shows "\<exists>out. c_out c' = c_out c @ wire_of d out
    \<and> (if is_ok r then reply_type env out else \<exists>rest. reply_type env (out @ rest))"
  using dispatch_typed [OF assms(1,2)] assms(3) by (auto simp: typed_turn_def emits_def state_inv_def)

theorem dispatch_replies_typed_witness:
  "\<exists>out. c_out (fst (snd (dispatch sample_deps 9 ''v'' ((envelope ''download'')\<lparr>env_TransferID := ''t''\<rparr>)
        (sample_conn [] []) one_chunk))) = wire_of sample_deps out
    \<and> (reply_type ((envelope ''download'')\<lparr>env_TransferID := ''t''\<rparr>) out
       \<or> (\<exists>rest. reply_type ((envelope ''download'')\<lparr>env_TransferID := ''t''\<rparr>) (out @ rest)))"
proof -
  obtain r c y where d: "dispatch sample_deps 9 ''v'' ((envelope ''download'')\<lparr>env_TransferID := ''t''\<rparr>)
      (sample_conn [] []) one_chunk = (r, c, y)" by (metis prod_cases3)
  have "state_inv one_chunk" using one_chunk_live by (simp add: live_def del: one_chunk_live)
  from dispatch_replies_typed [OF d sample_conn_open this] d show ?thesis
    by (auto simp: sample_conn_def split: if_splits)
qed



end
