(* ===== verification/LinkProps.thy ===== *)
theory LinkProps
  imports DispatchProps System
begin

text \<open>
  The properties of the link-share surface: what it cannot reach, what it stores and returns, and when
  a one-time link is gone.  The witnesses use a one-time link \<open>l\<close> of one chunk.
\<close>

subsection \<open>Downloads, on the specification\<close>

lemma live_parts:
  assumes "live c x"
  shows "state_inv x" "durable c x" "w_faults (snd x) = []" "meta_codec_ok c" "codec_total c" "exact c x"
  using assms by (auto simp: live_def exact_def)

lemma live_received:
  assumes "live c (s, w)" "chunk_of (s, w) i k = Some b"
  shows "\<exists>m. mget (meta s) i = Some m \<and> readChunk s i k w = (Inr b, w)"
proof -
  have k: "k \<in> received_set s i" using assms(2) by (auto simp: chunk_of_def split: if_splits)
  then obtain m where m: "mget (meta s) i = Some m"
    using store_inv_no_received [of s i] live_parts(1) [OF assms(1)]
    by (auto simp: received_set_def state_inv_def split: option.splits)
  then show ?thesis using readChunk_ok [of c s w i m k] live_parts(2,3) [OF assms(1)] k assms(2) by auto
qed

lemma download_spec:
  assumes lv: "live (d_meta d) x" and m: "getMeta (fst x) i = Some m" "Mode m = ''link''"
    and k: "0 \<le> k" "k < TotalChunks m" and b: "chunk_of x i k = Some b"
  shows "\<exists>y. handleLinkChunkDownload d now i (itoa k) True x = (DataReply b, y) \<and> live (d_meta d) y
    \<and> spec_of y = spec_step life (OpMarkServed i k) (spec_step life (OpTouch i now) (spec_of x))"
proof -
  obtain s w where x: "x = (s, w)" by fastforce
  have wf: "meta_wf i m" using m live_parts(1) [OF lv] store_inv_meta [of s i m] x by (simp add: state_inv_def getMeta_def)
  have r: "readChunk s i k w = (Inr b, w)" using live_received [OF lv [unfolded x] b [unfolded x]] by blast
  have a: "atoi (itoa k) = Some k" using wf k by (intro atoi_itoa) (simp add: meta_wf_def int64_range_def)
  let ?c = "d_meta d" let ?it = "\<lambda>ks :: string list. ks"
  let ?x1 = "store_step ?c ?it (OpTouch i now) x"
  let ?y = "store_step ?c ?it (OpMarkServed i k) ?x1"
  have l1: "live ?c ?x1" and s1: "spec_of ?x1 = spec_step life (OpTouch i now) (spec_of x)"
    using live_step [OF lv, of "OpTouch i now" ?it] touch_spec [of s w ?c i now life] live_parts(1) [OF lv]
    by (simp_all add: x)
  obtain s1 w1 where x1: "?x1 = (s1, w1)" by fastforce
  have "getMeta s1 i = Some (m\<lparr>TouchedAt := now\<rparr>)"
    using x1 m x by (auto simp: touchLinkTransfer_def getMeta_def Let_def)
  then have g: "store_guard (OpMarkServed i k) ?x1" using k by (simp add: x1)
  have l2: "live ?c ?y" using live_step [OF l1 g map_iteration_id] .
  have s2: "spec_of ?y = spec_step life (OpMarkServed i k) (spec_of ?x1)"
    using mark_spec [of s1 w1 i k life] live_parts(1) [OF l1] g by (simp add: x1 del: spec_step.simps)
  have "handleLinkChunkDownload d now i (itoa k) True x = (DataReply b, ?y)"
    using m a k r x1 by (simp add: handleLinkChunkDownload_def x split: prod.splits)
  then show ?thesis using l2 s2 s1 by metis
qed

text \<open>Downloads one after the other, each written to its client in full: time and index of each.\<close>

fun serve_all :: "deps \<Rightarrow> string \<Rightarrow> (int \<times> int) list \<Rightarrow> state \<Rightarrow> state" where
  "serve_all d i [] x = x"
| "serve_all d i ((now, k) # ks) x = serve_all d i ks (snd (handleLinkChunkDownload d now i (itoa k) True x))"

lemma serve_all_gone: "getMeta (fst x) i = None \<Longrightarrow> serve_all d i ks x = x"
  by (induction ks) (auto simp: handleLinkChunkDownload_def)

lemma serve_all_spec:
  "live (d_meta d) x \<Longrightarrow> spec_of x i = Some (m, f, v) \<Longrightarrow> Mode m = ''link'' \<Longrightarrow> OneTime m \<Longrightarrow>
   (\<And>k. 0 \<le> k \<Longrightarrow> k < TotalChunks m \<Longrightarrow> f k \<noteq> None) \<Longrightarrow>
   list_all (\<lambda>(now, k). 0 \<le> k \<and> k < TotalChunks m) ks \<Longrightarrow> v \<subseteq> {0..<TotalChunks m} \<Longrightarrow> v \<noteq> {0..<TotalChunks m} \<Longrightarrow>
   getMeta (fst (serve_all d i ks x)) i = None \<longleftrightarrow> {0..<TotalChunks m} \<subseteq> v \<union> snd ` set ks"
proof (induction ks arbitrary: x m v)
  case Nil
  then have "getMeta (fst x) i \<noteq> None" using spec_of_None [of x i] by auto
  then show ?case using Nil by auto
next
  case (Cons e ks)
  obtain now k where e: "e = (now, k)" by fastforce
  have k: "0 \<le> k" "k < TotalChunks m" using Cons.prems(6) e by simp_all
  have a: "abs_state x i = Some (m, f)" using Cons.prems(2) by (simp add: spec_of_Some)
  then have m: "getMeta (fst x) i = Some m" "chunk_of x i = f" by (auto simp: abs_state_def)
  obtain b where b: "chunk_of x i k = Some b" using Cons.prems(5) [OF k] m(2) by auto
  obtain y where y: "handleLinkChunkDownload d now i (itoa k) True x = (DataReply b, y)" "live (d_meta d) y"
    "spec_of y = spec_step 0 (OpMarkServed i k) (spec_step 0 (OpTouch i now) (spec_of x))"
    using download_spec [OF Cons.prems(1) m(1) Cons.prems(3) k b] by blast
  let ?m = "m\<lparr>TouchedAt := now\<rparr>"
  have s: "spec_of y i = (if insert k v = {0..<TotalChunks m} then None else Some (?m, f, insert k v))"
    using y(3) Cons.prems(2,3,4) by (simp add: spec_update_def)
  show ?case
  proof (cases "insert k v = {0..<TotalChunks m}")
    case True
    then have "getMeta (fst y) i = None" using s spec_of_None [of y i] by simp
    then show ?thesis using serve_all_gone [of y i d ks] y(1) e True by auto
  next
    case False
    then have "spec_of y i = Some (?m, f, insert k v)" using s by simp
    from Cons.IH [OF y(2) this] show ?thesis
      using Cons.prems(3-7) k False y(1) e by simp
  qed
qed

lemma served_not_all:
  assumes "store_inv s" "mget (meta s) i = Some m" "OneTime m"
  shows "served_set s i \<subseteq> {0..<TotalChunks m} \<and> served_set s i \<noteq> {0..<TotalChunks m}"
proof (cases "mget (served s) i")
  case None
  then show ?thesis using store_inv_meta [OF assms(1,2)] by (auto simp: served_set_def meta_wf_def)
next
  case (Some xs)
  then have w: "distinct xs" "set xs \<subseteq> {0..<TotalChunks m}" "int (length xs) < TotalChunks m"
    using store_inv_served [OF assms(1) Some assms(2)] assms(3) by (auto simp: served_wf_def received_wf_def)
  then have "set xs \<noteq> {0..<TotalChunks m}" using distinct_card [OF w(1)] by auto
  then show ?thesis using w(2) Some by (simp add: served_set_def)
qed

subsection \<open>The link of the witnesses\<close>

definition link_ops :: "store_op list" where
  "link_ops = [OpCreateLink ''l'' ''secret'' 1 True 5, OpWriteChunk ''l'' 0 [4, 2] 6]"

definition one_link :: state where
  "one_link = run (store_step sample_codec (\<lambda>ks. ks)) link_ops sample_state"

definition link_entry :: transferMeta where
  "link_entry = (link_meta ''l'' ''secret'' 1 True 5)\<lparr>TouchedAt := 6\<rparr>"

lemma one_link_run: "live sample_codec one_link" "spec_of one_link = [''l'' \<mapsto> (link_entry, [0 \<mapsto> [4, 2]], {})]"
proof -
  have g: "guarded_run (store_step sample_codec (\<lambda>ks. ks)) store_guard link_ops sample_state"
    by (simp add: link_ops_def int64_range_def)
  have "fold (spec_step 100) link_ops Map.empty = [''l'' \<mapsto> (link_entry, [0 \<mapsto> [4, 2]], {})]"
    by (rule ext) (simp add: link_ops_def link_entry_def spec_update_def link_meta_def validTransferID_def id_char_def)
  then show "live sample_codec one_link" "spec_of one_link = [''l'' \<mapsto> (link_entry, [0 \<mapsto> [4, 2]], {})]"
    using run_spec [OF sample_state_ok(1) g map_iteration_id] by (simp_all add: one_link_def)
qed

lemma one_link_facts [simp]:
  "live (d_meta sample_deps) one_link" "state_inv one_link" "getMeta (fst one_link) ''l'' = Some link_entry"
  "chunk_of one_link ''l'' 0 = Some [4, 2]" "Mode link_entry = ''link''" "OneTime link_entry"
  "TotalChunks link_entry = 1" "ManageToken link_entry = ''secret''" "served_set (fst one_link) ''l'' = {}"
proof -
  have s: "abs_state one_link ''l'' = Some (link_entry, [0 \<mapsto> [4, 2]]) \<and> {} = served_set (fst one_link) ''l''"
    using fun_cong [OF one_link_run(2), of "''l''"] unfolding spec_of_Some [symmetric] by simp
  then show "getMeta (fst one_link) ''l'' = Some link_entry" "chunk_of one_link ''l'' 0 = Some [4, 2]"
    "served_set (fst one_link) ''l'' = {}"
    by (auto simp: abs_state_def)
qed (use one_link_run(1) in \<open>simp_all add: live_def link_entry_def link_meta_def\<close>)



subsection \<open>What the surface reaches\<close>

text \<open>C15: (safety) The link surface never reaches a direct transfer: no HTTP request, whatever its method, path, headers
  and body, changes its record or its chunks, and the requests that name it are answered \<open>404\<close>
  (preflights with an empty reply).\<close>

theorem direct_transfers_unreachable:
  assumes "deps_ok d" "state_inv x" "getMeta (fst x) i = Some m" "Mode m \<noteq> ''link''"
    "serve_link d minTier ks t rq (rnd, x) = (resp, rnd', y)"
  shows "abs_state y i = abs_state x i
    \<and> (mux_route (rq_method rq) (rq_path rq) \<in> {ToChunkUpload i k, ToChunkDownload i k, ToMeta i, ToDelete i}
        \<longrightarrow> y = x \<and> resp = Response True
              (if rq_method rq = ''OPTIONS'' then NoContent else HttpError 404 ''no such transfer''))"
proof
  show "abs_state y i = abs_state x i"
  proof (rule effect_abs_other [OF serve_link_effect [OF assms(1,2,5)]])
    show "map_iteration (d_iter d)" using assms(1) by (simp add: deps_ok_def)
    show "\<exists>j. op_id op = Some j \<and> j \<noteq> i" if "link_may rq (fst x) op" for op
      using that assms(3,4) by (auto simp: link_may_def split: route.splits)
  qed (rule assms(2))
  show "mux_route (rq_method rq) (rq_path rq) \<in> {ToChunkUpload i k, ToChunkDownload i k, ToMeta i, ToDelete i}
        \<longrightarrow> y = x \<and> resp = Response True
              (if rq_method rq = ''OPTIONS'' then NoContent else HttpError 404 ''no such transfer'')"
    using assms(5) link_handlers_direct [OF assms(3,4)]
    by (auto simp: serve_link_def withLinkCORS_def split: if_splits)
qed

definition sample_request :: "string \<Rightarrow> string list \<Rightarrow> http_req" where
  "sample_request method segs = \<lparr>rq_method = method, rq_path = segs, rq_manage = [],
     rq_body = \<lparr>hb_data = [1], hb_err = None\<rparr>, rq_conn_ok = True\<rparr>"

definition sample_clock :: clock where
  "sample_clock = \<lparr>t_key = 10, t_token = 10, t_store = 10\<rparr>"

theorem direct_transfers_unreachable_witness:
  "serve_link sample_deps ''paid'' (newStaticKeySource sample_key) sample_clock
     (sample_request ''GET'' [''link'', ''t'', ''chunk'', ''0'']) ([], one_chunk)
   = (Response True (HttpError 404 ''no such transfer''), [], one_chunk)"
proof -
  let ?rq = "sample_request ''GET'' [''link'', ''t'', ''chunk'', ''0'']"
  have r: "mux_route ''GET'' (rq_path ?rq) = ToChunkDownload ''t'' ''0''" "rq_method ?rq = ''GET''"
    by (simp_all add: sample_request_def mux_route_def)
  obtain resp rnd' y where s: "serve_link sample_deps ''paid'' (newStaticKeySource sample_key) sample_clock ?rq ([], one_chunk)
      = (resp, rnd', y)" by (metis prod_cases3)
  have "rnd' = []" using s by (auto simp: serve_link_def r withLinkCORS_def split: prod.splits)
  have d: "state_inv one_chunk" "Mode (direct_meta ''t'' ''u'' ''v'' 1 False 5) \<noteq> ''link''"
    using live_parts(1) [OF one_chunk_live] by (simp_all add: direct_meta_def)
  from direct_transfers_unreachable [OF sample_deps_ok d(1) one_chunk_meta d(2) s, of "''0''"] s \<open>rnd' = []\<close>
  show ?thesis by (simp add: r)
qed

lemma write_iter: "store_step c iter (OpWriteChunk i k d now) x = store_step c (\<lambda>ks. ks) (OpWriteChunk i k d now) x"
  by (cases x) simp

text \<open>C28: (roundtrip) A chunk the link surface accepts is at most 5 MiB, and a download of that index then returns
  exactly the bytes of the upload's body.\<close>

theorem link_upload_roundtrip:
  assumes "live (d_meta d) x" "handleLinkChunkUpload d now i index got body x = (NoContent, y)"
  shows "length (hb_data body) \<le> 5 * 2 ^ 20
    \<and> fst (handleLinkChunkDownload d now2 i index sent y) = DataReply (hb_data body)"
proof -
  obtain m k where u: "getMeta (fst x) i = Some m" "Mode m = ''link''" "atoi index = Some k" "0 \<le> k"
    "k < TotalChunks m" "length (hb_data body) \<le> maxLinkChunkBytes"
    "abs_state y = (abs_state x)(i \<mapsto> (m\<lparr>TouchedAt := now\<rparr>, (chunk_of x i)(k \<mapsto> hb_data body)))"
    using link_upload_stores [OF live_parts(1) [OF assms(1)] assms(2)] by blast
  have ly: "live (d_meta d) y"
    using handleLinkChunkUpload_effect [OF assms(2) live_parts(1) [OF assms(1)]] assms(1)
      live_step [OF assms(1) store_guard_simps(4) map_iteration_id] write_iter
    by metis
  obtain s w where y: "y = (s, w)" by fastforce
  have m: "getMeta s i = Some (m\<lparr>TouchedAt := now\<rparr>)" "chunk_of (s, w) i k = Some (hb_data body)"
    using fun_cong [OF u(7), of i] by (auto simp: abs_state_def y)
  have "readChunk s i k w = (Inr (hb_data body), w)" using live_received [OF ly [unfolded y] m(2)] by blast
  then show ?thesis using u(2-6) m(1)
    by (simp add: handleLinkChunkDownload_def y maxLinkChunkBytes_def split: prod.splits)
qed

definition upload_body :: http_body where
  "upload_body = \<lparr>hb_data = [9, 9], hb_err = None\<rparr>"

lemma sample_upload:
  "\<exists>y. handleLinkChunkUpload sample_deps 8 ''l'' ''0'' ''secret'' upload_body one_link = (NoContent, y)"
proof -
  obtain s w where x: "one_link = (s, w)" by fastforce
  have m: "getMeta s ''l'' = Some link_entry" using one_link_facts(3) unfolding x by simp
  have "atoi ''0'' = Some 0" by code_simp
  moreover have "linkTransferForManage s ''l'' ''secret'' = Inr link_entry"
    using m by (simp add: linkTransferForManage_Inr)
  moreover have "TransferID link_entry = ''l''" by (simp add: link_entry_def link_meta_def)
  moreover have "read_limited (maxLinkChunkBytes + 1) upload_body = Inr [9, 9]"
    by (simp add: read_limited_def upload_body_def maxLinkChunkBytes_def)
  moreover obtain r s' w' where w: "writeChunk sample_codec ''l'' 0 [9, 9] 8 s w = (r, s', w')" by (metis prod_cases3)
  moreover have "r = Inr ()"
  proof -
    have l: "meta_codec_ok sample_codec" "codec_total sample_codec" "state_inv (s, w)" "exact sample_codec (s, w)"
      using one_link_run(1) by (simp_all add: x live_def)
    have "mget (meta s) ''l'' = Some link_entry" using m by (simp add: getMeta_def)
    from exact_writeChunk(3) [OF l this, of 0 "[9, 9]" 8] w show ?thesis by simp
  qed
  ultimately show ?thesis by (simp add: handleLinkChunkUpload_def x maxLinkChunkBytes_def)
qed

theorem link_upload_roundtrip_witness:
  "\<exists>y. handleLinkChunkUpload sample_deps 8 ''l'' ''0'' ''secret'' upload_body one_link = (NoContent, y)
     \<and> fst (handleLinkChunkDownload sample_deps 9 ''l'' ''0'' True y) = DataReply [9, 9]"
proof -
  obtain y where y: "handleLinkChunkUpload sample_deps 8 ''l'' ''0'' ''secret'' upload_body one_link = (NoContent, y)"
    using sample_upload by blast
  from link_upload_roundtrip [OF one_link_facts(1) y, of 9 True] y show ?thesis by (auto simp: upload_body_def)
qed

lemma link_start:
  assumes "live (d_meta d) x" "deps_ok d" "d_start d (take 4096 (hb_data body)) = Some req" "0 < ls_TotalChunks req"
    "check_token d minTier ks (ls_Token req) (ls_SecretOnly req) now1 now2 = Inr tok" "48 \<le> length rnd"
    "getMeta (fst x) (rawurl_encode (take 16 rnd)) = None"
  shows "\<exists>i token y. handleLinkStart d minTier ks now1 now2 now3 body rnd x = (StartReply i token, drop 48 rnd, y)
    \<and> i = rawurl_encode (take 16 rnd) \<and> token = rawurl_encode (take 32 (drop 16 rnd))
    \<and> validTransferID i \<and> length i = 22 \<and> length token = 43 \<and> live (d_meta d) y
    \<and> spec_of y = (spec_of x)(i \<mapsto> (link_meta i token (ls_TotalChunks req) (ls_OneTime req) now3, Map.empty, {}))"
proof -
  obtain s w where x: "x = (s, w)" by fastforce
  let ?i = "rawurl_encode (take 16 rnd)" and ?t = "rawurl_encode (take 32 (drop 16 rnd))"
  let ?n = "ls_TotalChunks req"
  have r: "genRandomToken 16 rnd = (Inr ?i, drop 16 rnd)" "genRandomToken 32 (drop 16 rnd) = (Inr ?t, drop 48 rnd)"
    using assms(6) by (simp_all add: genRandomToken_def)
  have v: "validTransferID ?i" "length ?i = 22" using transfer_id_valid [of rnd ?i] r(1) by simp_all
  have t: "length ?t = 43" using genRandomToken_length [of 32 "drop 16 rnd" ?t] r(2) by simp
  obtain pub where p: "current ks now1 = Inr pub"
    "verifyToken (ed_verify (d_crypto d)) (d_token d) pub (ls_Token req) minTier (ls_SecretOnly req) now2 = Inr tok"
    using assms(5) by (auto simp: check_token_def split: sum.splits)
  let ?m = "link_meta ?i ?t ?n (ls_OneTime req) now3"
  have wf: "meta_wf (TransferID ?m) ?m"
    using v(1) assms(2-4) by (auto simp: meta_wf_def link_meta_def link_form_def deps_ok_def)
  have sel: "TransferID ?m = ?i" "From ?m = []" by (simp_all add: link_meta_def)
  have l: "meta_codec_ok (d_meta d)" "codec_total (d_meta d)" "state_inv (s, w)" "exact (d_meta d) (s, w)"
    using live_parts [OF assms(1)] by (simp_all add: x)
  have new: "mget (meta s) (TransferID ?m) = None" using assms(7) by (simp add: x sel getMeta_def)
  obtain y where y: "install_transfer (d_meta d) ?m s w = (Inr (), y)"
    using exact_install [OF l new wf] by blast
  have c: "createLinkTransfer (d_meta d) ?i ?t ?n (ls_OneTime req) now3 s w = (Inr (), y)"
    using y new v(1) by (simp add: createLinkTransfer_def sel)
  have "live (d_meta d) y"
    using live_step [OF assms(1) _ map_iteration_id, of "OpCreateLink ?i ?t ?n (ls_OneTime req) now3"] c wf
    by (simp add: x meta_wf_def link_meta_def)
  moreover have "spec_of y = (spec_of x)(?i \<mapsto> (?m, Map.empty, {}))"
    using install_spec [OF assms(1) [unfolded x] new wf] y sel by (simp add: x)
  moreover have "handleLinkStart d minTier ks now1 now2 now3 body rnd x = (StartReply ?i ?t, drop 48 rnd, y)"
    using assms(3,4) p r c by (simp add: handleLinkStart_def x)
  ultimately show ?thesis using v t by blast
qed

text \<open>A start request with a positive chunk count and a token that checks creates a link: the reply
  carries an id of 22 and a manage token of 43 characters, both made of fresh random bytes and nothing else, the id is
  a valid one, and the store has exactly the new link more.\<close>

theorem link_start_creates:
  assumes "live (d_meta d) x" "deps_ok d" "d_start d (take 4096 (hb_data body)) = Some req" "0 < ls_TotalChunks req"
    "check_token d minTier ks (ls_Token req) (ls_SecretOnly req) now1 now2 = Inr tok" "48 \<le> length rnd"
    "getMeta (fst x) (rawurl_encode (take 16 rnd)) = None"
  shows "\<exists>i token y. handleLinkStart d minTier ks now1 now2 now3 body rnd x = (StartReply i token, drop 48 rnd, y)
    \<and> i = rawurl_encode (take 16 rnd) \<and> token = rawurl_encode (take 32 (drop 16 rnd))
    \<and> validTransferID i \<and> length i = 22 \<and> length token = 43 \<and> live (d_meta d) y
    \<and> spec_of y = (spec_of x)(i \<mapsto> (link_meta i token (ls_TotalChunks req) (ls_OneTime req) now3, Map.empty, {}))"
  using assms by (rule link_start)

definition start_request :: linkStartRequest where
  "start_request = \<lparr>ls_Token = issued_token (bytes_of ''claims'') sample_key, ls_TotalChunks = 1,
     ls_OneTime = True, ls_SecretOnly = False\<rparr>"

theorem link_start_creates_witness:
  "\<exists>i token y. handleLinkStart sample_deps ''paid'' (newStaticKeySource sample_key) 10 11 12
     \<lparr>hb_data = bytes_of ''start'', hb_err = None\<rparr> (replicate 48 0) sample_state = (StartReply i token, [], y)
   \<and> length i = 22 \<and> length token = 43"
proof -
  let ?b = "\<lparr>hb_data = bytes_of ''start'', hb_err = None\<rparr>"
  have q: "d_start sample_deps (take 4096 (hb_data ?b)) = Some start_request"
    by (simp add: sample_deps_def start_request_def)
  have n: "0 < ls_TotalChunks start_request" by (simp add: start_request_def)
  have c: "check_token sample_deps ''paid'' (newStaticKeySource sample_key) (ls_Token start_request)
      (ls_SecretOnly start_request) 10 11 = Inr sample_token"
    by (simp add: check_token_iff current_def newStaticKeySource_def start_request_def tierRank_def plan_admits_def
        issued_token_valid)
  have "live (d_meta sample_deps) sample_state" "48 \<le> length (replicate 48 (0 :: byte))"
    "getMeta (fst sample_state) (rawurl_encode (take 16 (replicate 48 0))) = None"
    by (simp_all add: sample_state_def)
  from link_start_creates [OF this(1) sample_deps_ok q n c this(2,3), of 12] show ?thesis by auto
qed


end
