(* ===== verification/LinkLife.thy ===== *)
theory LinkLife
  imports LinkProps
begin

text \<open>
  The life of a secret link, composed from the handlers: a start request creates it, the uploader puts
  its chunks with the manage token, downloads return them, and when every chunk has gone out the link
  is gone.
\<close>

subsection \<open>Uploads to a link\<close>

lemma handleLinkChunkUpload_live:
  assumes lv: "live (d_meta d) x" and m: "getMeta (fst x) i = Some m" "Mode m = ''link''" "ManageToken m = tok" "tok \<noteq> []"
    and k: "0 \<le> k" "k < TotalChunks m" and b: "length b \<le> maxLinkChunkBytes"
  shows "handleLinkChunkUpload d now i (itoa k) tok \<lparr>hb_data = b, hb_err = None\<rparr> x
    = (NoContent, put_chunk_at (d_meta d) now i k b x)"
proof -
  obtain s w where x: "x = (s, w)" by fastforce
  have ms: "mget (meta s) i = Some m" using m(1) by (simp add: getMeta_def x)
  have wf: "meta_wf i m" using live_parts(1) [OF lv] store_inv_meta [OF _ ms] by (simp add: x state_inv_def)
  have a: "atoi (itoa k) = Some k" using wf k by (intro atoi_itoa) (simp add: meta_wf_def int64_range_def)
  obtain r y where wr: "writeChunk (d_meta d) i k b now s w = (r, y)" by (rule prod.exhaust)
  then have "r = Inr ()"
    using exact_writeChunk(3) [of "d_meta d" s w i m k b now] live_parts [OF lv] ms k by (cases y) (simp add: x)
  moreover have "linkTransferForManage s i tok = Inr m" using m by (simp add: linkTransferForManage_Inr x)
  moreover have "TransferID m = i" using wf by (simp add: meta_wf_def)
  ultimately show ?thesis using a b wr
    by (simp add: handleLinkChunkUpload_def x read_limited_def put_chunk_at_def split: prod.splits)
qed

text \<open>Uploads one after the other: time, index and bytes of each.\<close>

fun link_puts :: "deps \<Rightarrow> string \<Rightarrow> string \<Rightarrow> (int \<times> int \<times> bytes) list \<Rightarrow> state \<Rightarrow> http_reply list \<times> state" where
  "link_puts d i tok [] x = ([], x)"
| "link_puts d i tok ((now, k, b) # ups) x =
     (case handleLinkChunkUpload d now i (itoa k) tok \<lparr>hb_data = b, hb_err = None\<rparr> x of
        (r, y) \<Rightarrow> (case link_puts d i tok ups y of (rs, z) \<Rightarrow> (r # rs, z)))"

lemma link_puts_live:
  "live (d_meta d) x \<Longrightarrow> getMeta (fst x) i = Some m \<Longrightarrow> Mode m = ''link'' \<Longrightarrow> ManageToken m = tok \<Longrightarrow> tok \<noteq> [] \<Longrightarrow>
   list_all (\<lambda>(now, k, b). 0 \<le> k \<and> k < TotalChunks m \<and> length b \<le> maxLinkChunkBytes) ups \<Longrightarrow>
   link_puts d i tok ups x = (replicate (length ups) NoContent, model_store.put_all (d_meta d) i ups x)"
proof (induction ups arbitrary: x m)
  case Nil
  then show ?case by (simp add: model_store.put_all.simps)
next
  case (Cons u ups)
  obtain now k b where u: "u = (now, k, b)" by (metis prod_cases3)
  let ?y = "put_chunk_at (d_meta d) now i k b x"
  obtain m' where m': "getMeta (fst ?y) i = Some m'" "same_but_touch m m'"
    using model_store.put_parties [OF Cons.prems(1,2)] by blast
  note f = same_but_touch_fields [OF m'(2)]
  have "live (d_meta d) ?y" using Cons.prems(1) by (rule model_store.put_valid)
  from Cons.IH [OF this m'(1)] show ?case
    using handleLinkChunkUpload_live [OF Cons.prems(1-5), of k b now] Cons.prems(3-6) f
    by (simp add: u model_store.put_all.simps)
qed

lemma download_stored:
  assumes lv: "live (d_meta d) y" and m: "getMeta (fst y) i = Some m" "Mode m = ''link''"
    and k: "0 \<le> k" "k < TotalChunks m" and b: "chunk_of y i k = Some b"
  shows "fst (handleLinkChunkDownload d now i (itoa k) sent y) = DataReply b"
proof -
  obtain s w where y: "y = (s, w)" by fastforce
  have wf: "meta_wf i m" using m live_parts(1) [OF lv] store_inv_meta [of s i m] y by (simp add: state_inv_def getMeta_def)
  have "atoi (itoa k) = Some k" using wf k by (intro atoi_itoa) (simp add: meta_wf_def int64_range_def)
  moreover have "readChunk s i k w = (Inr b, w)" using live_received [OF lv [unfolded y] b [unfolded y]] by blast
  ultimately show ?thesis using m k by (simp add: handleLinkChunkDownload_def y split: prod.splits)
qed

subsection \<open>From start to burn\<close>

lemma gone_is_404:
  "getMeta (fst x) i = None \<Longrightarrow> fst (handleLinkChunkDownload d now i index sent x) = HttpError 404 ''no such transfer''"
  by (simp add: handleLinkChunkDownload_def)

text \<open>Once every index has been downloaded, the link is gone.\<close>

lemma served_all_gone:
  assumes lv: "live (d_meta d) z" and m: "getMeta (fst z) i = Some m" "Mode m = ''link''" "OneTime m"
    and all: "\<And>k. 0 \<le> k \<Longrightarrow> k < TotalChunks m \<Longrightarrow> chunk_of z i k \<noteq> None"
    and ks: "list_all (\<lambda>(now, k). 0 \<le> k \<and> k < TotalChunks m) ks" "{0..<TotalChunks m} \<subseteq> snd ` set ks"
  shows "getMeta (fst (serve_all d i ks z)) i = None"
proof -
  have s: "spec_of z i = Some (m, chunk_of z i, served_set (fst z) i)" using m(1) by (simp add: spec_of_def abs_state_def)
  have v: "served_set (fst z) i \<subseteq> {0..<TotalChunks m} \<and> served_set (fst z) i \<noteq> {0..<TotalChunks m}"
    using live_parts(1) [OF lv] m by (intro served_not_all) (auto simp: state_inv_def getMeta_def)
  show ?thesis using serve_all_spec [OF lv s m(2,3) all ks(1)] v ks(2) by blast
qed

text \<open>C9: (functional) The life of a one-time secret. A start request that is granted creates the link; with the manage
  token of the reply, uploads of at most 5 MiB, in any order and repeated, are all accepted; every chunk is then
  served to whoever has the id, as it was last uploaded; and after downloads of every index, in any order, the link
  answers \<open>404\<close> to everyone.\<close>

theorem secret_link_life:
  assumes "live (d_meta d) x" "deps_ok d" "d_start d (take 4096 (hb_data body)) = Some req" "0 < ls_TotalChunks req"
    "check_token d minTier ks (ls_Token req) (ls_SecretOnly req) now1 now2 = Inr tok" "48 \<le> length rnd"
    "getMeta (fst x) (rawurl_encode (take 16 rnd)) = None" "ls_OneTime req"
    "list_all (\<lambda>(now, k, b). 0 \<le> k \<and> k < ls_TotalChunks req \<and> length b \<le> 5 * 2 ^ 20) ups"
    "\<And>k. 0 \<le> k \<Longrightarrow> k < ls_TotalChunks req \<Longrightarrow> map_of (rev (map snd ups)) k \<noteq> None"
  shows "\<exists>i token y z. handleLinkStart d minTier ks now1 now2 now3 body rnd x = (StartReply i token, drop 48 rnd, y)
    \<and> link_puts d i token ups y = (replicate (length ups) NoContent, z)
    \<and> (\<forall>now k sent. 0 \<le> k \<and> k < ls_TotalChunks req \<longrightarrow>
         fst (handleLinkChunkDownload d now i (itoa k) sent z) = DataReply (the (map_of (rev (map snd ups)) k)))
    \<and> (\<forall>gets now index sent. list_all (\<lambda>(now, k). 0 \<le> k \<and> k < ls_TotalChunks req) gets
         \<and> {0..<ls_TotalChunks req} \<subseteq> snd ` set gets \<longrightarrow>
         fst (handleLinkChunkDownload d now i index sent (serve_all d i gets z)) = HttpError 404 ''no such transfer'')"
proof -
  let ?n = "ls_TotalChunks req" let ?last = "map_of (rev (map snd ups))"
  obtain i token y where st: "handleLinkStart d minTier ks now1 now2 now3 body rnd x = (StartReply i token, drop 48 rnd, y)"
    and y: "live (d_meta d) y" "length token = 43" "spec_of y i = Some (link_meta i token ?n True now3, Map.empty, {})"
    using link_start [OF assms(1-7), of now3] assms(8) by force
  let ?m = "link_meta i token ?n True now3"
  have m: "getMeta (fst y) i = Some ?m" using y(3) by (auto simp: spec_of_Some abs_state_def)
  have f: "Mode ?m = ''link''" "ManageToken ?m = token" "OneTime ?m" "TotalChunks ?m = ?n"
    by (simp_all add: link_meta_def)
  have tk: "token \<noteq> []" using y(2) by auto
  let ?z = "model_store.put_all (d_meta d) i ups y"
  have "list_all (\<lambda>(now, k, b). 0 \<le> k \<and> k < TotalChunks ?m \<and> length b \<le> maxLinkChunkBytes) ups"
    using assms(9) by (simp add: f maxLinkChunkBytes_def)
  note puts = link_puts_live [OF y(1) m f(1,2) tk this]
  have "list_all (\<lambda>(t, k, b). 0 \<le> k \<and> k < TotalChunks ?m) ups"
    using assms(9) by (auto simp: f list_all_iff)
  note z = model_store.put_all_chunks [OF y(1) m this, of i]
  obtain m' where m': "getMeta (fst ?z) i = Some m'" "same_but_touch ?m m'" using z by blast
  have f': "Mode m' = ''link''" "OneTime m'" "TotalChunks m' = ?n"
    using same_but_touch_fields [OF m'(2)] f by simp_all
  have ch: "chunk_of ?z i k = Some (the (?last k))" if "0 \<le> k" "k < ?n" for k
    using z [of k] assms(10) [OF that] by auto
  have lz: "live (d_meta d) ?z" using z by blast
  have "fst (handleLinkChunkDownload d now i (itoa k) sent ?z) = DataReply (the (?last k))"
    if "0 \<le> k" "k < ?n" for now k sent
    using download_stored [OF lz m'(1) f'(1) _ _ ch [OF that]] that f' by simp
  moreover have "fst (handleLinkChunkDownload d now i index sent (serve_all d i gets ?z)) = HttpError 404 ''no such transfer''"
    if "list_all (\<lambda>(now, k). 0 \<le> k \<and> k < ?n) gets" "{0..<?n} \<subseteq> snd ` set gets" for gets now index sent
    using served_all_gone [OF lz m'(1) f'(1,2), of gets] ch that f'(3) by (intro gone_is_404) simp
  ultimately show ?thesis using st puts by blast
qed

theorem secret_link_life_witness:
  "\<exists>i token y z. handleLinkStart sample_deps ''paid'' (newStaticKeySource sample_key) 10 11 12
     \<lparr>hb_data = bytes_of ''start'', hb_err = None\<rparr> (replicate 48 0) sample_state = (StartReply i token, [], y)
   \<and> link_puts sample_deps i token [(13, 0, [1]), (14, 0, [2])] y = ([NoContent, NoContent], z)
   \<and> fst (handleLinkChunkDownload sample_deps 15 i (itoa 0) True z) = DataReply [2]
   \<and> fst (handleLinkChunkDownload sample_deps 17 i (itoa 0) True (serve_all sample_deps i [(16, 0)] z))
       = HttpError 404 ''no such transfer''"
proof -
  let ?b = "\<lparr>hb_data = bytes_of ''start'', hb_err = None\<rparr>"
  have q: "d_start sample_deps (take 4096 (hb_data ?b)) = Some start_request"
    by (simp add: sample_deps_def start_request_def)
  have n: "0 < ls_TotalChunks start_request" "ls_OneTime start_request" by (simp_all add: start_request_def)
  have c: "check_token sample_deps ''paid'' (newStaticKeySource sample_key) (ls_Token start_request)
      (ls_SecretOnly start_request) 10 11 = Inr sample_token"
    by (simp add: check_token_iff current_def newStaticKeySource_def start_request_def tierRank_def plan_admits_def
        issued_token_valid)
  let ?ups = "[(13, 0, [1]), (14, 0, [2])] :: (int \<times> int \<times> bytes) list"
  have l: "live (d_meta sample_deps) sample_state" "48 \<le> length (replicate 48 (0 :: byte))"
    "getMeta (fst sample_state) (rawurl_encode (take 16 (replicate 48 0))) = None"
    by (simp_all add: sample_state_def)
  have "list_all (\<lambda>(now, k, b). 0 \<le> k \<and> k < ls_TotalChunks start_request \<and> length b \<le> 5 * 2 ^ 20) ?ups"
    by (simp add: start_request_def)
  moreover have "map_of (rev (map snd ?ups)) k \<noteq> None" if "0 \<le> k" "k < ls_TotalChunks start_request" for k
    using that by (simp add: start_request_def)
  ultimately obtain i token y z where
    r: "handleLinkStart sample_deps ''paid'' (newStaticKeySource sample_key) 10 11 12 ?b (replicate 48 0) sample_state
          = (StartReply i token, drop 48 (replicate 48 0), y)"
      "link_puts sample_deps i token ?ups y = (replicate (length ?ups) NoContent, z)"
      "\<And>now k sent. 0 \<le> k \<and> k < ls_TotalChunks start_request \<Longrightarrow>
         fst (handleLinkChunkDownload sample_deps now i (itoa k) sent z) = DataReply (the (map_of (rev (map snd ?ups)) k))"
      "\<And>gets now index sent. list_all (\<lambda>(now, k). 0 \<le> k \<and> k < ls_TotalChunks start_request) gets
         \<and> {0..<ls_TotalChunks start_request} \<subseteq> snd ` set gets \<Longrightarrow>
         fst (handleLinkChunkDownload sample_deps now i index sent (serve_all sample_deps i gets z))
           = HttpError 404 ''no such transfer''"
    using secret_link_life [OF l(1) sample_deps_ok q n(1) c l(2,3) n(2), of ?ups 12] by blast
  have "{0..<1 :: int} \<subseteq> {0}" by auto
  then have gone: "fst (handleLinkChunkDownload sample_deps 17 i (itoa 0) True (serve_all sample_deps i [(16, 0)] z))
      = HttpError 404 ''no such transfer''"
    using r(4) [of "[(16, 0)]" 17 "itoa 0" True] by (simp add: start_request_def)
  have "fst (handleLinkChunkDownload sample_deps 15 i (itoa 0) True z) = DataReply [2]"
    using r(3) [of 0 15 True] by (simp add: start_request_def)
  moreover have "link_puts sample_deps i token ?ups y = ([NoContent, NoContent], z)"
    using r(2) by (simp add: numeral_2_eq_2 del: link_puts.simps)
  ultimately show ?thesis using r(1) gone by (metis drop_replicate diff_self_eq_0 replicate_0)
qed

end
