(* ===== verification/Uploads.thy ===== *)
theory Uploads
  imports Concurrency
begin

text \<open>
  Any number of uploads at once.  A schedule says whose step comes next and what the clock shows; the
  uploads interleave at the points where \<open>writeChunk\<close> does not hold the lock.  As long as nothing is
  deleted, no upload disturbs the chunks of another: what the store has at the end is what it would
  have if they had run one after the other, although a rename may fail in between.
\<close>

subsection \<open>Schedules\<close>

fun run_sched :: "meta_codec \<Rightarrow> (nat \<times> int) list \<Rightarrow> wc_job list \<times> state \<Rightarrow> wc_job list \<times> state" where
  "run_sched c [] (jobs, x) = (jobs, x)"
| "run_sched c ((n, now) # sched) (jobs, x) =
     (if n < length jobs
      then (case wc_step c now (jobs ! n) x of (job, y) \<Rightarrow> run_sched c sched (jobs[n := job], y))
      else run_sched c sched (jobs, x))"

text \<open>The steps a job has left.\<close>

fun steps_left :: "wc_pc \<Rightarrow> nat" where
  "steps_left (PcFile m) = 4"
| "steps_left (PcCommit m) = 3"
| "steps_left (PcTmp m) = 2"
| "steps_left (PcRename m) = 1"
| "steps_left (PcDone r) = 0"

lemma wc_step_left:
  "wc_step c now job x = (job', y) \<Longrightarrow> steps_left (job_pc job') \<le> steps_left (job_pc job) - 1"
  by (cases x; cases "job_pc job")
     (auto simp: wc_step_def Let_def split: prod.splits sum.splits option.splits)

lemma wc_step_same_job:
  "wc_step c now job x = (job', y) \<Longrightarrow>
     job_id job' = job_id job \<and> job_index job' = job_index job \<and> job_data job' = job_data job"
  by (cases x; cases "job_pc job")
     (auto simp: wc_step_def Let_def split: prod.splits sum.splits option.splits)

lemma only_commit_changes_store:
  "(\<And>m. job_pc job \<noteq> PcCommit m) \<Longrightarrow> fst (snd (wc_step c now job x)) = fst x"
  by (cases x; cases "job_pc job") (auto simp: wc_step_def split: option.splits prod.splits sum.splits)

lemma run_sched_left:
  "run_sched c sched (jobs, x) = (jobs', x') \<Longrightarrow> n < length jobs \<Longrightarrow>
     length jobs' = length jobs
     \<and> steps_left (job_pc (jobs' ! n)) \<le> steps_left (job_pc (jobs ! n)) - count_list (map fst sched) n"
proof (induction c sched "(jobs, x)" arbitrary: jobs x rule: run_sched.induct)
  case (2 c k now sched jobs x)
  show ?case
  proof (cases "k < length jobs")
    case True
    obtain job y where st: "wc_step c now (jobs ! k) x = (job, y)" by (rule prod.exhaust)
    with 2(3) True have "run_sched c sched (jobs[k := job], y) = (jobs', x')" by simp
    from 2(1) [OF True st [symmetric] this] 2(4) wc_step_left [OF st] True
    show ?thesis by (cases "k = n") auto
  qed (use 2 in auto)
qed simp

subsection \<open>What a step needs and leaves\<close>

text \<open>The store has every transfer's directory, and only files in it.\<close>

definition dirs_ok :: "state \<Rightarrow> bool" where
  "dirs_ok x \<longleftrightarrow> (case x of (s, w) \<Rightarrow> state_inv (s, w)
     \<and> (\<forall>i m. mget (meta s) i = Some m \<longrightarrow> mget (w_fs w) (child (store_root s) i) = Some Dir
          \<and> (\<forall>n. mget (w_fs w) (child (child (store_root s) i) n) \<noteq> Some Dir)))"

lemma dirs_ok_live: "live c x \<Longrightarrow> dirs_ok x"
proof -
  obtain s w where x: "x = (s, w)" by fastforce
  assume "live c x"
  then have l: "state_inv (s, w)" "durable c (s, w)" "\<And>i. exact_at c (s, w) i"
    by (auto simp: live_def exact_def x)
  have "mget (w_fs w) (child (store_root s) i) = Some Dir
      \<and> (\<forall>n. mget (w_fs w) (child (child (store_root s) i) n) \<noteq> Some Dir)" if m: "mget (meta s) i = Some m" for i m
  proof -
    have "transferDir s i = child (store_root s) i" using l(1) m store_inv_transferDir by (simp add: state_inv_def)
    then show ?thesis using durableD(1) [OF l(2) m] exact_no_dirs(1) [OF l(1,3) m] by simp
  qed
  then show ?thesis using l(1) by (auto simp: dirs_ok_def x)
qed

lemma dirs_okD:
  assumes "dirs_ok (s, w)" "mget (meta s) i = Some m"
  shows "store_inv s" "disk_inv s w" "transferDir s i = child (store_root s) i"
    "mget (w_fs w) (child (store_root s) i) = Some Dir"
    "mget (w_fs w) (child (child (store_root s) i) n) \<noteq> Some Dir"
  using assms store_inv_transferDir by (auto simp: dirs_ok_def state_inv_def)

definition stored :: "wc_job \<Rightarrow> state \<Rightarrow> bool" where
  "stored job x \<longleftrightarrow> chunk_of x (job_id job) (job_index job) = Some (job_data job)"

text \<open>What a job knows at each point; \<open>nf\<close> says that the disk does not fail.\<close>

definition job_ok :: "bool \<Rightarrow> wc_job \<Rightarrow> state \<Rightarrow> bool" where
  "job_ok nf job x \<longleftrightarrow>
     (\<exists>m0. mget (meta (fst x)) (job_id job) = Some m0 \<and> 0 \<le> job_index job \<and> job_index job < TotalChunks m0
      \<and> (case job_pc job of
           PcFile m \<Rightarrow> same_but_touch m0 m
         | PcCommit m \<Rightarrow> same_but_touch m0 m
             \<and> chunk_data (fst x) (snd x) (job_id job) (job_index job) = Some (job_data job)
         | PcTmp m \<Rightarrow> same_but_touch m0 m \<and> stored job x
         | PcRename m \<Rightarrow> same_but_touch m0 m \<and> stored job x
         | PcDone r \<Rightarrow> is_ok r \<or> nf \<longrightarrow> stored job x))"

text \<open>What a job's step does to the rest: stamps change, the job's own chunk may be entered, and
  three files of its transfer.\<close>

definition advances :: "wc_job \<Rightarrow> state \<Rightarrow> state \<Rightarrow> bool" where
  "advances job x y \<longleftrightarrow> (case x of (s, w) \<Rightarrow> case y of (s', w') \<Rightarrow>
     dataDir s' = dataDir s \<and> (\<forall>i. rel_option same_but_touch (mget (meta s) i) (mget (meta s') i))
     \<and> (\<forall>j l. (j, l) \<noteq> (job_id job, job_index job) \<longrightarrow> (l \<in> received_set s' j \<longleftrightarrow> l \<in> received_set s j))
     \<and> (\<forall>q. (\<forall>n \<in> {''meta.json'', ''meta.json.tmp'', chunk_name (job_index job)}.
              q \<noteq> child (child (store_root s) (job_id job)) n) \<longrightarrow> mget (w_fs w') q = mget (w_fs w) q)
     \<and> (\<forall>q. mget (w_fs w) q \<noteq> Some Dir \<longrightarrow> mget (w_fs w') q \<noteq> Some Dir))"

lemma advances_refl [simp]: "advances job x x"
  by (cases x) (simp add: advances_def option.rel_refl)

lemma same_but_touch_stamp: "same_but_touch m0 m \<Longrightarrow> m\<lparr>TouchedAt := t\<rparr> = m0\<lparr>TouchedAt := t\<rparr>"
  by (cases m0; cases m) (auto simp: same_but_touch_def)

lemma stored_frame:
  assumes "stored job (s, w)"
    "mget (w_fs w') (chunk_path (transferDir s (job_id job)) (job_index job))
       = mget (w_fs w) (chunk_path (transferDir s (job_id job)) (job_index job))"
  shows "stored job (s, w')"
  using assms(1) file_at_cong [OF assms(2)] by (auto simp: stored_def chunk_of_def chunk_data_def split: if_splits)

lemma stored_pc [simp]: "stored (job\<lparr>job_pc := pc\<rparr>) x = stored job x"
  by (simp add: stored_def)

text \<open>A step keeps what it needs for the next, in the job itself and in the store.\<close>

lemma wc_step_ok:
  assumes ok: "dirs_ok (s, w)" "job_ok nf job (s, w)" and nf: "nf \<Longrightarrow> w_faults w = []"
    and step: "wc_step c now job (s, w) = (job', (s', w'))"
  shows "advances job (s, w) (s', w') \<and> keys_distinct (w_fs w') \<and> store_inv s' \<and> job_ok nf job' (s', w')
    \<and> (nf \<longrightarrow> w_faults w' = [])"
proof -
  let ?i = "job_id job" and ?k = "job_index job" and ?b = "job_data job"
  obtain m0 where m0: "mget (meta s) ?i = Some m0" and k: "0 \<le> ?k" "?k < TotalChunks m0"
    using ok(2) by (auto simp: job_ok_def)
  note d = dirs_okD [OF ok(1) m0]
  let ?d = "child (store_root s) ?i"
  have kd: "keys_distinct (w_fs w)" using d(2) by (simp add: disk_inv_def)
  have i: "same_but_touch m0 m \<Longrightarrow> TransferID m = ?i" for m
    using store_inv_meta [OF d(1) m0] same_but_touch_fields by (fastforce simp: meta_wf_def)
  have wr: "advances job (s, w) (s, w1) \<and> keys_distinct (w_fs w1) \<and> (nf \<longrightarrow> w_faults w1 = [] \<and> r = Inr ())"
    if "WriteFile (child ?d n) b w = (r, w1)" "n \<in> {''meta.json'', ''meta.json.tmp'', chunk_name ?k}" for n b r w1
  proof -
    have "advances job (s, w) (s, w1)"
      using that WriteFile_frame [of _ "child ?d n" b w] WriteFile_effect [of "child ?d n", where d = b and w = w] d(5) [of n]
      by (auto simp: advances_def option.rel_refl split: sum.splits) (metis option.distinct(1) option.inject node.distinct(1))+
    moreover have "nf \<longrightarrow> w_faults w1 = [] \<and> r = Inr ()"
      using that(1) nf no_faults(1) [of w "child ?d n" b] WriteFile_ok [of w "child ?d n" b] d(4,5) by (auto simp: fs_get_def)
    ultimately show ?thesis using that(1) WriteFile_distinct [OF kd, of "child ?d n" b] by simp
  qed
  let ?p = "chunk_path (transferDir s ?i) ?k"
  have p: "?p = child ?d (chunk_name ?k)" by (simp add: d(3) path_simps)
  show ?thesis
  proof (cases "job_pc job")
    case (PcFile m)
    then have m: "same_but_touch m0 m" using ok(2) m0 by (simp add: job_ok_def)
    obtain r w1 where w1: "WriteFile ?p ?b w = (r, w1)" by (rule prod.exhaust)
    have w1': "WriteFile (child ?d (chunk_name ?k)) ?b w = (r, w1)" using w1 p by simp
    have "r = Inr () \<Longrightarrow> chunk_data s w1 ?i ?k = Some ?b"
      using WriteFile_written [of "child ?d (chunk_name ?k)" ?b w w1] w1'
      by (simp add: chunk_data_def p file_at_def)
    then show ?thesis using step PcFile w1 wr [OF w1'] m m0 k d(1)
      by (cases r) (auto simp: wc_step_def job_ok_def)
  next
    case (PcCommit m)
    then have m: "same_but_touch m0 m" and data: "chunk_data s w ?i ?k = Some ?b"
      using ok(2) m0 by (simp_all add: job_ok_def)
    let ?s = "writeChunk_commit m0 ?i ?k now s"
    have "writeChunk_commit m ?i ?k now s = ?s"
      using same_but_touch_stamp [OF m] by (simp add: writeChunk_commit_def)
    then have s': "s' = ?s" "w' = w" "job' = job\<lparr>job_pc := PcTmp (m\<lparr>TouchedAt := now\<rparr>)\<rparr>"
      using step PcCommit by (simp_all add: wc_step_def)
    have fs: "dataDir ?s = dataDir s" "mget (meta ?s) ?i = Some (m0\<lparr>TouchedAt := now\<rparr>)" "?k \<in> received_set ?s ?i"
      by (simp_all add: writeChunk_commit_def Let_def received_set_def)
    have "advances job (s, w) (?s, w)"
      by (auto simp: advances_def writeChunk_commit_def Let_def received_set_def m0 same_but_touch_id option.rel_refl
          split: option.splits)
    moreover have "chunk_data ?s w ?i ?k = Some ?b"
      using data transferDir_cong [OF fs(1)] by (simp add: chunk_data_def)
    ultimately show ?thesis
      using fs writeChunk_commit_inv [OF d(1) m0 k] kd nf m k
      by (simp add: s' job_ok_def stored_def chunk_of_def same_but_touch_stamp [OF m])
  next
    case (PcTmp m)
    then have m: "same_but_touch m0 m" and st: "stored job (s, w)" using ok(2) m0 by (simp_all add: job_ok_def)
    show ?thesis
    proof (cases "enc_meta c m")
      case None
      then show ?thesis using step PcTmp st m0 k d(1) kd nf by (auto simp: wc_step_def job_ok_def)
    next
      case (Some raw)
      obtain r w1 where w1: "WriteFile (child ?d ''meta.json.tmp'') raw w = (r, w1)" by (rule prod.exhaust)
      have "stored job (s, w1)"
        using WriteFile_frame [of ?p "child ?d ''meta.json.tmp''" raw w] w1 by (intro stored_frame [OF st]) (simp add: p)
      then show ?thesis using step PcTmp Some w1 wr [OF w1] m m0 k d(1,3)
        by (cases r) (auto simp: wc_step_def job_ok_def i [OF m] path_simps)
    qed
  next
    case (PcRename m)
    then have m: "same_but_touch m0 m" and st: "stored job (s, w)" using ok(2) m0 by (simp_all add: job_ok_def)
    let ?old = "child ?d ''meta.json.tmp''" and ?new = "child ?d ''meta.json''"
    have nd: "fs_get (w_fs w) ?old \<noteq> Some Dir" using d(5) by (simp add: fs_get_def)
    obtain r w1 where w1: "Rename ?old ?new w = (r, w1)" by (rule prod.exhaust)
    have fr: "q \<noteq> ?old \<Longrightarrow> q \<noteq> ?new \<Longrightarrow> mget (w_fs w1) q = mget (w_fs w) q" for q
      using Rename_frame [OF nd, of q ?new] by (simp add: w1)
    have "mget (w_fs w1) q \<noteq> Some Dir" if "mget (w_fs w) q \<noteq> Some Dir" for q
      using w1 nd that
      by (auto simp: Rename_def Let_def split: prod.splits option.splits node.splits if_splits dest: next_fault_fs)
    then have "advances job (s, w) (s, w1)" using fr by (auto simp: advances_def option.rel_refl)
    moreover have "stored job (s, w1)" using fr [of ?p] by (intro stored_frame [OF st]) (simp add: p)
    moreover have "keys_distinct (w_fs w1)" using Rename_distinct [OF kd nd, of ?new] by (simp add: w1)
    moreover have "nf \<longrightarrow> w_faults w1 = []" using no_faults(2) [of w ?old ?new] nf by (auto simp: w1)
    ultimately show ?thesis using step PcRename w1 m0 k d(1,3)
      by (auto simp: wc_step_def job_ok_def i [OF m] path_simps)
  next
    case (PcDone r)
    then show ?thesis using step ok(2) d(1) kd nf by (auto simp: wc_step_def)
  qed
qed

subsection \<open>Jobs side by side\<close>

definition job_key :: "wc_job \<Rightarrow> string \<times> int" where
  "job_key job = (job_id job, job_index job)"

text \<open>What is the same after a run, but for the chunks \<open>keys\<close>.\<close>

definition undisturbed :: "(string \<times> int) set \<Rightarrow> state \<Rightarrow> state \<Rightarrow> bool" where
  "undisturbed keys x y \<longleftrightarrow> dataDir (fst y) = dataDir (fst x)
     \<and> (\<forall>i. rel_option same_but_touch (getMeta (fst x) i) (getMeta (fst y) i))
     \<and> (\<forall>j l. (j, l) \<notin> keys \<longrightarrow> chunk_of y j l = chunk_of x j l)"

lemma undisturbed_refl [simp]: "undisturbed keys x x"
  by (simp add: undisturbed_def option.rel_refl)

lemma undisturbed_trans: "undisturbed keys x y \<Longrightarrow> undisturbed keys y z \<Longrightarrow> undisturbed keys x z"
proof -
  assume a: "undisturbed keys x y" "undisturbed keys y z"
  have "rel_option same_but_touch (getMeta (fst x) i) (getMeta (fst z) i)" for i
  proof -
    have "rel_option same_but_touch (getMeta (fst x) i) (getMeta (fst y) i)"
      "rel_option same_but_touch (getMeta (fst y) i) (getMeta (fst z) i)"
      using a by (simp_all add: undisturbed_def)
    then show ?thesis using same_but_touch_trans by (auto simp: option_rel_Some1 option_rel_Some2 elim!: option.rel_cases)
  qed
  then show ?thesis using a by (simp add: undisturbed_def)
qed

lemma same_but_touch_shift: "same_but_touch a b \<Longrightarrow> same_but_touch a d \<Longrightarrow> same_but_touch b d"
  by (cases a; cases b; cases d) (auto simp: same_but_touch_def)

lemma chunk_in_range:
  assumes "store_inv s" "mget (meta s) i = Some m" "0 \<le> k" "k < TotalChunks m"
  shows "int64_range k"
  using store_inv_meta [OF assms(1,2)] assms(3,4) by (auto simp: meta_wf_def int64_range_def)

lemma received_in_range:
  assumes "store_inv s" "k \<in> received_set s i"
  shows "\<exists>m. mget (meta s) i = Some m \<and> int64_range k"
proof -
  obtain xs where xs: "mget (received s) i = Some xs" "k \<in> set xs"
    using assms(2) by (auto simp: received_set_def split: option.splits)
  then obtain m where "mget (meta s) i = Some m" "received_wf m xs"
    using over_metaD [OF store_inv_over(1) [OF assms(1)]] by blast
  then show ?thesis using xs(2) chunk_in_range [OF assms(1), of i m k] by (auto simp: received_wf_def)
qed

text \<open>Another chunk's file is none of the three a step may touch.\<close>

lemma advances_chunk_data:
  assumes ok: "dirs_ok (s, w)" and adv: "advances a (s, w) (s', w')" and ne: "(j, l) \<noteq> job_key a"
    and a: "int64_range (job_index a)" "mget (meta s) (job_id a) = Some ma"
    and j: "int64_range l" "mget (meta s) j = Some m"
  shows "chunk_data s' w' j l = chunk_data s w j l"
proof -
  have d: "dataDir s' = dataDir s" using adv by (simp add: advances_def)
  note t = dirs_okD(3) [OF ok j(2)]
  have "child (child (store_root s) j) (chunk_name l) \<noteq> child (child (store_root s) (job_id a)) n"
    if "n \<in> {''meta.json'', ''meta.json.tmp'', chunk_name (job_index a)}" for n
    using that ne chunk_name_inject [OF j(1) a(1)] by (auto simp: job_key_def)
  then have "mget (w_fs w') (chunk_path (transferDir s j) l) = mget (w_fs w) (chunk_path (transferDir s j) l)"
    using adv by (simp add: advances_def t path_simps)
  then show ?thesis unfolding chunk_data_def transferDir_cong [OF d] by (rule file_at_cong)
qed

lemma advances_received:
  "advances a (s, w) (s', w') \<Longrightarrow> (j, l) \<noteq> job_key a \<Longrightarrow> l \<in> received_set s' j \<longleftrightarrow> l \<in> received_set s j"
  unfolding advances_def job_key_def by (simp del: Product_Type.prod.inject)

lemma advances_undisturbed:
  assumes ok: "dirs_ok (s, w)" and adv: "advances a (s, w) (s', w')"
    and a: "int64_range (job_index a)" "mget (meta s) (job_id a) = Some ma" and key: "job_key a \<in> keys"
  shows "undisturbed keys (s, w) (s', w')"
proof -
  have "chunk_of (s', w') j l = chunk_of (s, w) j l" if "(j, l) \<notin> keys" for j l
  proof -
    have ne: "(j, l) \<noteq> job_key a" using that key by metis
    show ?thesis
    proof (cases "l \<in> received_set s j")
      case True
      have si: "store_inv s" using ok by (simp add: dirs_ok_def state_inv_def)
      obtain m where "mget (meta s) j = Some m" "int64_range l" using received_in_range [OF si True] by blast
      then have "chunk_data s' w' j l = chunk_data s w j l"
        using advances_chunk_data [OF ok adv ne a] by blast
      then show ?thesis using advances_received [OF adv ne] by (simp add: chunk_of_def)
    qed (use advances_received [OF adv ne] in \<open>simp add: chunk_of_def\<close>)
  qed
  then show ?thesis using adv by (simp add: undisturbed_def advances_def getMeta_def)
qed

lemma advances_dirs_ok:
  assumes ok: "dirs_ok (s, w)" and adv: "advances a (s, w) (s', w')"
    and inv: "store_inv s'" "keys_distinct (w_fs w')"
  shows "dirs_ok (s', w')"
proof -
  have d: "dataDir s' = dataDir s" and rel: "\<And>i. rel_option same_but_touch (mget (meta s) i) (mget (meta s') i)"
    and fr: "\<And>q. (\<And>n. q \<noteq> child (child (store_root s) (job_id a)) n) \<Longrightarrow> mget (w_fs w') q = mget (w_fs w) q"
    and nd: "\<And>q. mget (w_fs w) q \<noteq> Some Dir \<Longrightarrow> mget (w_fs w') q \<noteq> Some Dir"
    using adv by (simp_all add: advances_def)
  have out: "same_outside (child (store_root s) (job_id a)) w w'"
    unfolding same_outside_def by (metis below_child fr)
  have "disk_inv s w" using ok by (simp add: dirs_ok_def state_inv_def)
  then have "disk_inv s w'" by (rule disk_inv_same [OF _ out inv(2)])
  then have "state_inv (s', w')" using inv(1) by (simp add: state_inv_def disk_inv_def d)
  moreover have "mget (w_fs w') (child (store_root s) i) = Some Dir
      \<and> (\<forall>n. mget (w_fs w') (child (child (store_root s) i) n) \<noteq> Some Dir)" if m': "mget (meta s') i = Some m'" for i m'
  proof -
    obtain m where m: "mget (meta s) i = Some m" using rel [of i] m' by (auto simp: option_rel_Some2)
    have "child (store_root s) i \<noteq> child (child (store_root s) (job_id a)) n" for n
      by (metis below_child child_inject not_below_child_self)
    then show ?thesis using dirs_okD(4,5) [OF ok m] fr nd by metis
  qed
  ultimately show ?thesis by (auto simp: dirs_ok_def d)
qed

lemma job_ok_other:
  assumes ok: "dirs_ok (s, w)" and adv: "advances a (s, w) (s', w')" and ne: "job_key b \<noteq> job_key a"
    and a: "int64_range (job_index a)" "mget (meta s) (job_id a) = Some ma" and b: "job_ok nf b (s, w)"
  shows "job_ok nf b (s', w')"
proof -
  obtain m0 where m0: "mget (meta s) (job_id b) = Some m0" and k: "0 \<le> job_index b" "job_index b < TotalChunks m0"
    using b by (auto simp: job_ok_def)
  obtain m1 where m1: "mget (meta s') (job_id b) = Some m1" "same_but_touch m0 m1"
  proof -
    have "rel_option same_but_touch (mget (meta s) (job_id b)) (mget (meta s') (job_id b))"
      using adv by (simp add: advances_def)
    then show ?thesis using that m0 by (auto simp: option_rel_Some1)
  qed
  have ne': "(job_id b, job_index b) \<noteq> job_key a" using ne by (simp add: job_key_def)
  have si: "store_inv s" using ok by (simp add: dirs_ok_def state_inv_def)
  have data: "chunk_data s' w' (job_id b) (job_index b) = chunk_data s w (job_id b) (job_index b)"
    by (rule advances_chunk_data [OF ok adv ne' a chunk_in_range [OF si m0 k] m0])
  have "stored b (s', w') = stored b (s, w)"
    using advances_received [OF adv ne'] data by (simp add: stored_def chunk_of_def)
  then show ?thesis
    using b m0 m1 data k same_but_touch_fields [OF m1(2)] same_but_touch_shift [OF m1(2)]
    by (auto simp: job_ok_def split: wc_pc.splits)
qed

subsection \<open>Whole schedules\<close>

definition jobs_ok :: "bool \<Rightarrow> wc_job list \<Rightarrow> state \<Rightarrow> bool" where
  "jobs_ok nf jobs x \<longleftrightarrow> dirs_ok x \<and> (nf \<longrightarrow> w_faults (snd x) = []) \<and> distinct (map job_key jobs)
     \<and> (\<forall>n < length jobs. job_ok nf (jobs ! n) x)"

lemma sched_step:
  assumes ok: "jobs_ok nf jobs x" and n: "n < length jobs" and st: "wc_step c now (jobs ! n) x = (job, y)"
  shows "jobs_ok nf (jobs[n := job]) y \<and> undisturbed (set (map job_key jobs)) x y
    \<and> map job_key (jobs[n := job]) = map job_key jobs"
proof -
  obtain s w s' w' where x: "x = (s, w)" and y: "y = (s', w')" by (metis prod.exhaust)
  let ?a = "jobs ! n"
  have d: "dirs_ok (s, w)" and a: "job_ok nf ?a (s, w)" and dist: "distinct (map job_key jobs)"
    using ok n by (simp_all add: jobs_ok_def x)
  have s: "advances ?a (s, w) (s', w')" "keys_distinct (w_fs w')" "store_inv s'" "job_ok nf job (s', w')"
    "nf \<longrightarrow> w_faults w' = []"
    using wc_step_ok [OF d a _ st [unfolded x y]] ok by (simp_all add: jobs_ok_def x)
  obtain ma where ma: "mget (meta s) (job_id ?a) = Some ma" "0 \<le> job_index ?a" "job_index ?a < TotalChunks ma"
    using a by (auto simp: job_ok_def)
  have r: "int64_range (job_index ?a)"
    using chunk_in_range [OF _ ma] d by (simp add: dirs_ok_def state_inv_def)
  have keys: "map job_key (jobs[n := job]) = map job_key jobs"
    using wc_step_same_job [OF st] n by (simp add: map_update job_key_def list_update_same_conv)
  have "job_ok nf (jobs[n := job] ! k) (s', w')" if k: "k < length jobs" for k
  proof (cases "k = n")
    case False
    then have "job_key (jobs ! k) \<noteq> job_key ?a" using dist n k by (auto simp: distinct_conv_nth)
    from job_ok_other [OF d s(1) this r ma(1)] show ?thesis using ok k False by (simp add: jobs_ok_def x)
  qed (use s(4) n in simp)
  moreover have "dirs_ok (s', w')" by (rule advances_dirs_ok [OF d s(1,3,2)])
  moreover have "undisturbed (set (map job_key jobs)) (s, w) (s', w')"
    using n by (intro advances_undisturbed [OF d s(1) r ma(1)]) auto
  ultimately show ?thesis using keys dist s(5) by (simp add: jobs_ok_def x y)
qed

lemma run_sched_ok:
  "run_sched c sched (jobs, x) = (jobs', y) \<Longrightarrow> jobs_ok nf jobs x \<Longrightarrow>
     jobs_ok nf jobs' y \<and> undisturbed (set (map job_key jobs)) x y \<and> map job_key jobs' = map job_key jobs"
proof (induction c sched "(jobs, x)" arbitrary: jobs x rule: run_sched.induct)
  case (2 c k now sched jobs x)
  show ?case
  proof (cases "k < length jobs")
    case True
    obtain job z where st: "wc_step c now (jobs ! k) x = (job, z)" by (rule prod.exhaust)
    with 2(3) True have run: "run_sched c sched (jobs[k := job], z) = (jobs', y)" by simp
    have s: "jobs_ok nf (jobs[k := job]) z" "undisturbed (set (map job_key jobs)) x z"
      "map job_key (jobs[k := job]) = map job_key jobs"
      using sched_step [OF 2(4) True st] by simp_all
    have "set (map job_key (jobs[k := job])) = set (map job_key jobs)" by (simp only: s(3))
    then show ?thesis using 2(1) [OF True st [symmetric] run s(1)] s undisturbed_trans by metis
  qed (use 2 in auto)
qed simp

text \<open>A batch of uploads \<open>((id, index), data)\<close>, all begun on the store \<open>s\<close>.\<close>

definition begin_uploads :: "((string \<times> int) \<times> bytes) list \<Rightarrow> store \<Rightarrow> wc_job list" where
  "begin_uploads reqs s = map (\<lambda>((i, k), d). wc_begin i k d s) reqs"

lemma begin_uploads_keys: "map job_key (begin_uploads reqs s) = map fst reqs"
  by (auto simp: begin_uploads_def job_key_def wc_begin_def)

lemma length_begin_uploads [simp]: "length (begin_uploads reqs s) = length reqs"
  by (simp add: begin_uploads_def)

lemma begin_uploads_ok:
  assumes "dirs_ok (s, w)" "nf \<Longrightarrow> w_faults w = []" "distinct (map fst reqs)"
    "\<forall>((i, k), d) \<in> set reqs. \<exists>m. getMeta s i = Some m \<and> 0 \<le> k \<and> k < TotalChunks m"
  shows "jobs_ok nf (begin_uploads reqs s) (s, w)"
proof -
  have "job_ok nf (begin_uploads reqs s ! n) (s, w)" if "n < length reqs" for n
  proof -
    obtain i k d where r: "reqs ! n = ((i, k), d)" by (metis prod.exhaust)
    moreover have "reqs ! n \<in> set reqs" using that by simp
    ultimately obtain m where "mget (meta s) i = Some m" "0 \<le> k" "k < TotalChunks m"
      using assms(4) by (fastforce simp: getMeta_def)
    then show ?thesis using that r by (simp add: begin_uploads_def wc_begin_def job_ok_def)
  qed
  then show ?thesis using assms(1-3) by (simp add: jobs_ok_def begin_uploads_keys)
qed

text \<open>A run of a batch: what holds at its end, and which jobs are done.\<close>

lemma uploads_run:
  assumes "live c (s, w)" "nf \<Longrightarrow> fs = []" "distinct (map fst reqs)"
    "\<forall>((i, k), d) \<in> set reqs. \<exists>m. getMeta s i = Some m \<and> 0 \<le> k \<and> k < TotalChunks m"
    "run_sched c sched (begin_uploads reqs s, (s, w\<lparr>w_faults := fs\<rparr>)) = (jobs, y)"
  shows "jobs_ok nf jobs y" "undisturbed (set (map fst reqs)) (s, w\<lparr>w_faults := fs\<rparr>) y"
    "map job_key jobs = map fst reqs" "length jobs = length reqs"
proof -
  have "dirs_ok (s, w)" by (rule dirs_ok_live [OF assms(1)])
  then have "dirs_ok (s, w\<lparr>w_faults := fs\<rparr>)" by (simp add: dirs_ok_def state_inv_def disk_inv_def)
  then have "jobs_ok nf (begin_uploads reqs s) (s, w\<lparr>w_faults := fs\<rparr>)"
    using assms(2) by (intro begin_uploads_ok [OF _ _ assms(3,4)]) simp_all
  note r = run_sched_ok [OF assms(5) this]
  show "jobs_ok nf jobs y" "undisturbed (set (map fst reqs)) (s, w\<lparr>w_faults := fs\<rparr>) y" "map job_key jobs = map fst reqs"
    using r unfolding begin_uploads_keys by blast+
  then show "length jobs = length reqs" using map_eq_imp_length_eq by blast
qed

lemma uploads_finish:
  assumes "run_sched c sched (begin_uploads reqs s, x) = (jobs, y)" "n < length reqs"
    "4 \<le> count_list (map fst sched) n"
  shows "\<exists>r. job_pc (jobs ! n) = PcDone r"
proof -
  have "steps_left pc \<le> 4" for pc by (cases pc) simp_all
  from this [of "job_pc (begin_uploads reqs s ! n)"] have "steps_left (job_pc (jobs ! n)) = 0"
    using run_sched_left [OF assms(1), of n] assms(2,3) by simp
  then show ?thesis by (cases "job_pc (jobs ! n)") simp_all
qed

lemma run_sched_data:
  "run_sched c sched (jobs, x) = (jobs', y) \<Longrightarrow> map job_data jobs' = map job_data jobs"
proof (induction c sched "(jobs, x)" arbitrary: jobs x rule: run_sched.induct)
  case (2 c k now sched jobs x)
  show ?case
  proof (cases "k < length jobs")
    case True
    obtain job z where st: "wc_step c now (jobs ! k) x = (job, z)" by (rule prod.exhaust)
    with 2(3) True have run: "run_sched c sched (jobs[k := job], z) = (jobs', y)" by simp
    have "map job_data (jobs[k := job]) = map job_data jobs"
      using wc_step_same_job [OF st] True by (simp add: map_update list_update_same_conv)
    then show ?thesis using 2(1) [OF True st [symmetric] run] by simp
  qed (use 2 in auto)
qed simp

lemma uploads_stored:
  assumes ok: "jobs_ok nf jobs y" and keys: "map job_key jobs = map fst reqs"
    and data: "map job_data jobs = map snd reqs" and n: "n < length reqs" "reqs ! n = ((i, k), d)"
    and pc: "job_pc (jobs ! n) = PcDone r" "is_ok r \<or> nf"
  shows "chunk_of y i k = Some d"
proof -
  have len: "length jobs = length reqs" using keys map_eq_imp_length_eq by blast
  have "job_key (jobs ! n) = (i, k)" "job_data (jobs ! n) = d"
    using arg_cong [OF keys, of "\<lambda>xs. xs ! n"] arg_cong [OF data, of "\<lambda>xs. xs ! n"] n len by simp_all
  moreover have "job_ok nf (jobs ! n) y" using ok n(1) len by (simp add: jobs_ok_def)
  ultimately show ?thesis using pc by (auto simp: job_ok_def stored_def job_key_def)
qed

lemma begin_uploads_data: "map job_data (begin_uploads reqs s) = map snd reqs"
  by (auto simp: begin_uploads_def wc_begin_def)

end
