(* ===== verification/RaceProps.thy ===== *)
theory RaceProps
  imports Uploads DispatchProps
begin

text \<open>
  The properties of uploads that overlap: one alone is \<open>writeChunk\<close>; any number of them lose
  nothing; and two schedules where the mutex, which \<open>writeChunk\<close> lets go of while it works on the
  disk, does not help.
\<close>

text \<open>The four steps of an upload, run without interruption, are \<open>writeChunk\<close>: same result, same
  store, same disk, whatever the state and the faults of the disk.\<close>

theorem upload_steps_sequential:
  "case wc_steps c now 4 (wc_begin i k data s) (s, w) of (job, x) \<Rightarrow>
     (case writeChunk c i k data now s w of (r, y) \<Rightarrow> job_pc job = PcDone r \<and> x = y)"
proof -
  obtain job x where a: "wc_steps c now 4 (wc_begin i k data s) (s, w) = (job, x)" by (rule prod.exhaust)
  obtain r s' w' where b: "writeChunk c i k data now s w = (r, s', w')" by (metis prod_cases3)
  show ?thesis using wc_sequential [OF a b] unfolding a b by simp
qed


text \<open>Two chunks of a transfer of two, the second of which is uploaded faster.\<close>

definition two_chunks :: state where
  "two_chunks = store_step sample_codec (\<lambda>ks. ks) (OpCreate ''t'' ''u'' ''v'' 2 False 5) sample_state"

lemma two_chunks_live [simp]: "live sample_codec two_chunks"
  unfolding two_chunks_def by (rule live_step) (simp_all add: int64_range_def)

lemma two_chunks_meta [simp]: "getMeta (fst two_chunks) ''t'' = Some (direct_meta ''t'' ''u'' ''v'' 2 False 5)"
proof -
  have "spec_of two_chunks = [''t'' \<mapsto> (direct_meta ''t'' ''u'' ''v'' 2 False 5, Map.empty, {})]"
    using run_spec [of sample_codec sample_state "\<lambda>ks. ks" "[OpCreate ''t'' ''u'' ''v'' 2 False 5]"]
    by (simp add: two_chunks_def int64_range_def spec_update_def spec_count_def)
  from fun_cong [OF this, of "''t''"] show ?thesis by (auto simp: spec_of_Some abs_state_def)
qed

definition two_reqs :: "((string \<times> int) \<times> bytes) list" where
  "two_reqs = [((''t'', 0), [1, 2]), ((''t'', 1), [3])]"

definition two_sched :: "(nat \<times> int) list" where
  "two_sched = [(0, 6), (1, 7), (1, 8), (0, 9), (1, 10), (0, 11), (1, 12), (0, 13)]"


text \<open>C36: (safety) Acknowledged means stored. However uploads of different chunks interleave and whatever the disk does to
  them, a chunk whose upload has succeeded is stored with its data, nobody's other chunk is lost, and the store's
  invariant holds at every point.\<close>

theorem acknowledged_uploads_stored:
  assumes "live c (s, w)" "distinct (map fst reqs)"
    "\<forall>((i, k), d) \<in> set reqs. \<exists>m. getMeta s i = Some m \<and> 0 \<le> k \<and> k < TotalChunks m"
    "run_sched c sched (begin_uploads reqs s, (s, w\<lparr>w_faults := faults\<rparr>)) = (jobs, y)"
  shows "state_inv y
    \<and> (\<forall>n < length reqs. job_pc (jobs ! n) = PcDone (Inr ()) \<longrightarrow>
         (case reqs ! n of ((i, k), d) \<Rightarrow> chunk_of y i k = Some d))
    \<and> (\<forall>i k. (i, k) \<notin> set (map fst reqs) \<longrightarrow> chunk_of y i k = chunk_of (s, w) i k)"
proof -
  note r = uploads_run [OF assms(1) _ assms(2-4), of False]
  have keys: "map job_key jobs = map fst reqs" and ok: "jobs_ok False jobs y"
    and und: "undisturbed (set (map fst reqs)) (s, w\<lparr>w_faults := faults\<rparr>) y" using r by simp_all
  have data: "map job_data jobs = map snd reqs"
    using run_sched_data [OF assms(4)] by (simp add: begin_uploads_data)
  have "case reqs ! n of ((i, k), d) \<Rightarrow> chunk_of y i k = Some d"
    if "n < length reqs" "job_pc (jobs ! n) = PcDone (Inr ())" for n
    using uploads_stored [OF ok keys data that(1) _ that(2)] by (auto split: prod.split)
  moreover have "state_inv y" using ok by (cases y) (simp add: jobs_ok_def dirs_ok_def)
  moreover have "chunk_of y i k = chunk_of (s, w) i k" if "(i, k) \<notin> set (map fst reqs)" for i k
    using und that by (simp add: undisturbed_def chunk_of_def chunk_data_def file_at_def)
  ultimately show ?thesis by blast
qed

text \<open>The second upload's file cannot be written; the first upload is not concerned.\<close>

theorem acknowledged_uploads_stored_witness:
  "\<exists>jobs y. run_sched sample_codec two_sched (begin_uploads two_reqs (fst two_chunks),
      (fst two_chunks, (snd two_chunks)\<lparr>w_faults := [NoFault, FailNow]\<rparr>)) = (jobs, y)
    \<and> job_pc (jobs ! 0) = PcDone (Inr ()) \<and> chunk_of y ''t'' 0 = Some [1, 2]"
proof -
  have v: "job_pc (fst (run_sched sample_codec two_sched (begin_uploads two_reqs (fst two_chunks),
      (fst two_chunks, (snd two_chunks)\<lparr>w_faults := [NoFault, FailNow]\<rparr>))) ! 0) = PcDone (Inr ())"
    by code_simp
  obtain jobs y where run: "run_sched sample_codec two_sched (begin_uploads two_reqs (fst two_chunks),
      (fst two_chunks, (snd two_chunks)\<lparr>w_faults := [NoFault, FailNow]\<rparr>)) = (jobs, y)"
    by (rule prod.exhaust)
  have pc: "job_pc (jobs ! 0) = PcDone (Inr ())" using v by (simp add: run)
  have "live sample_codec (fst two_chunks, snd two_chunks)" by simp
  from acknowledged_uploads_stored [OF this _ _ run] run pc show ?thesis
    by (auto simp: two_reqs_def direct_meta_def)
qed

subsection \<open>Uploads up to the temporary file\<close>

definition ready :: "string \<Rightarrow> transferMeta \<Rightarrow> state \<Rightarrow> bool" where
  "ready i m x \<longleftrightarrow> (case x of (s, w) \<Rightarrow> state_inv (s, w) \<and> w_faults w = [] \<and> mget (meta s) i = Some m
     \<and> mget (w_fs w) (child (store_root s) i) = Some Dir
     \<and> (\<forall>n. mget (w_fs w) (child (child (store_root s) i) n) \<noteq> Some Dir))"

lemma ready_live:
  assumes lv: "live c (s, w)" and m: "getMeta s i = Some m"
  shows "ready i m (s, w)"
proof -
  have l: "state_inv (s, w)" "durable c (s, w)" "w_faults w = []" "exact_at c (s, w) i"
    using lv by (auto simp: live_def exact_def)
  have m': "mget (meta s) i = Some m" using m by (simp add: getMeta_def)
  have d: "transferDir s i = child (store_root s) i" using l(1) m' store_inv_transferDir by (simp add: state_inv_def)
  show ?thesis
    using l m' durableD(1) [OF l(2) m'] exact_no_dirs(1) [OF l(1,4) m'] by (simp add: ready_def d)
qed

lemma ready_upload:
  assumes rd: "ready i m (s, w)" and k: "0 \<le> k" "k < TotalChunks m"
  shows "\<exists>w1. wc_steps c now 2 (wc_begin i k data s) (s, w)
      = (\<lparr>job_id = i, job_index = k, job_data = data, job_pc = PcTmp (m\<lparr>TouchedAt := now\<rparr>)\<rparr>,
         (writeChunk_commit m i k now s, w1))
    \<and> ready i (m\<lparr>TouchedAt := now\<rparr>) (writeChunk_commit m i k now s, w1)"
proof -
  let ?d = "child (store_root s) i"
  let ?p = "child ?d (chunk_name k)"
  let ?w = "w\<lparr>w_fs := mput ?p (File data) (w_fs w)\<rparr>"
  have r: "state_inv (s, w)" "w_faults w = []" "mget (meta s) i = Some m" "mget (w_fs w) ?d = Some Dir"
    "\<And>n. mget (w_fs w) (child ?d n) \<noteq> Some Dir"
    using rd by (simp_all add: ready_def)
  have si: "store_inv s" "disk_inv s w" using r(1) by (simp_all add: state_inv_def)
  have d: "transferDir s i = ?d" using si(1) r(3) by (rule store_inv_transferDir)
  have wr: "WriteFile ?p data w = (Inr (), ?w)" using r(2,4,5) by (intro WriteFile_ok) (simp_all add: fs_get_def)
  let ?s = "writeChunk_commit m i k now s"
  have dd: "dataDir ?s = dataDir s" by (simp add: writeChunk_commit_def Let_def)
  have "store_inv ?s" by (rule writeChunk_commit_inv [OF si(1) r(3) k])
  moreover have "same_outside ?d w ?w" by (auto simp: same_outside_def)
  then have "disk_inv s ?w" by (rule disk_inv_same [OF si(2)]) (use si(2) in \<open>simp add: disk_inv_def\<close>)
  then have "disk_inv ?s ?w" by (simp add: disk_inv_def dd)
  ultimately have "ready i (m\<lparr>TouchedAt := now\<rparr>) (?s, ?w)"
    using r by (simp add: ready_def state_inv_def dd writeChunk_commit_def Let_def)
  moreover have "wc_steps c now 2 (wc_begin i k data s) (s, w)
      = (\<lparr>job_id = i, job_index = k, job_data = data, job_pc = PcTmp (m\<lparr>TouchedAt := now\<rparr>)\<rparr>, (?s, ?w))"
    using r(3) k wr by (simp add: eval_nat_numeral wc_begin_def wc_step_def d chunk_path_child)
  ultimately show ?thesis by blast
qed

text \<open>A lost deletion. An upload that has written its chunk's file when the transfer is deleted puts the
  transfer's record back: the deletion succeeds and the transfer is gone, the upload then fails, but the record is in
  memory again with no file or directory on the disk.\<close>

theorem delete_race_resurrects:
  assumes lv: "live c (s, w)" and m: "getMeta s i = Some m" "0 \<le> k" "k < TotalChunks m"
  shows "\<exists>job s1 w1 s2 w2 job' s3 w3 e. wc_step c now (wc_begin i k data s) (s, w) = (job, (s1, w1))
    \<and> deleteTransfer i s1 w1 = (Inr (), s2, w2) \<and> getMeta s2 i = None
    \<and> wc_steps c now 3 job (s2, w2) = (job', (s3, w3)) \<and> job_pc job' = PcDone (Inl e)
    \<and> getMeta s3 i = Some (m\<lparr>TouchedAt := now\<rparr>)
    \<and> (\<forall>q. below (transferDir s i) q \<longrightarrow> mget (w_fs w3) q = None)"
proof -
  have rd: "state_inv (s, w)" "w_faults w = []" "mget (meta s) i = Some m"
    "mget (w_fs w) (child (store_root s) i) = Some Dir"
    "\<And>n. mget (w_fs w) (child (child (store_root s) i) n) \<noteq> Some Dir"
    using ready_live [OF lv m(1)] by (simp_all add: ready_def)
  have d: "transferDir s i = child (store_root s) i" using rd(1,3) store_inv_transferDir by (simp add: state_inv_def)
  obtain w1 where "WriteFile (chunk_path (transferDir s i) k) data w = (Inr (), w1)"
    using WriteFile_ok [of w "child (child (store_root s) i) (chunk_name k)" data] rd(2,4,5)
    by (auto simp: d chunk_path_child fs_get_def)
  then obtain job where j: "wc_step c now (wc_begin i k data s) (s, w) = (job, (s, w1))" "job_pc job = PcCommit m"
    using rd(3) m(2,3) by (simp add: wc_begin_def wc_step_def)
  obtain r s2 w2 where del: "deleteTransfer i s w1 = (r, s2, w2)" by (metis prod_cases3)
  from delete_race [OF rd(1,3) m(2,3) rd(2) j del] j(1) del show ?thesis by blast
qed

theorem delete_race_resurrects_witness:
  "\<exists>job s1 w1 s2 w2 job' x. wc_step sample_codec 8 (wc_begin ''t'' 0 [1] (fst one_chunk)) one_chunk = (job, (s1, w1))
    \<and> deleteTransfer ''t'' s1 w1 = (Inr (), s2, w2) \<and> getMeta s2 ''t'' = None
    \<and> wc_steps sample_codec 8 3 job (s2, w2) = (job', x) \<and> getMeta (fst x) ''t'' \<noteq> None"
proof -
  obtain s w where x: "one_chunk = (s, w)" by fastforce
  have "live sample_codec (s, w)" "getMeta s ''t'' = Some (direct_meta ''t'' ''u'' ''v'' 1 False 5)"
    using one_chunk_live one_chunk_meta unfolding x by simp_all
  from delete_race_resurrects [OF this, of 0 8 "[1]"] show ?thesis
    unfolding x by (fastforce simp: direct_meta_def)
qed

text \<open>The schedule of the second race: both uploads write their chunk and commit it, both write the
  temporary file of the metadata, then both rename it.\<close>

definition upload_race :: "meta_codec \<Rightarrow> int \<Rightarrow> string \<Rightarrow> int \<Rightarrow> bytes \<Rightarrow> int \<Rightarrow> bytes \<Rightarrow> state \<Rightarrow> wc_pc \<times> wc_pc \<times> state" where
  "upload_race c now i k1 data1 k2 data2 x =
     (let (a, x1) = wc_steps c now 2 (wc_begin i k1 data1 (fst x)) x;
          (b, x2) = wc_steps c now 2 (wc_begin i k2 data2 (fst x1)) x1;
          (a1, x3) = wc_step c now a x2; (b1, x4) = wc_step c now b x3;
          (a2, x5) = wc_step c now a1 x4; (b2, x6) = wc_step c now b1 x5
      in (job_pc a2, job_pc b2, x6))"

lemma tmp_next: "job_pc job = PcTmp m \<Longrightarrow> job_pc (fst (wc_step c now job x)) \<noteq> PcCommit m'"
  by (cases x) (auto simp: wc_step_def split: option.splits prod.splits sum.splits)

lemma ready_tmp_race:
  assumes r: "ready i m (s, w)" and id: "TransferID m = i" and enc: "codec_total c"
    and pc: "job_pc a = PcTmp m" "job_pc b = PcTmp m"
    and st: "wc_step c now a (s, w) = (a1, x3)" "wc_step c now b x3 = (b1, x4)" "wc_step c now a1 x4 = (a2, x5)"
      "wc_step c now b1 x5 = (b2, x6)"
  shows "job_pc a2 = PcDone (Inr ()) \<and> job_pc b2 = PcDone (Inl (PathError ''rename'' (tmp_path (transferDir s i)) ENOENT))
    \<and> fst x6 = s"
proof -
  have rd: "state_inv (s, w)" "w_faults w = []" "mget (meta s) i = Some m" "mget (w_fs w) (child (store_root s) i) = Some Dir"
    "\<And>n. mget (w_fs w) (child (child (store_root s) i) n) \<noteq> Some Dir"
    using r unfolding ready_def prod.case by blast+
  have d: "transferDir s i = child (store_root s) i"
    using rd(1,3) store_inv_transferDir [of s] by (simp add: state_inv_def)
  have dir: "mget (w_fs w) (transferDir s i) = Some Dir" "fs_get (w_fs w) (tmp_path (transferDir s i)) \<noteq> Some Dir"
    "fs_get (w_fs w) (meta_path (transferDir s i)) \<noteq> Some Dir"
    using rd(4,5) by (simp_all add: d path_simps fs_get_def)
  obtain raw where raw: "enc_meta c m = Some raw" using enc by (auto simp: codec_total_def)
  have "job_pc a1 \<noteq> PcCommit m'" "job_pc b1 \<noteq> PcCommit m'" for m'
    using tmp_next [OF pc(1), of c now "(s, w)" m'] tmp_next [OF pc(2), of c now x3 m'] st(1,2) by simp_all
  then have "fst x6 = s"
    using only_commit_changes_store [of a c now "(s, w)"] only_commit_changes_store [of b c now x3]
      only_commit_changes_store [of a1 c now x4] only_commit_changes_store [of b1 c now x5] st pc by simp
  then show ?thesis using tmp_race [OF rd(1-3) dir pc id id raw raw st] by simp
qed



end
