(* ===== verification/Threads.thy ===== *)
theory Threads
  imports Uploads
begin

text \<open>
  Every operation of the store that changes it, as a thread of steps other goroutines can come between,
  with the mutex: \<open>createTransfer\<close>, \<open>createLinkTransfer\<close> and \<open>touchLinkTransfer\<close> hold it from start to
  end, \<open>writeChunk\<close>, \<open>deleteTransfer\<close>, \<open>markLinkChunkServed\<close> and \<open>sweep\<close> let it go before they work on
  the disk.  The lemmas say that a thread that is not interrupted is its operation, what a step of one
  thread leaves alone whatever the others do, and that under a fair schedule all threads finish.
\<close>

subsection \<open>Threads\<close>

text \<open>
  \<open>MakeDir\<close> to \<open>Enter\<close> are the points of the two creations, \<open>TouchTmp\<close> and \<open>TouchMeta\<close> those of
  \<open>touchLinkTransfer\<close>; \<open>Forget\<close> is before the locked part of \<open>deleteTransfer\<close> for the first of the ids,
  \<open>Purge\<close> before its \<open>RemoveAll\<close>.
\<close>

datatype thread =
    Start store_op
  | Upload wc_job int
  | MakeDir transferMeta
  | MakeTmp transferMeta
  | MakeMeta transferMeta
  | Enter transferMeta
  | TouchTmp transferMeta
  | TouchMeta transferMeta
  | Forget "string list"
  | Purge string "string list"
  | Finished

definition forget_next :: "string list \<Rightarrow> thread" where
  "forget_next ids = (if ids = [] then Finished else Forget ids)"

text \<open>From the call to the end of its first critical section, or to its first work on the disk.\<close>

fun begin_op :: "(string list \<Rightarrow> string list) \<Rightarrow> store_op \<Rightarrow> store \<Rightarrow> thread \<times> store" where
  "begin_op iter (OpCreate i u r n share now) s =
     (if mget (meta s) i \<noteq> None \<or> \<not> validTransferID i \<or> senderCount s u \<ge> maxTransfersPerSender
      then (Finished, s) else (MakeDir (direct_meta i u r n share now), s))"
| "begin_op iter (OpCreateLink i token n once now) s =
     (if mget (meta s) i \<noteq> None \<or> \<not> validTransferID i
      then (Finished, s) else (MakeDir (link_meta i token n once now), s))"
| "begin_op iter (OpTouch i now) s =
     (case mget (meta s) i of
        None \<Rightarrow> (Finished, s)
      | Some m \<Rightarrow> (TouchTmp (m\<lparr>TouchedAt := now\<rparr>), s\<lparr>meta := mput i (m\<lparr>TouchedAt := now\<rparr>) (meta s)\<rparr>))"
| "begin_op iter (OpWriteChunk i index data now) s = (Upload (wc_begin i index data s) now, s)"
| "begin_op iter (OpDelete i) s = (Purge i [], forget i s)"
| "begin_op iter (OpMarkServed i index) s =
     (case mark_served i index s of (burn, s1) \<Rightarrow> (if burn then Forget [i] else Finished, s1))"
| "begin_op iter (OpSweep now) s = (forget_next (expired_ids iter now s), s)"

text \<open>The two halves of \<open>writeMeta\<close>.\<close>

definition write_tmp :: "meta_codec \<Rightarrow> store \<Rightarrow> transferMeta \<Rightarrow> world \<Rightarrow> unit res \<times> world" where
  "write_tmp c s m w =
     (case enc_meta c m of
        None \<Rightarrow> (Inl (Err ''json: error calling MarshalJSON''), w)
      | Some raw \<Rightarrow> WriteFile (tmp_path (transferDir s (TransferID m))) raw w)"

definition rename_meta :: "store \<Rightarrow> transferMeta \<Rightarrow> world \<Rightarrow> unit res \<times> world" where
  "rename_meta s m w =
     Rename (tmp_path (transferDir s (TransferID m))) (meta_path (transferDir s (TransferID m))) w"

definition go_on :: "thread \<Rightarrow> store \<Rightarrow> unit res \<times> world \<Rightarrow> thread \<times> state" where
  "go_on t s rw = (case rw of (r, w) \<Rightarrow> (if is_ok r then t else Finished, (s, w)))"

fun thread_step :: "meta_codec \<Rightarrow> (string list \<Rightarrow> string list) \<Rightarrow> thread \<Rightarrow> state \<Rightarrow> thread \<times> state" where
  "thread_step c iter (Start op) (s, w) = (case begin_op iter op s of (t, s1) \<Rightarrow> (t, (s1, w)))"
| "thread_step c iter (Upload job now) x = (case wc_step c now job x of (job1, y) \<Rightarrow> (Upload job1 now, y))"
| "thread_step c iter (MakeDir m) (s, w) = go_on (MakeTmp m) s (MkdirAll (transferDir s (TransferID m)) w)"
| "thread_step c iter (MakeTmp m) (s, w) = go_on (MakeMeta m) s (write_tmp c s m w)"
| "thread_step c iter (MakeMeta m) (s, w) = go_on (Enter m) s (rename_meta s m w)"
| "thread_step c iter (Enter m) (s, w) =
     (Finished, (s\<lparr>meta := mput (TransferID m) m (meta s), received := mput (TransferID m) [] (received s)\<rparr>, w))"
| "thread_step c iter (TouchTmp m) (s, w) = go_on (TouchMeta m) s (write_tmp c s m w)"
| "thread_step c iter (TouchMeta m) (s, w) = go_on Finished s (rename_meta s m w)"
| "thread_step c iter (Forget ids) (s, w) =
     (case ids of [] \<Rightarrow> (Finished, (s, w)) | i # rest \<Rightarrow> (Purge i rest, (forget i s, w)))"
| "thread_step c iter (Purge i rest) (s, w) = (forget_next rest, (s, snd (RemoveAll (transferDir s i) w)))"
| "thread_step c iter Finished x = (Finished, x)"

fun finished :: "thread \<Rightarrow> bool" where
  "finished Finished = True"
| "finished (Upload job now) = (case job_pc job of PcDone r \<Rightarrow> True | _ \<Rightarrow> False)"
| "finished t = False"

subsection \<open>The mutex\<close>

text \<open>Who holds it between steps, and who has to get it (or have it) for the next one.\<close>

fun holds_lock :: "thread \<Rightarrow> bool" where
  "holds_lock (MakeDir m) = True"
| "holds_lock (MakeTmp m) = True"
| "holds_lock (MakeMeta m) = True"
| "holds_lock (Enter m) = True"
| "holds_lock (TouchTmp m) = True"
| "holds_lock (TouchMeta m) = True"
| "holds_lock t = False"

fun needs_lock :: "thread \<Rightarrow> bool" where
  "needs_lock (Start op) = True"
| "needs_lock (Upload job now) = (case job_pc job of PcCommit m \<Rightarrow> True | _ \<Rightarrow> False)"
| "needs_lock (Forget ids) = True"
| "needs_lock t = holds_lock t"

definition may_run :: "thread list \<Rightarrow> nat \<Rightarrow> bool" where
  "may_run ts n \<longleftrightarrow> n < length ts
     \<and> (needs_lock (ts ! n) \<longrightarrow> (\<forall>k \<in> set [0..<length ts]. k \<noteq> n \<longrightarrow> \<not> holds_lock (ts ! k)))"

text \<open>A schedule names the thread whose turn it is; one that waits for the mutex lets its turn pass.\<close>

fun run_threads :: "meta_codec \<Rightarrow> (string list \<Rightarrow> string list) \<Rightarrow> nat list \<Rightarrow> thread list \<times> state
     \<Rightarrow> thread list \<times> state" where
  "run_threads c iter [] (ts, x) = (ts, x)"
| "run_threads c iter (n # sched) (ts, x) =
     (if may_run ts n
      then (case thread_step c iter (ts ! n) x of (t, y) \<Rightarrow> run_threads c iter sched (ts[n := t], y))
      else run_threads c iter sched (ts, x))"

lemma run_threads_append:
  "run_threads c iter (xs @ ys) z = run_threads c iter ys (run_threads c iter xs z)"
proof (induction xs arbitrary: z)
  case (Cons n xs)
  obtain ts x where z: "z = (ts, x)" by (rule prod.exhaust)
  show ?case using Cons.IH by (simp add: z split: prod.split)
next
  case Nil
  then show ?case by (cases z) simp
qed

subsection \<open>A thread alone\<close>

fun thread_steps :: "meta_codec \<Rightarrow> (string list \<Rightarrow> string list) \<Rightarrow> nat \<Rightarrow> thread \<Rightarrow> state \<Rightarrow> thread \<times> state" where
  "thread_steps c iter 0 t x = (t, x)"
| "thread_steps c iter (Suc n) t x = (case thread_step c iter t x of (t1, y) \<Rightarrow> thread_steps c iter n t1 y)"

lemma thread_steps_add:
  "thread_steps c iter (k + n) t x = (case thread_steps c iter k t x of (t1, y) \<Rightarrow> thread_steps c iter n t1 y)"
  by (induction k arbitrary: t x) (simp_all split: prod.split)

lemma thread_steps_Finished [simp]: "thread_steps c iter n Finished x = (Finished, x)"
  by (induction n) simp_all

lemma thread_steps_Upload:
  "thread_steps c iter n (Upload job now) x
     = (case wc_steps c now n job x of (job1, y) \<Rightarrow> (Upload job1 now, y))"
  by (induction n arbitrary: job x) (simp_all split: prod.split)

lemma writeMeta_halves:
  "writeMeta c s m w = (case write_tmp c s m w of (Inl e, w1) \<Rightarrow> (Inl e, w1) | (Inr _, w1) \<Rightarrow> rename_meta s m w1)"
  by (simp add: writeMeta_def write_tmp_def rename_meta_def Let_def split: option.split sum.split prod.split)

lemma install_alone:
  "\<exists>t. thread_steps c iter 4 (MakeDir m) (s, w) = (t, snd (install_transfer c m s w)) \<and> finished t"
proof -
  obtain r1 w1 where 1: "MkdirAll (transferDir s (TransferID m)) w = (r1, w1)" by (rule prod.exhaust)
  obtain r2 w2 where 2: "write_tmp c s m w1 = (r2, w2)" by (rule prod.exhaust)
  obtain r3 w3 where 3: "rename_meta s m w2 = (r3, w3)" by (rule prod.exhaust)
  show ?thesis
    by (cases r1; cases r2; cases r3)
       (simp_all add: 1 2 3 eval_nat_numeral install_transfer_def writeMeta_halves go_on_def)
qed

lemma touch_alone:
  "\<exists>t. thread_steps c iter 2 (TouchTmp m) (s, w) = (t, (s, snd (writeMeta c s m w))) \<and> finished t"
proof -
  obtain r2 w2 where 2: "write_tmp c s m w = (r2, w2)" by (rule prod.exhaust)
  obtain r3 w3 where 3: "rename_meta s m w2 = (r3, w3)" by (rule prod.exhaust)
  show ?thesis
    by (cases r2; cases r3) (simp_all add: 2 3 eval_nat_numeral writeMeta_halves go_on_def)
qed

lemma forget_dir [simp]: "transferDir (forget i s) j = transferDir s j"
  by (simp add: transferDir_def forget_def)

lemma purge_alone: "thread_steps c iter 1 (Purge i []) (forget i s, w) = (Finished, snd (deleteTransfer i s w))"
  by (simp add: forget_next_def deleteTransfer_def split: prod.split)

lemma forget_alone:
  "thread_steps c iter (2 * length ids) (forget_next ids) (s, w) = (Finished, delete_all ids s w)"
proof (induction ids arbitrary: s w)
  case (Cons i ids)
  obtain r w1 where rm: "RemoveAll (transferDir s i) w = (r, w1)" by (rule prod.exhaust)
  show ?case using Cons.IH [of "forget i s" w1]
    by (simp add: forget_next_def [of "i # ids"] deleteTransfer_def rm)
qed (simp add: forget_next_def)

text \<open>Uninterrupted, every thread is its operation.\<close>

lemma thread_alone:
  "\<exists>n t. thread_steps c iter n (Start op) x = (t, store_step c iter op x) \<and> finished t"
proof -
  obtain s w where x: "x = (s, w)" by (rule prod.exhaust)
  have one: "thread_steps c iter (Suc n) (Start op) (s, w)
      = (case begin_op iter op s of (t, s1) \<Rightarrow> thread_steps c iter n t (s1, w))" for n
    by (simp split: prod.split)
  have stop: "\<exists>n t. thread_steps c iter n (Start op) x = (t, y) \<and> finished t"
    if "begin_op iter op s = (u, s1)" "\<exists>t. thread_steps c iter n u (s1, w) = (t, y) \<and> finished t" for u s1 n y
    using that one [of n] by (intro exI [of _ "Suc n"]) (auto simp: x simp del: thread_steps.simps)
  note fin = stop [where n = 0 and u = Finished]
  show ?thesis
  proof (cases op)
    case (OpCreate i u r n share now)
    show ?thesis
    proof (cases "mget (meta s) i \<noteq> None \<or> \<not> validTransferID i \<or> senderCount s u \<ge> maxTransfersPerSender")
      case True
      then show ?thesis by (intro fin) (auto simp: OpCreate x createTransfer_def)
    next
      case False
      then show ?thesis using install_alone [of c iter "direct_meta i u r n share now" s w]
        by (intro stop [where n = 4]) (auto simp: OpCreate x createTransfer_def)
    qed
  next
    case (OpCreateLink i token n once now)
    show ?thesis
    proof (cases "mget (meta s) i \<noteq> None \<or> \<not> validTransferID i")
      case True
      then show ?thesis by (intro fin) (auto simp: OpCreateLink x createLinkTransfer_def)
    next
      case False
      then show ?thesis using install_alone [of c iter "link_meta i token n once now" s w]
        by (intro stop [where n = 4]) (auto simp: OpCreateLink x createLinkTransfer_def)
    qed
  next
    case (OpTouch i now)
    show ?thesis
    proof (cases "mget (meta s) i")
      case None
      then show ?thesis by (intro fin) (auto simp: OpTouch x touchLinkTransfer_def)
    next
      case (Some m)
      then show ?thesis using touch_alone [of c iter "m\<lparr>TouchedAt := now\<rparr>"]
        by (intro stop [where n = 2]) (auto simp: OpTouch x touchLinkTransfer_def Let_def)
    qed
  next
    case (OpWriteChunk i k d now)
    obtain job y where a: "wc_steps c now 4 (wc_begin i k d s) (s, w) = (job, y)" by (rule prod.exhaust)
    obtain r s' w' where b: "writeChunk c i k d now s w = (r, s', w')" by (metis prod_cases3)
    show ?thesis using wc_sequential [OF a b] a b
      by (intro stop [where n = 4]) (auto simp: OpWriteChunk x thread_steps_Upload)
  next
    case (OpDelete i)
    show ?thesis using purge_alone [of c iter i s w]
      by (intro stop [where n = 1]) (auto simp: OpDelete x)
  next
    case (OpMarkServed i k)
    obtain burn s1 where m: "mark_served i k s = (burn, s1)" by (rule prod.exhaust)
    show ?thesis
    proof (cases burn)
      case True
      then show ?thesis using forget_alone [of c iter "[i]" s1 w] m
        by (intro stop [where n = 2])
           (auto simp: OpMarkServed x markLinkChunkServed_def forget_next_def simp del: thread_steps.simps split: prod.splits)
    next
      case False
      then show ?thesis using m by (intro fin) (auto simp: OpMarkServed x markLinkChunkServed_def)
    qed
  next
    case (OpSweep now)
    show ?thesis using forget_alone [of c iter "expired_ids iter now s" s w]
      by (intro stop [where n = "2 * length (expired_ids iter now s)"]) (auto simp: OpSweep x sweep_def)
  qed
qed

subsection \<open>What a step may touch\<close>

text \<open>A change of the disk in the directory of transfer \<open>i\<close>, where no subdirectory appears.\<close>

definition disk_step :: "string \<Rightarrow> store \<Rightarrow> world \<Rightarrow> world \<Rightarrow> bool" where
  "disk_step i s w w' \<longleftrightarrow> same_outside (child (store_root s) i) w w' \<and> keys_distinct (w_fs w')
     \<and> (\<forall>j n. mget (w_fs w) (child (child (store_root s) j) n) \<noteq> Some Dir
           \<longrightarrow> mget (w_fs w') (child (child (store_root s) j) n) \<noteq> Some Dir)"

lemma disk_step_refl: "keys_distinct (w_fs w) \<Longrightarrow> disk_step i s w w"
  by (simp add: disk_step_def)

lemma WriteFile_disk_step:
  assumes "keys_distinct (w_fs w)" "WriteFile (child (child (store_root s) i) n) d w = (r, w')"
  shows "disk_step i s w w'"
proof -
  have "mget (w_fs w') q \<noteq> Some Dir" if "mget (w_fs w) q \<noteq> Some Dir" for q
    using assms(2) that
    by (auto simp: WriteFile_def Let_def split: prod.splits option.splits fault.splits if_splits dest!: next_fault_fs)
  then show ?thesis
    using assms WriteFile_outside [of "child (store_root s) i" "child (child (store_root s) i) n" w d]
      WriteFile_distinct [of w "child (child (store_root s) i) n" d]
    by (simp add: disk_step_def)
qed

lemma Rename_disk_step:
  assumes "keys_distinct (w_fs w)" "mget (w_fs w) (child (child (store_root s) i) n) \<noteq> Some Dir"
    "Rename (child (child (store_root s) i) n) (child (child (store_root s) i) k) w = (r, w')"
  shows "disk_step i s w w'"
proof -
  let ?d = "child (store_root s) i"
  have nd: "fs_get (w_fs w) (child ?d n) \<noteq> Some Dir" using assms(2) by (simp add: fs_get_def)
  have "below ?d (child ?d n)" "below ?d (child ?d k)" by simp_all
  then have "same_outside ?d w w'"
    unfolding same_outside_def using Rename_frame [OF nd, of _ "child ?d k"] assms(3) by (metis snd_conv)
  moreover have "mget (w_fs w') q \<noteq> Some Dir" if "mget (w_fs w) q \<noteq> Some Dir" for q
    using assms(3) nd that
    by (auto simp: Rename_def Let_def split: prod.splits option.splits node.splits if_splits dest!: next_fault_fs)
  ultimately show ?thesis using Rename_distinct [OF assms(1) nd, of "child ?d k"] assms(3)
    by (simp add: disk_step_def)
qed

lemma MkdirAll_disk_step:
  assumes "disk_inv s w" "MkdirAll (child (store_root s) i) w = (r, w')"
  shows "disk_step i s w w'"
proof -
  let ?d = "child (store_root s) i"
  have "child (child (store_root s) j) n \<notin> set (prefixes_of ?d)" for j n
  proof
    assume "child (child (store_root s) j) n \<in> set (prefixes_of ?d)"
    then have "below (child (child (store_root s) j) n) ?d" by (rule prefixes_of_below)
    then show False by (auto simp: below_def dest: prefix_length_le)
  qed
  then have "mget (w_fs w') (child (child (store_root s) j) n) = mget (w_fs w) (child (child (store_root s) j) n)" for j n
    using assms(2)
    by (auto simp: MkdirAll_def Let_def fold_mput_Dir split: prod.splits fault.splits if_splits
        dest!: next_fault_fs in_set_takeD)
  then show ?thesis
    using MkdirAll_outside [OF assms(1), of i] MkdirAll_distinct [of w ?d] assms by (simp add: disk_step_def disk_inv_def)
qed

lemma RemoveAll_disk_step:
  assumes "keys_distinct (w_fs w)" "RemoveAll (child (store_root s) i) w = (r, w')"
  shows "disk_step i s w w'"
proof -
  let ?d = "child (store_root s) i"
  have "same_outside ?d w w'"
    unfolding same_outside_def using RemoveAll_frame assms(2) by (metis snd_conv)
  moreover have "mget (w_fs w') q \<noteq> Some Dir" if "mget (w_fs w) q \<noteq> Some Dir" for q
    using RemoveAll_shrinks [of ?d w q] that assms(2) by auto
  ultimately show ?thesis using RemoveAll_distinct [OF assms(1), of ?d] assms(2) by (simp add: disk_step_def)
qed

text \<open>What holds of the store whatever runs at once: deletions and uploads of one transfer may cross.\<close>

definition tidy :: "state \<Rightarrow> bool" where
  "tidy x \<longleftrightarrow> (case x of (s, w) \<Rightarrow> dataDir s \<noteq> [] \<and> keys_distinct (meta s) \<and> keys_distinct (received s)
     \<and> keys_distinct (served s) \<and> (\<forall>i m. mget (meta s) i = Some m \<longrightarrow> meta_wf i m) \<and> disk_inv s w
     \<and> (\<forall>i n. mget (w_fs w) (child (child (store_root s) i) n) \<noteq> Some Dir))"

definition confined :: "string set \<Rightarrow> state \<Rightarrow> state \<Rightarrow> bool" where
  "confined ids x y \<longleftrightarrow> (case x of (s, w) \<Rightarrow> case y of (s', w') \<Rightarrow> same_config s s'
     \<and> (\<forall>j. j \<notin> ids \<longrightarrow> same_transfer j s s')
     \<and> (\<forall>q. (\<forall>i \<in> ids. validTransferID i \<longrightarrow> \<not> below (child (store_root s) i) q)
           \<longrightarrow> mget (w_fs w') q = mget (w_fs w) q))"

lemma confined_refl [simp]: "confined ids x x"
  by (cases x) (simp add: confined_def same_config_def same_transfer_def)

lemma confined_trans: "confined ids x y \<Longrightarrow> confined ids y z \<Longrightarrow> confined ids x z"
  by (cases x; cases y; cases z) (simp add: confined_def same_config_def same_transfer_def)

lemma confined_mono: "confined ids x y \<Longrightarrow> ids \<subseteq> ids' \<Longrightarrow> confined ids' x y"
  unfolding confined_def by (cases x; cases y) (simp, blast)

lemma tidy_disk:
  assumes "tidy (s, w)" "disk_step i s w w'" "validTransferID i"
  shows "tidy (s, w') \<and> confined {i} (s, w) (s, w')"
  using assms disk_inv_same [of s w i w']
  by (auto simp: tidy_def disk_step_def confined_def same_config_def same_transfer_def same_outside_def)

lemma tidyD:
  assumes "tidy (s, w)"
  shows "dataDir s \<noteq> []" "mget (meta s) i = Some m \<Longrightarrow> meta_wf i m" "disk_inv s w" "keys_distinct (w_fs w)"
    "mget (w_fs w) (child (child (store_root s) i) n) \<noteq> Some Dir"
    "validTransferID i \<Longrightarrow> transferDir s i = child (store_root s) i"
  using assms by (auto simp: tidy_def disk_inv_def transferDir_child)

text \<open>The transfers a thread is about, and what it knows.  A sweep may be about any.\<close>

fun thread_ids :: "thread \<Rightarrow> string set" where
  "thread_ids (Start op) = (case op_id op of None \<Rightarrow> UNIV | Some i \<Rightarrow> {i})"
| "thread_ids (Upload job now) = {job_id job}"
| "thread_ids (MakeDir m) = {TransferID m}"
| "thread_ids (MakeTmp m) = {TransferID m}"
| "thread_ids (MakeMeta m) = {TransferID m}"
| "thread_ids (Enter m) = {TransferID m}"
| "thread_ids (TouchTmp m) = {TransferID m}"
| "thread_ids (TouchMeta m) = {TransferID m}"
| "thread_ids (Forget ids) = set ids"
| "thread_ids (Purge i rest) = insert i (set rest)"
| "thread_ids Finished = {}"

text \<open>The part of \<open>store_guard\<close> that does not look at the store; a caller that deletes a transfer has
  found it before, so its id is well formed.\<close>

fun op_wf :: "store_op \<Rightarrow> bool" where
  "op_wf (OpCreate i u r n share now) = (u \<noteq> [] \<and> r \<noteq> [] \<and> 0 < n \<and> int64_range n)"
| "op_wf (OpCreateLink i token n once now) = (0 < n \<and> int64_range n)"
| "op_wf (OpDelete i) = validTransferID i"
| "op_wf op = True"

definition record_wf :: "transferMeta \<Rightarrow> bool" where
  "record_wf m \<longleftrightarrow> meta_wf (TransferID m) m"

fun job_wf :: "wc_job \<Rightarrow> bool" where
  "job_wf job =
     (case job_pc job of
        PcFile m \<Rightarrow> meta_wf (job_id job) m
      | PcCommit m \<Rightarrow> meta_wf (job_id job) m
      | PcTmp m \<Rightarrow> meta_wf (job_id job) m
      | PcRename m \<Rightarrow> meta_wf (job_id job) m
      | PcDone r \<Rightarrow> True)"

fun thread_wf :: "thread \<Rightarrow> bool" where
  "thread_wf (Start op) = op_wf op"
| "thread_wf (Upload job now) = job_wf job"
| "thread_wf (MakeDir m) = record_wf m"
| "thread_wf (MakeTmp m) = record_wf m"
| "thread_wf (MakeMeta m) = record_wf m"
| "thread_wf (Enter m) = record_wf m"
| "thread_wf (TouchTmp m) = record_wf m"
| "thread_wf (TouchMeta m) = record_wf m"
| "thread_wf (Forget ids) = list_all validTransferID ids"
| "thread_wf (Purge i rest) = (validTransferID i \<and> list_all validTransferID rest)"
| "thread_wf Finished = True"

lemma forget_next_facts [simp]:
  "thread_ids (forget_next ids) = set ids" "thread_wf (forget_next ids) = list_all validTransferID ids"
  by (simp_all add: forget_next_def)

lemma record_wfD: "record_wf m \<Longrightarrow> validTransferID (TransferID m)"
  by (simp add: record_wf_def meta_wf_def)

lemma meta_wf_record: "meta_wf i m \<Longrightarrow> record_wf m \<and> TransferID m = i"
  by (simp add: record_wf_def meta_wf_def)

text \<open>A step that changes the maps at one transfer.\<close>

lemma tidy_maps:
  assumes "tidy (s, w)" "same_config s s'" "keys_distinct (meta s')" "keys_distinct (received s')"
    "keys_distinct (served s')" "\<And>j. j \<noteq> i \<Longrightarrow> same_transfer j s s'"
    "\<And>m. mget (meta s') i = Some m \<Longrightarrow> meta_wf i m"
  shows "tidy (s', w) \<and> confined {i} (s, w) (s', w)"
proof -
  have wf: "meta_wf j m" if "mget (meta s') j = Some m" for j m
  proof (cases "j = i")
    case False
    then have "mget (meta s) j = Some m" using assms(6) [of j] that by (simp add: same_transfer_def)
    then show ?thesis by (rule tidyD(2) [OF assms(1)])
  qed (use assms(7) that in blast)
  have "confined {i} (s, w) (s', w)" using assms(2,6) by (simp add: confined_def)
  then show ?thesis
    using assms(1-5) wf by (simp add: tidy_def same_config_def disk_inv_def)
qed

lemma tidy_forget: "tidy (s, w) \<Longrightarrow> tidy (forget i s, w) \<and> confined {i} (s, w) (forget i s, w)"
  by (rule tidy_maps) (auto simp: tidy_def forget_def same_config_def same_transfer_def)

lemma tidy_commit:
  assumes "tidy (s, w)" "meta_wf i m"
  shows "tidy (writeChunk_commit m i k now s, w) \<and> confined {i} (s, w) (writeChunk_commit m i k now s, w)"
  using assms(2)
  by (intro tidy_maps [OF assms(1)])
     (use assms(1) in \<open>auto simp: writeChunk_commit_def Let_def same_config_def same_transfer_def tidy_def\<close>)

lemma tidy_enter:
  assumes "tidy (s, w)" "record_wf m"
  shows "tidy (s\<lparr>meta := mput (TransferID m) m (meta s), received := mput (TransferID m) [] (received s)\<rparr>, w)
    \<and> confined {TransferID m} (s, w)
        (s\<lparr>meta := mput (TransferID m) m (meta s), received := mput (TransferID m) [] (received s)\<rparr>, w)"
  by (rule tidy_maps [OF assms(1)])
     (use assms in \<open>auto simp: record_wf_def same_config_def same_transfer_def tidy_def\<close>)

lemma tidy_touch:
  assumes "tidy (s, w)" "mget (meta s) i = Some m"
  shows "tidy (s\<lparr>meta := mput i (m\<lparr>TouchedAt := t\<rparr>) (meta s)\<rparr>, w)
    \<and> confined {i} (s, w) (s\<lparr>meta := mput i (m\<lparr>TouchedAt := t\<rparr>) (meta s)\<rparr>, w)"
proof (rule tidy_maps [OF assms(1)])
  fix x assume "mget (meta (s\<lparr>meta := mput i (m\<lparr>TouchedAt := t\<rparr>) (meta s)\<rparr>)) i = Some x"
  then show "meta_wf i x" using tidyD(2) [OF assms] by auto
qed (use assms in \<open>auto simp: same_config_def same_transfer_def tidy_def\<close>)

lemma tidy_served:
  assumes "tidy (s, w)" "mark_served i k s = (b, s')"
  shows "tidy (s', w) \<and> confined {i} (s, w) (s', w)"
proof (rule tidy_maps [OF assms(1)])
  have m: "meta s' = meta s" using assms(2) by (auto simp: mark_served_def Let_def split: option.splits if_splits)
  fix x assume "mget (meta s') i = Some x"
  then show "meta_wf i x" using tidyD(2) [OF assms(1)] by (simp add: m)
qed (use assms in \<open>auto simp: mark_served_def Let_def same_config_def same_transfer_def tidy_def
      split: option.splits if_splits\<close>)

text \<open>A step that works on one transfer's files.\<close>

lemma tidy_write:
  assumes "tidy (s, w)" "validTransferID i" "WriteFile (child (transferDir s i) n) d w = (r, w')"
  shows "tidy (s, w') \<and> confined {i} (s, w) (s, w')"
  using assms by (intro tidy_disk WriteFile_disk_step [where d = d]) (auto simp: tidyD)

lemma tidy_write_tmp:
  assumes "tidy (s, w)" "record_wf m" "write_tmp c s m w = (r, w')"
  shows "tidy (s, w') \<and> confined {TransferID m} (s, w) (s, w')"
  using assms tidy_write [OF assms(1) record_wfD [OF assms(2)], of "''meta.json.tmp''"]
  by (auto simp: write_tmp_def path_simps split: option.splits)

lemma tidy_rename:
  assumes "tidy (s, w)" "record_wf m" "rename_meta s m w = (r, w')"
  shows "tidy (s, w') \<and> confined {TransferID m} (s, w) (s, w')"
proof -
  have v: "validTransferID (TransferID m)" using assms(2) by (rule record_wfD)
  have "disk_step (TransferID m) s w w'"
  proof (rule Rename_disk_step)
    show "Rename (child (child (store_root s) (TransferID m)) ''meta.json.tmp'')
        (child (child (store_root s) (TransferID m)) ''meta.json'') w = (r, w')"
      using assms(1,3) v by (simp add: rename_meta_def tidyD(6) path_simps)
  qed (use assms(1) in \<open>auto simp: tidyD\<close>)
  with assms(1) v show ?thesis by (intro tidy_disk)
qed

lemma tidy_mkdir:
  assumes "tidy (s, w)" "validTransferID i" "MkdirAll (transferDir s i) w = (r, w')"
  shows "tidy (s, w') \<and> confined {i} (s, w) (s, w')"
  using assms MkdirAll_disk_step [OF tidyD(3) [OF assms(1)], of i] by (intro tidy_disk) (auto simp: tidyD)

lemma tidy_purge:
  assumes "tidy (s, w)" "validTransferID i" "RemoveAll (transferDir s i) w = (r, w')"
  shows "tidy (s, w') \<and> confined {i} (s, w) (s, w')"
  using assms RemoveAll_disk_step [OF tidyD(4) [OF assms(1)], of s i] by (intro tidy_disk) (auto simp: tidyD)

lemma go_on_keeps:
  assumes "go_on t s rw = (t', y)" "\<And>r w'. rw = (r, w') \<Longrightarrow> tidy (s, w') \<and> confined ids (s, w) (s, w')"
    "thread_wf t" "thread_ids t \<subseteq> ids"
  shows "tidy y \<and> thread_wf t' \<and> thread_ids t' \<subseteq> ids \<and> confined ids (s, w) y"
  using assms by (cases rw) (auto simp: go_on_def split: if_splits)

text \<open>An upload's steps.\<close>

lemma wc_step_keeps:
  assumes t: "tidy (s, w)" "job_wf job" and step: "wc_step c now job (s, w) = (job', y)"
  shows "tidy y \<and> job_wf job' \<and> job_id job' = job_id job \<and> confined {job_id job} (s, w) y"
proof -
  have same: "job_id job' = job_id job" using wc_step_same_job [OF step] by simp
  show ?thesis
  proof (cases "job_pc job")
    case (PcFile m)
    then have m: "meta_wf (job_id job) m" "validTransferID (job_id job)" using t(2) by (auto simp: meta_wf_def)
    obtain r w1 where w1: "WriteFile (child (transferDir s (job_id job)) (chunk_name (job_index job))) (job_data job) w = (r, w1)"
      by (rule prod.exhaust)
    show ?thesis using step PcFile w1 tidy_write [OF t(1) m(2) w1] m(1)
      by (cases r) (auto simp: wc_step_def path_simps)
  next
    case (PcCommit m)
    then have m: "meta_wf (job_id job) m" using t(2) by simp
    show ?thesis using step PcCommit tidy_commit [OF t(1) m, of "job_index job" now] m
      by (auto simp: wc_step_def)
  next
    case (PcTmp m)
    then have m: "meta_wf (job_id job) m" and r: "record_wf m" "TransferID m = job_id job"
      using t(2) meta_wf_record by auto
    obtain v w1 where w1: "write_tmp c s m w = (v, w1)" by (rule prod.exhaust)
    have "tidy (s, w1) \<and> confined {job_id job} (s, w) (s, w1)" using tidy_write_tmp [OF t(1) r(1) w1] r(2) by simp
    then show ?thesis using step PcTmp w1 m
      by (cases v) (auto simp: wc_step_def write_tmp_def split: option.splits)
  next
    case (PcRename m)
    then have m: "meta_wf (job_id job) m" and r: "record_wf m" "TransferID m = job_id job"
      using t(2) meta_wf_record by auto
    obtain v w1 where w1: "rename_meta s m w = (v, w1)" by (rule prod.exhaust)
    have "tidy (s, w1) \<and> confined {job_id job} (s, w) (s, w1)" using tidy_rename [OF t(1) r(1) w1] r(2) by simp
    then show ?thesis using step PcRename w1 by (auto simp: wc_step_def rename_meta_def)
  next
    case (PcDone v)
    then show ?thesis using step t by (auto simp: wc_step_def)
  qed
qed

lemma wc_begin_wf: "tidy (s, w) \<Longrightarrow> job_wf (wc_begin i k d s) \<and> job_id (wc_begin i k d s) = i"
  by (auto simp: wc_begin_def tidyD split: option.split)

lemma expired_ids_valid: "tidy (s, w) \<Longrightarrow> list_all validTransferID (expired_ids iter now s)"
  by (auto simp: expired_ids_def list_all_iff meta_wf_def split: option.splits dest: tidyD(2))

lemma begin_op_keeps:
  assumes t: "tidy (s, w)" "op_wf op" and b: "begin_op iter op s = (t', s')"
  shows "tidy (s', w) \<and> thread_wf t' \<and> thread_ids t' \<subseteq> thread_ids (Start op)
    \<and> confined (thread_ids (Start op)) (s, w) (s', w)"
proof (cases op)
  case (OpCreate i u r n share now)
  then show ?thesis using t b
    by (auto simp: record_wf_def meta_wf_def direct_meta_def direct_form_def split: if_splits)
next
  case (OpCreateLink i token n once now)
  then show ?thesis using t b
    by (auto simp: record_wf_def meta_wf_def link_meta_def link_form_def split: if_splits)
next
  case (OpTouch i now)
  show ?thesis
  proof (cases "mget (meta s) i")
    case (Some m)
    then show ?thesis using b OpTouch tidy_touch [OF t(1) Some, of now] tidyD(2) [OF t(1) Some] meta_wf_record [of i m]
      by (auto simp: record_wf_def)
  qed (use b t OpTouch in auto)
next
  case (OpWriteChunk i k d now)
  then show ?thesis using b t wc_begin_wf [OF t(1), of i k d] by auto
next
  case (OpDelete i)
  then show ?thesis using b t tidy_forget [OF t(1), of i] by auto
next
  case (OpMarkServed i k)
  obtain burn s1 where m: "mark_served i k s = (burn, s1)" by (rule prod.exhaust)
  have "burn \<Longrightarrow> validTransferID i"
    using m tidyD(2) [OF t(1), of i] by (auto simp: mark_served_def meta_wf_def split: option.splits)
  then show ?thesis using b m OpMarkServed tidy_served [OF t(1) m] by (auto split: if_splits)
next
  case (OpSweep now)
  then show ?thesis using b t expired_ids_valid [OF t(1)] by auto
qed

text \<open>One step of any thread, whatever the others are doing.\<close>

lemma thread_step_keeps:
  assumes t: "tidy x" "thread_wf t" and step: "thread_step c iter t x = (t', y)"
  shows "tidy y \<and> thread_wf t' \<and> thread_ids t' \<subseteq> thread_ids t \<and> confined (thread_ids t) x y"
proof -
  obtain s w where x: "x = (s, w)" by (rule prod.exhaust)
  note td = t(1) [unfolded x]
  show ?thesis
  proof (cases t)
    case (Start op)
    obtain u s1 where b: "begin_op iter op s = (u, s1)" by (rule prod.exhaust)
    show ?thesis using begin_op_keeps [OF td _ b] t(2) step Start b by (simp add: x)
  next
    case (Upload job now)
    obtain j1 z where w1: "wc_step c now job (s, w) = (j1, z)" by (rule prod.exhaust)
    show ?thesis using wc_step_keeps [OF td _ w1] t(2) step Upload w1 by (auto simp: x)
  next
    case (MakeDir m)
    then have r: "record_wf m" using t(2) by simp
    show ?thesis unfolding x MakeDir thread_ids.simps
      by (intro go_on_keeps [where t = "MakeTmp m" and rw = "MkdirAll (transferDir s (TransferID m)) w"] tidy_mkdir [OF td record_wfD [OF r]])
         (use step MakeDir r in \<open>simp_all add: x\<close>)
  next
    case (MakeTmp m)
    then have r: "record_wf m" using t(2) by simp
    show ?thesis unfolding x MakeTmp thread_ids.simps
      by (intro go_on_keeps [where t = "MakeMeta m" and rw = "write_tmp c s m w"] tidy_write_tmp [OF td r])
         (use step MakeTmp r in \<open>simp_all add: x\<close>)
  next
    case (MakeMeta m)
    then have r: "record_wf m" using t(2) by simp
    show ?thesis unfolding x MakeMeta thread_ids.simps
      by (intro go_on_keeps [where t = "Enter m" and rw = "rename_meta s m w"] tidy_rename [OF td r])
         (use step MakeMeta r in \<open>simp_all add: x\<close>)
  next
    case (Enter m)
    then show ?thesis using step t(2) tidy_enter [OF td, of m] by (auto simp: x)
  next
    case (TouchTmp m)
    then have r: "record_wf m" using t(2) by simp
    show ?thesis unfolding x TouchTmp thread_ids.simps
      by (intro go_on_keeps [where t = "TouchMeta m" and rw = "write_tmp c s m w"] tidy_write_tmp [OF td r])
         (use step TouchTmp r in \<open>simp_all add: x\<close>)
  next
    case (TouchMeta m)
    then have r: "record_wf m" using t(2) by simp
    show ?thesis unfolding x TouchMeta thread_ids.simps
      by (intro go_on_keeps [where t = "Finished" and rw = "rename_meta s m w"] tidy_rename [OF td r])
         (use step TouchMeta r in \<open>simp_all add: x\<close>)
  next
    case (Forget ids)
    show ?thesis
    proof (cases ids)
      case (Cons i rest)
      have "confined (insert i (set rest)) (s, w) (forget i s, w)"
        using tidy_forget [OF td, of i] confined_mono by blast
      then show ?thesis using step Forget Cons t(2) tidy_forget [OF td, of i] by (auto simp: x)
    qed (use step Forget td in \<open>auto simp: x\<close>)
  next
    case (Purge i rest)
    obtain r w1 where w1: "RemoveAll (transferDir s i) w = (r, w1)" by (rule prod.exhaust)
    have p: "tidy (s, w1) \<and> confined {i} (s, w) (s, w1)" using tidy_purge [OF td _ w1] t(2) Purge by simp
    then have "confined (insert i (set rest)) (s, w) (s, w1)" using confined_mono by blast
    then show ?thesis using step Purge t(2) w1 p by (auto simp: x)
  next
    case Finished
    then show ?thesis using step t by (auto simp: x)
  qed
qed

subsection \<open>Any interleaving\<close>

lemma list_all_update: "list_all P xs \<Longrightarrow> P a \<Longrightarrow> list_all P (xs[n := a])"
  by (induction xs arbitrary: n) (auto split: nat.split)

lemma nth_ids: "n < length ts \<Longrightarrow> thread_ids (ts ! n) \<subseteq> \<Union> (thread_ids ` set ts)"
  by (meson UN_upper nth_mem)

lemma run_threads_keeps:
  "run_threads c iter sched (ts, x) = (ts', y) \<Longrightarrow> tidy x \<Longrightarrow> list_all thread_wf ts \<Longrightarrow>
     tidy y \<and> list_all thread_wf ts' \<and> length ts' = length ts \<and> confined (\<Union> (thread_ids ` set ts)) x y"
proof (induction c iter sched "(ts, x)" arbitrary: ts x rule: run_threads.induct)
  case (2 c iter n sched ts x)
  show ?case
  proof (cases "may_run ts n")
    case True
    then have n: "n < length ts" by (simp add: may_run_def)
    obtain t z where st: "thread_step c iter (ts ! n) x = (t, z)" by (rule prod.exhaust)
    have wf: "thread_wf (ts ! n)" using "2.prems"(3) n by (simp add: list_all_length)
    note k = thread_step_keeps [OF "2.prems"(2) wf st]
    have wfs: "list_all thread_wf (ts[n := t])" using "2.prems"(3) k by (simp add: list_all_update)
    have ids: "\<Union> (thread_ids ` set (ts[n := t])) \<subseteq> \<Union> (thread_ids ` set ts)"
      using k nth_ids [OF n] set_update_subset_insert [of ts n t] by fastforce
    have "run_threads c iter sched (ts[n := t], z) = (ts', y)" using "2.prems"(1) True st by simp
    then have r: "tidy y" "list_all thread_wf ts'" "length ts' = length (ts[n := t])"
        "confined (\<Union> (thread_ids ` set (ts[n := t]))) z y"
      using "2.hyps"(1) [OF True st [symmetric]] k wfs by simp_all
    have "confined (thread_ids (ts ! n)) x z" using k by simp
    then have "confined (\<Union> (thread_ids ` set ts)) x y"
      using confined_mono [OF r(4) ids] confined_mono [OF _ nth_ids [OF n]] confined_trans by blast
    then show ?thesis using r by simp
  qed (use 2 in simp)
qed simp

end
