(* ===== verification/Progress.thy ===== *)
theory Progress
  imports Threads
begin

text \<open>
  The mutex of the store: one thread holds it at a time, some thread can always go on, and under a
  schedule that gives every thread a turn again and again all of them finish.
\<close>

subsection \<open>One holder\<close>

definition one_holder :: "thread list \<Rightarrow> bool" where
  "one_holder ts \<longleftrightarrow> (\<forall>a < length ts. \<forall>b < length ts. holds_lock (ts ! a) \<and> holds_lock (ts ! b) \<longrightarrow> a = b)"

lemma holder_needs [simp]: "holds_lock t \<Longrightarrow> needs_lock t"
  by (cases t) simp_all

lemma holder_unfinished: "holds_lock t \<Longrightarrow> \<not> finished t"
  by (cases t) simp_all

lemma thread_step_lock:
  assumes "thread_step c iter t x = (t', y)" "holds_lock t'"
  shows "needs_lock t"
proof -
  have [simp]: "\<not> holds_lock (forget_next ids)" for ids by (simp add: forget_next_def)
  show ?thesis using assms
    by (cases x; cases t) (auto simp: go_on_def split: prod.splits if_splits list.splits)
qed

lemma run_threads_one_holder:
  "run_threads c iter sched (ts, x) = (ts', y) \<Longrightarrow> one_holder ts \<Longrightarrow> one_holder ts'"
proof (induction c iter sched "(ts, x)" arbitrary: ts x rule: run_threads.induct)
  case (2 c iter n sched ts x)
  show ?case
  proof (cases "may_run ts n")
    case True
    obtain t z where st: "thread_step c iter (ts ! n) x = (t, z)" by (rule prod.exhaust)
    have "one_holder (ts[n := t])"
      using "2.prems"(2) True thread_step_lock [OF st]
      by (auto simp: one_holder_def may_run_def nth_list_update)
    then show ?thesis using "2.hyps"(1) [OF True st [symmetric]] "2.prems"(1) True st by simp
  qed (use 2 in simp)
qed simp

lemma one_holder_start [simp]: "one_holder (map Start ops)"
  by (simp add: one_holder_def)

text \<open>No deadlock.\<close>

lemma some_may_run:
  assumes "one_holder ts" "\<not> list_all finished ts"
  shows "\<exists>n < length ts. \<not> finished (ts ! n) \<and> may_run ts n"
proof (cases "\<exists>h < length ts. holds_lock (ts ! h)")
  case True
  then obtain h where h: "h < length ts" "holds_lock (ts ! h)" by blast
  then have "may_run ts h" using assms(1) by (auto simp: may_run_def one_holder_def)
  then show ?thesis using h holder_unfinished by blast
next
  case False
  then have "may_run ts n" if "n < length ts" for n using that by (simp add: may_run_def)
  then show ?thesis using assms(2) by (auto simp: list_all_length)
qed

subsection \<open>What is left to do\<close>

fun steps_to_go :: "thread \<Rightarrow> nat" where
  "steps_to_go (Start op) = 0"
| "steps_to_go (Upload job now) = steps_left (job_pc job)"
| "steps_to_go (MakeDir m) = 4"
| "steps_to_go (MakeTmp m) = 3"
| "steps_to_go (MakeMeta m) = 2"
| "steps_to_go (Enter m) = 1"
| "steps_to_go (TouchTmp m) = 2"
| "steps_to_go (TouchMeta m) = 1"
| "steps_to_go (Forget ids) = 2 * length ids + 1"
| "steps_to_go (Purge i rest) = 2 * length rest + 2"
| "steps_to_go Finished = 0"

fun not_begun :: "thread \<Rightarrow> bool" where
  "not_begun (Start op) = True"
| "not_begun t = False"

text \<open>The operations that have not begun, then the steps of those that have: how much work a sweep is
  is known only when it has collected the ids.\<close>

definition work :: "thread list \<Rightarrow> nat \<times> nat" where
  "work ts = (sum_list (map (\<lambda>t. if not_begun t then 1 else 0) ts), sum_list (map steps_to_go ts))"

abbreviation less_work :: "((nat \<times> nat) \<times> nat \<times> nat) set" where
  "less_work \<equiv> less_than <*lex*> less_than"

lemma less_work_trans: "(a, b) \<in> less_work \<Longrightarrow> (b, d) \<in> less_work \<Longrightarrow> (a, d) \<in> less_work"
  by (rule transD [OF trans_lex_prod [OF trans_less_than trans_less_than]])

lemma begin_op_begun: "begin_op iter op s = (t, s') \<Longrightarrow> \<not> not_begun t"
  by (cases op) (auto simp: forget_next_def split: if_splits option.splits prod.splits)

lemma thread_step_finished:
  "finished t \<Longrightarrow> thread_step c iter t x = (t, x)"
  by (cases t; cases x) (auto simp: wc_step_def split: wc_pc.splits)

lemma thread_step_less:
  assumes "thread_step c iter t x = (t', y)" "\<not> finished t"
  shows "\<not> not_begun t' \<and> (not_begun t \<or> steps_to_go t' < steps_to_go t)"
proof (cases t)
  case (Start op)
  then show ?thesis using assms begin_op_begun by (cases x) (auto split: prod.splits)
next
  case (Upload job now)
  obtain j1 z where w1: "wc_step c now job x = (j1, z)" by (rule prod.exhaust)
  have "steps_left (job_pc job) \<noteq> 0" using assms(2) Upload by (cases "job_pc job") auto
  then show ?thesis using assms(1) Upload w1 wc_step_left [OF w1] by auto
qed (use assms in \<open>cases x; auto simp: go_on_def forget_next_def split: prod.splits if_splits list.splits\<close>)+

lemma sum_list_update:
  "n < length ts \<Longrightarrow> sum_list (map f (ts[n := t])) + f (ts ! n) = sum_list (map f ts) + (f t :: nat)"
  by (induction ts arbitrary: n) (auto simp: nth_Cons split: nat.split)

lemma work_step:
  assumes "may_run ts n" "\<not> finished (ts ! n)" "thread_step c iter (ts ! n) x = (t, y)"
  shows "(work (ts[n := t]), work ts) \<in> less_work"
proof -
  have n: "n < length ts" using assms(1) by (simp add: may_run_def)
  note l = thread_step_less [OF assms(3,2)]
  show ?thesis using l sum_list_update [OF n, of "\<lambda>t. if not_begun t then 1 else 0" t]
      sum_list_update [OF n, of steps_to_go t]
    by (auto simp: work_def split: if_splits)
qed

subsection \<open>Fair schedules\<close>

lemma run_one:
  obtains "run_threads c iter [n] (ts, x) = (ts, x)"
  | t y where "run_threads c iter [n] (ts, x) = (ts[n := t], y)" "(work (ts[n := t]), work ts) \<in> less_work"
proof (cases "may_run ts n \<and> \<not> finished (ts ! n)")
  case True
  obtain t y where st: "thread_step c iter (ts ! n) x = (t, y)" by (rule prod.exhaust)
  show ?thesis using that(2) [of t y] work_step [OF _ _ st] True st by simp
next
  case False
  then show ?thesis using that(1) thread_step_finished [of "ts ! n" c iter x] by simp
qed

definition fair :: "(nat \<Rightarrow> nat) \<Rightarrow> nat \<Rightarrow> bool" where
  "fair f n \<longleftrightarrow> (\<forall>k < n. \<forall>a. \<exists>b \<ge> a. f b = k)"

lemma fair_turns: "fair (\<lambda>k. k mod n) n"
proof -
  have "a \<le> n * a + k \<and> (n * a + k) mod n = k" if "k < n" for a k using that by (simp add: trans_le_add1)
  then show ?thesis unfolding fair_def by blast
qed

lemma fair_finish:
  assumes fair: "fair f (length ts)" and one: "one_holder ts"
  shows "\<exists>K. list_all finished (fst (run_threads c iter (map f [0..<K]) (ts, x)))"
proof -
  define z where "z k = run_threads c iter (map f [0..<k]) (ts, x)" for k
  have step: "z (Suc k) = run_threads c iter [f k] (z k)" for k
    by (simp add: z_def run_threads_append)
  have len: "length (fst (z k)) = length ts" for k
  proof (induction k)
    case (Suc k)
    then show ?case by (cases "z k") (use step [of k] run_one [of c iter "f k" "fst (z k)" "snd (z k)"] in fastforce)
  qed (simp add: z_def)
  have holder: "one_holder (fst (z k))" for k
    using run_threads_one_holder [of c iter "map f [0..<k]" ts x] one by (cases "z k") (simp add: z_def)
  have less: "z b = z a \<or> (work (fst (z b)), work (fst (z a))) \<in> less_work" if "a \<le> b" for a b
    using that
  proof (induction b rule: dec_induct)
    case (step b)
    show ?case
    proof (rule run_one [of c iter "f b" "fst (z b)" "snd (z b)"])
      assume "run_threads c iter [f b] (fst (z b), snd (z b)) = (fst (z b), snd (z b))"
      then show ?thesis using step.IH \<open>z (Suc b) = run_threads c iter [f b] (z b)\<close> by simp
    next
      fix t y assume "run_threads c iter [f b] (fst (z b), snd (z b)) = ((fst (z b))[f b := t], y)"
        "(work ((fst (z b))[f b := t]), work (fst (z b))) \<in> less_work"
      then show ?thesis using step.IH \<open>z (Suc b) = run_threads c iter [f b] (z b)\<close> less_work_trans
        by (metis fst_conv prod.collapse)
    qed
  qed simp
  have "\<exists>K. list_all finished (fst (z K))" if "w = work (fst (z a))" for w a
    using that
  proof (induction w arbitrary: a rule: wf_induct_rule [OF wf_lex_prod [OF wf_less_than wf_less_than]])
    case (1 w)
    show ?case
    proof (cases "list_all finished (fst (z a))")
      case False
      then obtain n where n: "n < length ts" "\<not> finished (fst (z a) ! n)" "may_run (fst (z a)) n"
        using some_may_run [OF holder False] len by auto
      obtain b where b: "a \<le> b" "f b = n" using fair n(1) by (auto simp: fair_def)
      have "(work (fst (z (Suc b))), work (fst (z a))) \<in> less_work"
      proof (cases "z b = z a")
        case True
        obtain t y where st: "thread_step c iter (fst (z a) ! n) (snd (z a)) = (t, y)" by (rule prod.exhaust)
        have "z (Suc b) = ((fst (z a))[n := t], y)"
          using step [of b] True b(2) n(3) st by (cases "z a") simp
        then show ?thesis using work_step [OF n(3,2) st] by simp
      next
        case False
        then have "(work (fst (z b)), work (fst (z a))) \<in> less_work" using less [OF b(1)] by blast
        moreover have "z (Suc b) = z b \<or> (work (fst (z (Suc b))), work (fst (z b))) \<in> less_work"
          by (rule less) simp
        ultimately show ?thesis using less_work_trans by metis
      qed
      then show ?thesis using "1.IH" "1.prems" by blast
    qed blast
  qed
  then show ?thesis by (simp add: z_def)
qed

end
