(* ===== verification/Calm.thy ===== *)
theory Calm
  imports Progress
begin

text \<open>
  When the store's invariant survives concurrency.  A set of operations is calm when no deletion,
  download of a one-time link or sweep can remove a transfer one of them uploads to.  Then, whatever
  the interleaving, the mutex keeps the invariant: of the transfers that no thread is about to remove
  at every point, and of all of them once the threads are done; and no sender ever exceeds the cap.
\<close>

subsection \<open>The store without some transfers\<close>

definition without :: "string set \<Rightarrow> store \<Rightarrow> store" where
  "without B s =
     s\<lparr>meta := filter (\<lambda>(k, v). k \<notin> B) (meta s), received := filter (\<lambda>(k, v). k \<notin> B) (received s),
       served := filter (\<lambda>(k, v). k \<notin> B) (served s)\<rparr>"

lemma filter_mput_out: "k \<in> B \<Longrightarrow> filter (\<lambda>(q, v). q \<notin> B) (mput k x m) = filter (\<lambda>(q, v). q \<notin> B) m"
  by (induction m) auto

lemma filter_mput_in: "k \<notin> B \<Longrightarrow> filter (\<lambda>(q, v). q \<notin> B) (mput k x m) = mput k x (filter (\<lambda>(q, v). q \<notin> B) m)"
  by (induction m) auto

lemma filter_mdel: "filter (\<lambda>(q, v). q \<notin> B) (mdel k m) = filter (\<lambda>(q, v). q \<notin> insert k B) m"
  by (induction m) auto

lemma mdel_filter: "mdel k (filter (\<lambda>(q, v). q \<notin> B) m) = filter (\<lambda>(q, v). q \<notin> insert k B) m"
  by (induction m) auto

lemma without_none [simp]: "without {} s = s"
  by (simp add: without_def)

lemma without_fields [simp]:
  "mget (meta (without B s)) i = (if i \<in> B then None else mget (meta s) i)"
  "mget (received (without B s)) i = (if i \<in> B then None else mget (received s) i)"
  "mget (served (without B s)) i = (if i \<in> B then None else mget (served s) i)"
  "dataDir (without B s) = dataDir s" "ttl (without B s) = ttl s"
  by (simp_all add: without_def mget_filter_key [where P = "\<lambda>q. q \<notin> B"])

lemma without_forget: "without B (forget i s) = without (insert i B) s" "forget i (without B s) = without (insert i B) s"
  by (simp_all add: without_def forget_def filter_mdel mdel_filter)

lemma without_more:
  "store_inv (without B s) \<Longrightarrow> store_inv (without (B \<union> set ids) s)"
proof (induction ids arbitrary: B)
  case (Cons i ids)
  have "store_inv (without (insert i B) s)" using forget_inv [OF Cons.prems, of i] by (simp add: without_forget)
  then show ?case using Cons.IH by (metis Un_insert_left Un_insert_right list.simps(15))
qed simp

lemma count_filter: "count_vals P (filter Q m) \<le> count_vals P m"
  by (induction m) (auto simp: count_vals_def)

lemma senderCount_without: "senderCount (without B s) u \<le> senderCount s u"
  by (simp add: senderCount_def without_def count_filter)

lemma senderCount_forget: "senderCount (forget i s) u \<le> senderCount s u"
  using senderCount_del [where s = s and i = i and u = u] by (simp add: forget_def senderCount_def)

subsection \<open>What a thread may do, and what it knows\<close>

fun writes :: "thread \<Rightarrow> string set" where
  "writes (Start (OpWriteChunk i k d now)) = {i}"
| "writes (Upload job now) = {job_id job}"
| "writes t = {}"

fun removes :: "thread \<Rightarrow> string set" where
  "removes (Start (OpDelete i)) = {i}"
| "removes (Start (OpMarkServed i k)) = {i}"
| "removes (Start (OpSweep now)) = UNIV"
| "removes (Forget ids) = set ids"
| "removes (Purge i rest) = set rest"
| "removes t = {}"

fun creates :: "thread \<Rightarrow> string set" where
  "creates (Start (OpCreate i u r n share now)) = {i}"
| "creates (Start (OpCreateLink i token n once now)) = {i}"
| "creates (MakeDir m) = {TransferID m}"
| "creates (MakeTmp m) = {TransferID m}"
| "creates (MakeMeta m) = {TransferID m}"
| "creates (Enter m) = {TransferID m}"
| "creates t = {}"

fun marks :: "thread \<Rightarrow> string set" where
  "marks (Start (OpMarkServed i k)) = {i}"
| "marks t = {}"

text \<open>What it is about to remove from the maps.\<close>

fun burning :: "thread \<Rightarrow> string set" where
  "burning (Forget ids) = set ids"
| "burning (Purge i rest) = set rest"
| "burning t = {}"

definition pending :: "thread list \<Rightarrow> string set" where
  "pending ts = \<Union> (burning ` set ts)"

definition calm :: "thread list \<Rightarrow> bool" where
  "calm ts \<longleftrightarrow> (\<forall>t \<in> set ts. \<forall>u \<in> set ts. writes t \<inter> removes u = {} \<and> marks t \<inter> creates u = {})"

definition room_for :: "transferMeta \<Rightarrow> store \<Rightarrow> bool" where
  "room_for m s \<longleftrightarrow> mget (meta s) (TransferID m) = None
     \<and> (From m \<noteq> [] \<longrightarrow> senderCount s (From m) < maxTransfersPerSender)"

definition job_fits :: "wc_job \<Rightarrow> transferMeta \<Rightarrow> store \<Rightarrow> bool" where
  "job_fits job m s \<longleftrightarrow> (\<exists>m0. mget (meta s) (job_id job) = Some m0 \<and> same_but_touch m0 m
     \<and> 0 \<le> job_index job \<and> job_index job < TotalChunks m0)"

fun knows :: "thread \<Rightarrow> store \<Rightarrow> bool" where
  "knows (Start (OpMarkServed i k)) s = (\<forall>m. mget (meta s) i = Some m \<longrightarrow> 0 \<le> k \<and> k < TotalChunks m)"
| "knows (Upload job now) s =
     (case job_pc job of PcFile m \<Rightarrow> job_fits job m s | PcCommit m \<Rightarrow> job_fits job m s | _ \<Rightarrow> True)"
| "knows (MakeDir m) s = room_for m s"
| "knows (MakeTmp m) s = room_for m s"
| "knows (MakeMeta m) s = room_for m s"
| "knows (Enter m) s = room_for m s"
| "knows t s = True"

lemma forget_next_roles [simp]:
  "writes (forget_next ids) = {}" "removes (forget_next ids) = set ids" "creates (forget_next ids) = {}"
  "marks (forget_next ids) = {}" "burning (forget_next ids) = set ids" "knows (forget_next ids) s"
  by (simp_all add: forget_next_def)

lemma burning_removes: "burning t \<subseteq> removes t"
  by (cases t) auto

lemma go_on_roles:
  assumes "go_on t s rw = (t', y)"
  shows "writes t' \<subseteq> writes t \<and> removes t' \<subseteq> removes t \<and> creates t' \<subseteq> creates t \<and> marks t' \<subseteq> marks t"
    "burning t' \<subseteq> burning t \<and> (knows t s \<longrightarrow> knows t' s) \<and> fst y = s"
  using assms by (cases rw; auto simp: go_on_def split: if_splits)+

lemma direct_link_id [simp]:
  "TransferID (direct_meta i u r n share now) = i" "From (direct_meta i u r n share now) = u"
  "TransferID (link_meta i token n once now) = i" "From (link_meta i token n once now) = []"
  by (simp_all add: direct_meta_def link_meta_def)

text \<open>Roles only shrink.\<close>

lemma begin_op_roles:
  "begin_op iter op s = (t', s') \<Longrightarrow> writes t' \<subseteq> writes (Start op) \<and> removes t' \<subseteq> removes (Start op)
     \<and> creates t' \<subseteq> creates (Start op) \<and> marks t' \<subseteq> marks (Start op)"
  by (cases op) (auto simp: wc_begin_def split: if_splits option.splits prod.splits)

lemma thread_step_roles:
  assumes "thread_step c iter t x = (t', y)"
  shows "writes t' \<subseteq> writes t \<and> removes t' \<subseteq> removes t \<and> creates t' \<subseteq> creates t \<and> marks t' \<subseteq> marks t"
proof -
  obtain s w where x: "x = (s, w)" by (rule prod.exhaust)
  show ?thesis
  proof (cases t)
    case (Start op)
    obtain u s1 where "begin_op iter op s = (u, s1)" by (rule prod.exhaust)
    then show ?thesis using begin_op_roles assms Start by (simp add: x)
  next
    case (Upload job now)
    obtain j1 z where w1: "wc_step c now job x = (j1, z)" by (rule prod.exhaust)
    show ?thesis using assms Upload w1 wc_step_same_job [OF w1] by auto
  next
    case (Forget ids)
    then show ?thesis using assms by (cases ids) (auto simp: x)
  qed (use assms in \<open>auto simp: x dest!: go_on_roles(1)\<close>)
qed

lemma calm_step:
  assumes "calm ts" "n < length ts" "thread_step c iter (ts ! n) x = (t, y)"
  shows "calm (ts[n := t])"
proof -
  note r = thread_step_roles [OF assms(3)]
  have "\<exists>t0 \<in> set ts. writes a \<subseteq> writes t0 \<and> removes a \<subseteq> removes t0 \<and> creates a \<subseteq> creates t0 \<and> marks a \<subseteq> marks t0"
    if "a \<in> set (ts[n := t])" for a
    using that r assms(2) nth_mem set_update_subset_insert [of ts n t] by blast
  then show ?thesis using assms(1) unfolding calm_def by (meson disjoint_iff subsetD)
qed

subsection \<open>One step\<close>

text \<open>A step that does not need the mutex leaves the maps alone.\<close>

lemma unlocked_step:
  assumes "thread_step c iter t (s, w) = (t', y)" "\<not> needs_lock t"
  shows "fst y = s"
proof (cases t)
  case (Upload job now)
  obtain j1 z where w1: "wc_step c now job (s, w) = (j1, z)" by (rule prod.exhaust)
  then have "fst z = s" using assms(2) Upload only_commit_changes_store [of job c now "(s, w)"]
    by (cases "job_pc job") auto
  then show ?thesis using assms(1) Upload w1 by simp
qed (use assms in auto)

lemma job_fits_commit:
  assumes "job_fits job m s"
  obtains m0 where "mget (meta s) (job_id job) = Some m0" "same_but_touch m0 m" "0 \<le> job_index job"
    "job_index job < TotalChunks m0"
    "writeChunk_commit m (job_id job) (job_index job) now s = writeChunk_commit m0 (job_id job) (job_index job) now s"
  using assms same_but_touch_stamp [of _ m now] by (auto simp: job_fits_def writeChunk_commit_def)

lemma commit_step:
  assumes "thread_step c iter (Upload job now) (s, w) = (t', (s', w'))" "job_pc job = PcCommit m"
  shows "s' = writeChunk_commit m (job_id job) (job_index job) now s \<and> knows t' s' \<and> burning t' = {}"
  using assms by (auto simp: wc_step_def)

text \<open>A record stays what it was, but for its time stamp, until a thread removes it; and is only there
  anew when a thread created it.\<close>

lemma record_kept:
  assumes step: "thread_step c iter t (s, w) = (t', (s', w'))" and k: "knows t s"
  shows "j \<notin> removes t \<Longrightarrow> mget (meta s) j = Some m0 \<Longrightarrow> \<exists>m1. mget (meta s') j = Some m1 \<and> same_but_touch m0 m1"
    and "j \<notin> creates t \<Longrightarrow> mget (meta s') j = Some m1 \<Longrightarrow> \<exists>m0. mget (meta s) j = Some m0 \<and> TotalChunks m1 = TotalChunks m0"
proof -
  have "(j \<notin> removes t \<longrightarrow> mget (meta s) j = Some m0 \<longrightarrow> (\<exists>m1. mget (meta s') j = Some m1 \<and> same_but_touch m0 m1))
    \<and> (j \<notin> creates t \<longrightarrow> mget (meta s') j = Some m1 \<longrightarrow> (\<exists>m0. mget (meta s) j = Some m0 \<and> TotalChunks m1 = TotalChunks m0))"
  proof (cases "s' = s")
    case False
    then have nl: "needs_lock t" using unlocked_step [OF step] by force
    consider (op) op where "t = Start op" | (up) job now m where "t = Upload job now" "job_pc job = PcCommit m"
      | (enter) m where "t = Enter m" | (drop) ids where "t = Forget ids"
      using nl step False by (cases t) (auto dest: go_on_roles(2) split: wc_pc.splits)
    then show ?thesis
    proof cases
      case op
      show ?thesis
      proof (cases op)
        case (OpMarkServed i k)
        then have "meta s' = meta s" using step \<open>t = Start op\<close>
          by (auto simp: mark_served_def Let_def split: prod.splits option.splits if_splits)
        then show ?thesis by simp
      qed (use op step False in \<open>auto simp: same_but_touch_id forget_def split: option.splits if_splits\<close>)
    next
      case up
      obtain m2 where "mget (meta s) (job_id job) = Some m2" "same_but_touch m2 m"
        "s' = writeChunk_commit m2 (job_id job) (job_index job) now s"
        using job_fits_commit [of job m s now] k up commit_step [of c iter job now s w t' s' w' m] step by auto
      then show ?thesis using same_but_touch_id by (auto simp: writeChunk_commit_def Let_def split: if_splits)
    next
      case enter
      then show ?thesis using step k by (auto simp: room_for_def split: if_splits)
    next
      case drop
      then show ?thesis using step by (cases ids) (auto simp: forget_def split: if_splits)
    qed
  qed auto
  then show "j \<notin> removes t \<Longrightarrow> mget (meta s) j = Some m0 \<Longrightarrow> \<exists>m1. mget (meta s') j = Some m1 \<and> same_but_touch m0 m1"
    "j \<notin> creates t \<Longrightarrow> mget (meta s') j = Some m1 \<Longrightarrow> \<exists>m0. mget (meta s) j = Some m0 \<and> TotalChunks m1 = TotalChunks m0"
    by blast+
qed

text \<open>The other threads still know what they knew.\<close>

lemma knows_others:
  assumes step: "thread_step c iter t (s, w) = (t', (s', w'))" and k: "knows t s" "knows u s"
    and calm: "writes u \<inter> removes t = {}" "marks u \<inter> creates t = {}"
    and lock: "needs_lock t \<Longrightarrow> \<not> holds_lock u"
  shows "knows u s'"
proof (cases "needs_lock t")
  case False
  then show ?thesis using unlocked_step [OF step] k(2) by simp
next
  case True
  have fits: "job_fits job m s'" if fit: "job_fits job m s" and nr: "job_id job \<notin> removes t" for job m
  proof -
    obtain m0 where m0: "mget (meta s) (job_id job) = Some m0" "same_but_touch m0 m" "0 \<le> job_index job"
      "job_index job < TotalChunks m0" using fit unfolding job_fits_def by blast
    obtain m1 where m1: "mget (meta s') (job_id job) = Some m1" "same_but_touch m0 m1"
      using record_kept(1) [OF step k(1) nr m0(1)] by blast
    then show ?thesis
      using m0 same_but_touch_shift [OF m1(2) m0(2)] same_but_touch_fields [OF m1(2)] by (simp add: job_fits_def)
  qed
  show ?thesis
  proof (cases u)
    case (Start op)
    show ?thesis
    proof (cases op)
      case (OpMarkServed i n)
      then show ?thesis using record_kept(2) [OF step k(1), of i] k(2) calm(2) Start by fastforce
    qed (use Start in simp_all)
  next
    case (Upload job now)
    then show ?thesis using fits [of job] k(2) calm(1) by (auto split: wc_pc.splits)
  qed (use lock [OF True] in simp_all)
qed

text \<open>The maps' invariant, step by step; \<open>R\<close> is what the other threads are about to remove.\<close>

definition capped :: "store \<Rightarrow> bool" where
  "capped s \<longleftrightarrow> (\<forall>u. u \<noteq> [] \<longrightarrow> senderCount s u \<le> maxTransfersPerSender)"

lemma cappedD: "capped s \<Longrightarrow> u \<noteq> [] \<Longrightarrow> senderCount s u \<le> maxTransfersPerSender"
  by (simp add: capped_def)

lemma capped_forget: "capped s \<Longrightarrow> capped (forget i s)"
  using order_trans [OF senderCount_forget] by (fastforce simp: capped_def)

lemma without_put:
  "i \<notin> R \<Longrightarrow> without R (s\<lparr>meta := mput i m (meta s)\<rparr>) = (without R s)\<lparr>meta := mput i m (meta (without R s))\<rparr>"
  "i \<notin> R \<Longrightarrow> without R (s\<lparr>meta := mput i m (meta s), received := mput i xs (received s)\<rparr>)
     = (without R s)\<lparr>meta := mput i m (meta (without R s)), received := mput i xs (received (without R s))\<rparr>"
  by (cases s; simp add: without_def filter_mput_in)+

lemma touch_without:
  assumes "store_inv (without R s)" "mget (meta s) i = Some m"
  shows "store_inv (without R (s\<lparr>meta := mput i (m\<lparr>TouchedAt := t\<rparr>) (meta s)\<rparr>))"
proof (cases "i \<in> R")
  case True
  then show ?thesis using assms(1) by (simp add: without_def filter_mput_out)
next
  case False
  then have "store_inv ((without R s)\<lparr>meta := mput i (m\<lparr>TouchedAt := t\<rparr>) (meta (without R s))\<rparr>)"
    using assms by (intro touch_inv) simp_all
  then show ?thesis using False by (simp add: without_put)
qed

lemma commit_without:
  assumes "store_inv (without R s)" "mget (meta s) i = Some m" "0 \<le> k" "k < TotalChunks m" "i \<notin> R"
  shows "store_inv (without R (writeChunk_commit m i k now s))"
proof -
  have "writeChunk_commit m i k now (without R s) = without R (writeChunk_commit m i k now s)"
    using assms(5) by (simp add: writeChunk_commit_def Let_def)
      (simp add: without_def filter_mput_in mget_filter_key [where P = "\<lambda>q. q \<notin> R"])
  then show ?thesis using writeChunk_commit_inv [of "without R s" i m k now] assms by simp
qed

lemma enter_without:
  assumes "store_inv (without R s)" "record_wf m" "room_for m s"
  shows "store_inv (without R (s\<lparr>meta := mput (TransferID m) m (meta s), received := mput (TransferID m) [] (received s)\<rparr>))"
proof (cases "TransferID m \<in> R")
  case True
  then show ?thesis using assms(1) by (simp add: without_def filter_mput_out)
next
  case False
  have "store_inv ((without R s)\<lparr>meta := mput (TransferID m) m (meta (without R s)),
      received := mput (TransferID m) [] (received (without R s))\<rparr>)"
    using assms False senderCount_without [of R s "From m"]
    by (intro install_inv) (auto simp: record_wf_def room_for_def)
  then show ?thesis using False by (simp add: without_put)
qed

lemma served_without:
  assumes inv: "store_inv (without R s)" and k: "\<And>m. mget (meta s) i = Some m \<Longrightarrow> 0 \<le> k \<and> k < TotalChunks m"
    and mark: "mark_served i k s = (burn, s')"
  shows "store_inv (without (if burn then insert i R else R) s')"
proof (cases "\<exists>m. mget (meta s) i = Some m \<and> Mode m = ''link''")
  case False
  then have "s' = s" "\<not> burn" using mark by (auto simp: mark_served_def split: option.splits if_splits)
  then show ?thesis using inv by simp
next
  case True
  then obtain m where m: "mget (meta s) i = Some m" "Mode m = ''link''" by blast
  let ?new = "set_index k (case mget (served s) i of None \<Rightarrow> [] | Some xs \<Rightarrow> xs)"
  have s': "s' = s\<lparr>served := mput i ?new (served s)\<rparr>" using mark m by (auto simp: mark_served_def Let_def)
  show ?thesis
  proof (cases "burn \<or> i \<in> R")
    case True
    let ?B = "if burn then insert i R else R"
    have "i \<in> ?B" using True by auto
    then have "without ?B s' = without ?B s" by (simp add: s' without_def filter_mput_out)
    moreover have "store_inv (without ?B s)" using inv forget_inv [OF inv, of i] by (simp add: without_forget)
    ultimately show ?thesis by simp
  next
    case False
    have "mark_served i k (without R s) = (False, without R s')"
      using mark m False by (auto simp: mark_served_def Let_def s')
        (simp_all add: without_def filter_mput_in mget_filter_key [where P = "\<lambda>q. q \<notin> R"])
    then have "store_inv (without R s')"
      using mark_served_inv [OF inv, of i m k] m k [OF m(1)] False by simp
    then show ?thesis using False by simp
  qed
qed

lemma begin_inv:
  assumes b: "begin_op iter op s = (t', s')" and k: "knows (Start op) s" and cap: "capped s" and inv: "store_inv (without R s)"
  shows "store_inv (without (R \<union> burning t') s') \<and> capped s' \<and> knows t' s'"
proof (cases op)
  case (OpCreate i u r n share now)
  then show ?thesis using b cap inv by (auto simp: room_for_def split: if_splits)
next
  case (OpCreateLink i token n once now)
  then show ?thesis using b cap inv by (auto simp: room_for_def split: if_splits)
next
  case (OpTouch i now)
  then show ?thesis using b cap inv touch_without [OF inv]
    by (auto simp: capped_def senderCount_change split: option.splits)
next
  case (OpWriteChunk i n d now)
  then show ?thesis using b cap inv by (auto simp: wc_begin_def job_fits_def split: option.splits)
next
  case (OpDelete i)
  then show ?thesis using b capped_forget [OF cap] forget_inv [OF inv, of i] by (auto simp: without_forget)
next
  case (OpMarkServed i n)
  obtain burn s1 where m: "mark_served i n s = (burn, s1)" by (rule prod.exhaust)
  have "senderCount s1 u = senderCount s u" for u
    using m by (auto simp: mark_served_def Let_def split: option.splits if_splits)
  then show ?thesis using b m OpMarkServed served_without [OF inv _ m] k cap by (auto simp: capped_def split: if_splits)
next
  case (OpSweep now)
  then show ?thesis using b cap without_more [OF inv] by auto
qed

lemma step_inv:
  assumes step: "thread_step c iter t (s, w) = (t', (s', w'))" and wf: "thread_wf t" and k: "knows t s"
    and cap: "capped s" and inv: "store_inv (without (R \<union> burning t) s)" and calm: "writes t \<inter> R = {}"
  shows "store_inv (without (R \<union> burning t') s') \<and> capped s' \<and> knows t' s'"
proof -
  have go: "store_inv (without (R \<union> burning t') s') \<and> capped s' \<and> knows t' s'"
    if "go_on u s rw = (t', (s', w'))" "burning u = {}" "knows u s" "burning t = {}" for u rw
    using go_on_roles(2) [OF that(1)] that inv cap by auto
  show ?thesis
  proof (cases t)
    case (Start op)
    obtain u s1 where b: "begin_op iter op s = (u, s1)" by (rule prod.exhaust)
    then show ?thesis using begin_inv [OF b _ cap] k inv step Start by simp
  next
    case (Upload job now)
    show ?thesis
    proof (cases "needs_lock t")
      case True
      then obtain m where m: "job_pc job = PcCommit m" using Upload by (cases "job_pc job") auto
      note cs = commit_step [OF step [unfolded Upload] m]
      obtain m0 where m0: "mget (meta s) (job_id job) = Some m0" "same_but_touch m0 m" "0 \<le> job_index job"
        "job_index job < TotalChunks m0" "s' = writeChunk_commit m0 (job_id job) (job_index job) now s"
        using job_fits_commit [of job m s now] k Upload m cs by auto
      have "store_inv (without R s')" unfolding m0(5)
        using commit_without [OF _ m0(1,3,4)] inv calm Upload by simp
      moreover have "senderCount s' u = senderCount s u" for u
        using m0(1) by (simp add: m0(5) writeChunk_commit_def Let_def senderCount_change)
      ultimately show ?thesis using cap conjunct2 [OF cs] by (simp add: capped_def)
    next
      case False
      obtain j1 z where w1: "wc_step c now job (s, w) = (j1, z)" by (rule prod.exhaust)
      have "s' = s" using unlocked_step [OF step False] by simp
      moreover have "knows (Upload j1 now) s" using k Upload w1 False
        by (cases "job_pc job")
           (auto simp: wc_step_def job_fits_def split: prod.splits sum.splits option.splits)
      ultimately show ?thesis using step Upload w1 inv cap by auto
    qed
  next
    case (MakeDir m)
    then show ?thesis using step k by (intro go [where u = "MakeTmp m"]) simp_all
  next
    case (MakeTmp m)
    then show ?thesis using step k by (intro go [where u = "MakeMeta m"]) simp_all
  next
    case (MakeMeta m)
    then show ?thesis using step k by (intro go [where u = "Enter m"]) simp_all
  next
    case (Enter m)
    then show ?thesis using step k wf inv cap enter_without [of R s m]
      by (auto simp: room_for_def capped_def senderCount_new Suc_leI)
  next
    case (TouchTmp m)
    then show ?thesis using step by (intro go [where u = "TouchMeta m"]) simp_all
  next
    case (TouchMeta m)
    then show ?thesis using step by (intro go [where u = Finished]) simp_all
  next
    case (Forget ids)
    then show ?thesis using step inv cap capped_forget [OF cap] by (cases ids) (auto simp: without_forget)
  next
    case (Purge i rest)
    then show ?thesis using step inv cap by auto
  next
    case Finished
    then show ?thesis using step inv cap by simp
  qed
qed

subsection \<open>Any interleaving\<close>

lemma pending_split:
  "n < length ts \<Longrightarrow> pending (ts[n := t]) = pending (take n ts @ drop (Suc n) ts) \<union> burning t"
  by (auto simp: pending_def upd_conv_take_nth_drop)

lemma others_in: "u \<in> set (take n ts @ drop (Suc n) ts) \<Longrightarrow> u \<in> set ts"
  by (auto dest: in_set_takeD in_set_dropD)

lemma run_threads_inv:
  "run_threads c iter sched (ts, x) = (ts', y) \<Longrightarrow> tidy x \<Longrightarrow> list_all thread_wf ts \<Longrightarrow> one_holder ts \<Longrightarrow> calm ts \<Longrightarrow>
     \<forall>t \<in> set ts. knows t (fst x) \<Longrightarrow> capped (fst x) \<Longrightarrow> store_inv (without (pending ts) (fst x)) \<Longrightarrow>
     capped (fst y) \<and> store_inv (without (pending ts') (fst y))"
proof (induction c iter sched "(ts, x)" arbitrary: ts x rule: run_threads.induct)
  case (2 c iter n sched ts x)
  show ?case
  proof (cases "may_run ts n")
    case True
    then have n: "n < length ts" by (simp add: may_run_def)
    then have mem: "ts ! n \<in> set ts" by simp
    obtain s w where x: "x = (s, w)" by (rule prod.exhaust)
    obtain t s1 w1 where st: "thread_step c iter (ts ! n) x = (t, (s1, w1))" by (metis prod_cases3)
    note sx = st [unfolded x]
    have wf: "thread_wf (ts ! n)" using "2.prems"(3) n by (simp add: list_all_length)
    have k: "knows (ts ! n) s" using "2.prems"(6) mem x by simp
    let ?R = "pending (take n ts @ drop (Suc n) ts)"
    have "writes (ts ! n) \<inter> ?R = {}"
      using "2.prems"(5) mem others_in [of _ n ts] burning_removes unfolding calm_def pending_def by blast
    then have one: "store_inv (without (?R \<union> burning t) s1) \<and> capped s1 \<and> knows t s1"
      using "2.prems"(7,8) pending_split [OF n, of "ts ! n"] by (intro step_inv [OF sx wf k]) (simp_all add: x)
    have others: "knows u s1" if u: "k < length ts" "k \<noteq> n" "u = ts ! k" for k u
    proof (rule knows_others [OF sx \<open>knows (ts ! n) s\<close>])
      show "knows u s" using "2.prems"(6) u x by simp
      show "writes u \<inter> removes (ts ! n) = {}" "marks u \<inter> creates (ts ! n) = {}"
        using "2.prems"(5) mem u by (simp_all add: calm_def)
      show "\<not> holds_lock u" if "needs_lock (ts ! n)" using True u that by (auto simp: may_run_def)
    qed
    have all: "\<forall>u \<in> set (ts[n := t]). knows u s1"
    proof
      fix u assume "u \<in> set (ts[n := t])"
      then obtain k where "k < length ts" "u = ts[n := t] ! k" by (auto simp: in_set_conv_nth)
      then show "knows u s1" using one others [of k u] by (cases "k = n") auto
    qed
    have keep: "tidy (s1, w1)" "thread_wf t" using thread_step_keeps [OF "2.prems"(2) wf st] by simp_all
    have "run_threads c iter [n] (ts, x) = (ts[n := t], (s1, w1))" using True st by simp
    then have holder: "one_holder (ts[n := t])" using run_threads_one_holder "2.prems"(4) by blast
    have "run_threads c iter sched (ts[n := t], (s1, w1)) = (ts', y)" using "2.prems"(1) True st by simp
    then show ?thesis
      using "2.hyps"(1) [OF True st [symmetric]] keep holder calm_step [OF "2.prems"(5) n st] all one
        list_all_update [OF "2.prems"(3) keep(2)] pending_split [OF n, of t] by simp
  qed (use 2 in simp)
qed simp

lemma pending_finished: "list_all finished ts \<Longrightarrow> pending ts = {}"
proof -
  have "finished t \<Longrightarrow> burning t = {}" for t by (cases t) simp_all
  then show "list_all finished ts \<Longrightarrow> pending ts = {}" by (auto simp: pending_def list_all_iff)
qed

end
