(* ===== verification/Parallel.thy ===== *)
theory Parallel
  imports Calm
begin

text \<open>
  Operations on different transfers, run at once on a disk that works, do not disturb each other: each
  thread sees of its own transfer what it would see alone, takes the same steps and leaves the same
  behind.  \<open>twins i\<close> relates the state of the run to that of the thread alone.
\<close>

subsection \<open>Two states with the same transfer\<close>

definition twins :: "string \<Rightarrow> state \<Rightarrow> state \<Rightarrow> bool" where
  "twins i x y \<longleftrightarrow> (case x of (s, w) \<Rightarrow> case y of (s', w') \<Rightarrow> same_config s s' \<and> same_transfer i s s'
     \<and> w_faults w = [] \<and> w_faults w' = []
     \<and> (\<forall>q. below (child (store_root s) i) q \<longrightarrow> mget (w_fs w') q = mget (w_fs w) q))"

lemma twins_refl: "w_faults (snd x) = [] \<Longrightarrow> twins i x x"
  by (cases x) (simp add: twins_def same_config_def same_transfer_def)

lemma twinsD:
  assumes "twins i (s, w) (s', w')"
  shows "dataDir s' = dataDir s" "ttl s' = ttl s" "mget (meta s') i = mget (meta s) i"
    "mget (received s') i = mget (received s) i" "mget (served s') i = mget (served s) i"
    "w_faults w = []" "w_faults w' = []" "below (child (store_root s) i) q \<Longrightarrow> mget (w_fs w') q = mget (w_fs w) q"
    "transferDir s' j = transferDir s j"
  using assms by (simp_all add: twins_def same_config_def same_transfer_def transferDir_def)

lemma twins_other:
  assumes "twins i x (s, w)" "confined ids (s, w) (s', w')" "i \<notin> ids" "w_faults w' = []"
  shows "twins i x (s', w')"
  using assms below_child_other [of "store_root s" i _ _]
  by (cases x) (auto simp: twins_def confined_def same_config_def same_transfer_def, metis)

lemma twins_maps:
  assumes "twins i (s, w) (s', w')" "same_config s s1" "same_config s' s1'" "same_transfer i s1 s1'"
  shows "twins i (s1, w) (s1', w')"
  using assms by (simp add: twins_def same_config_def)

lemma WriteFile_twins:
  assumes "twins i (s, w) (s', w')"
  shows "fst (WriteFile (child (child (store_root s) i) n) d w') = fst (WriteFile (child (child (store_root s) i) n) d w)
    \<and> twins i (s, snd (WriteFile (child (child (store_root s) i) n) d w)) (s', snd (WriteFile (child (child (store_root s) i) n) d w'))"
  using assms
  by (auto simp: WriteFile_def Let_def twins_def parent_errno_def below_child_of split: option.splits node.splits)

lemma Rename_twins:
  assumes "twins i (s, w) (s', w')" "mget (w_fs w) p \<noteq> Some Dir"
    and p: "p = child (child (store_root s) i) n" "q = child (child (store_root s) i) k"
  shows "fst (Rename p q w') = fst (Rename p q w) \<and> twins i (s, snd (Rename p q w)) (s', snd (Rename p q w'))"
proof -
  let ?d = "child (store_root s) i"
  have b: "below ?d p" "below ?d q" "fs_get fs p = mget fs p" "fs_get fs q = mget fs q"
    "parent_errno fs q = (case mget fs ?d of Some Dir \<Rightarrow> None | Some (File _) \<Rightarrow> Some ENOTDIR | None \<Rightarrow> Some ENOENT)" for fs
    by (simp_all add: p parent_errno_def below_child_of)
  have same: "mget (w_fs w') p = mget (w_fs w) p" "mget (w_fs w') q = mget (w_fs w) q" "mget (w_fs w') ?d = mget (w_fs w) ?d"
    using twinsD(8) [OF assms(1)] b by simp_all
  show ?thesis
  proof (cases "\<exists>data. mget (w_fs w) p = Some (File data) \<and> mget (w_fs w) q \<noteq> Some Dir \<and> mget (w_fs w) ?d = Some Dir")
    case True
    then obtain data where data: "mget (w_fs w) p = Some (File data)" "mget (w_fs w) q \<noteq> Some Dir" "mget (w_fs w) ?d = Some Dir"
      by blast
    have "Rename p q v = (Inr (), v\<lparr>w_fs := mput q (File data) (mdel p (w_fs v))\<rparr>)" if "v \<in> {w, w'}" for v
      using that data same twinsD(6,7) [OF assms(1)] b by (intro Rename_ok) (auto simp: p)
    then show ?thesis using assms(1) by (simp add: twins_def)
  next
    case False
    then have "\<exists>e. Rename p q w = (Inl e, w) \<and> Rename p q w' = (Inl e, w')"
      using assms(2) same b twinsD(6,7) [OF assms(1)]
      by (cases "mget (w_fs w) p"; cases "mget (w_fs w) ?d")
         (auto simp: Rename_def Let_def split: option.splits node.splits)
    then show ?thesis using assms(1) by auto
  qed
qed

lemma MkdirAll_twins:
  assumes "twins i (s, w) (s', w')" "disk_inv s w" "disk_inv s' w'"
  shows "fst (MkdirAll (child (store_root s) i) w') = fst (MkdirAll (child (store_root s) i) w)
    \<and> twins i (s, snd (MkdirAll (child (store_root s) i) w)) (s', snd (MkdirAll (child (store_root s) i) w'))"
proof -
  have "store_root s' = store_root s" using twinsD(1) [OF assms(1)] by simp
  then have roots: "\<forall>q \<in> set (prefixes_of (store_root s)). mget (w_fs w) q = Some Dir \<and> mget (w_fs w') q = Some Dir"
    using assms(2,3) by (simp add: disk_inv_def)
  have "filter (\<lambda>q. mget fs q = None) (prefixes_of (store_root s)) = []"
    if "\<forall>q \<in> set (prefixes_of (store_root s)). mget fs q = Some Dir" for fs :: filesys
    using that by (simp add: filter_empty_conv)
  then show ?thesis using assms(1) roots
    by (auto simp: MkdirAll_def Let_def twins_def prefixes_of_child)
qed

lemma RemoveAll_twins:
  assumes "twins i (s, w) (s', w')"
  shows "twins i (s, snd (RemoveAll (child (store_root s) i) w)) (s', snd (RemoveAll (child (store_root s) i) w'))"
  using assms by (simp add: twins_def RemoveAll_ok)

text \<open>The calls a thread makes, with its own record.\<close>

lemma write_tmp_twins:
  assumes "twins i (s, w) (s', w')" "transferDir s i = child (store_root s) i" "TransferID m = i"
  shows "fst (write_tmp c s' m w') = fst (write_tmp c s m w) \<and> twins i (s, snd (write_tmp c s m w)) (s', snd (write_tmp c s' m w'))"
  using assms WriteFile_twins [OF assms(1), of "''meta.json.tmp''"] twinsD(9) [OF assms(1), of i]
  by (simp add: write_tmp_def path_simps split: option.split)

lemma rename_meta_twins:
  assumes "twins i (s, w) (s', w')" "transferDir s i = child (store_root s) i" "TransferID m = i"
    "mget (w_fs w) (child (child (store_root s) i) ''meta.json.tmp'') \<noteq> Some Dir"
  shows "fst (rename_meta s' m w') = fst (rename_meta s m w) \<and> twins i (s, snd (rename_meta s m w)) (s', snd (rename_meta s' m w'))"
  using assms Rename_twins [OF assms(1,4) refl refl, of "''meta.json''"] twinsD(9) [OF assms(1), of i]
  by (simp add: rename_meta_def path_simps)

lemma go_on_twins:
  assumes "fst rw' = fst rw \<and> twins i (s, snd rw) (s', snd rw')"
  shows "fst (go_on t s' rw') = fst (go_on t s rw) \<and> twins i (snd (go_on t s rw)) (snd (go_on t s' rw'))"
  using assms by (cases rw; cases rw') (simp add: go_on_def)

lemma forget_twins: "twins i (s, w) (s', w') \<Longrightarrow> twins i (forget i s, w) (forget i s', w')"
  by (erule twins_maps) (simp_all add: forget_def same_config_def same_transfer_def)

lemma enter_twins:
  assumes "twins i (s, w) (s', w')"
  shows "twins i (s\<lparr>meta := mput i m (meta s), received := mput i [] (received s)\<rparr>, w)
    (s'\<lparr>meta := mput i m (meta s'), received := mput i [] (received s')\<rparr>, w')"
  by (rule twins_maps [OF assms]) (use twinsD [OF assms] in \<open>simp_all add: same_config_def same_transfer_def\<close>)

lemma touch_twins:
  assumes "twins i (s, w) (s', w')"
  shows "twins i (s\<lparr>meta := mput i m (meta s)\<rparr>, w) (s'\<lparr>meta := mput i m (meta s')\<rparr>, w')"
  by (rule twins_maps [OF assms]) (use twinsD [OF assms] in \<open>simp_all add: same_config_def same_transfer_def\<close>)

lemma commit_twins:
  assumes "twins i (s, w) (s', w')"
  shows "twins i (writeChunk_commit m i k now s, w) (writeChunk_commit m i k now s', w')"
  by (rule twins_maps [OF assms])
     (use twinsD [OF assms] in \<open>simp_all add: writeChunk_commit_def Let_def same_config_def same_transfer_def\<close>)

lemma mark_twins:
  assumes "twins i (s, w) (s', w')"
  shows "fst (mark_served i k s') = fst (mark_served i k s)
    \<and> twins i (snd (mark_served i k s), w) (snd (mark_served i k s'), w')"
proof -
  note d = twinsD [OF assms]
  have "fst (mark_served i k s') = fst (mark_served i k s)"
    using d by (simp add: mark_served_def Let_def split: option.split)
  moreover have "twins i (snd (mark_served i k s), w) (snd (mark_served i k s'), w')"
    by (rule twins_maps [OF assms])
       (use d in \<open>auto simp: mark_served_def Let_def same_config_def same_transfer_def split: option.splits\<close>)
  ultimately show ?thesis ..
qed

subsection \<open>A step\<close>

lemma wc_step_twins:
  assumes tw: "twins (job_id job) (s, w) (s', w')" and td: "tidy (s, w)" and wf: "job_wf job"
  shows "fst (wc_step c now job (s', w')) = fst (wc_step c now job (s, w))
    \<and> twins (job_id job) (snd (wc_step c now job (s, w))) (snd (wc_step c now job (s', w')))"
proof -
  let ?i = "job_id job"
  have dir: "transferDir s ?i = child (store_root s) ?i" if "meta_wf ?i m" for m
    using that by (intro tidyD(6) [OF td]) (simp add: meta_wf_def)
  show ?thesis
  proof (cases "job_pc job")
    case (PcFile m)
    then show ?thesis
      using WriteFile_twins [OF tw, of "chunk_name (job_index job)" "job_data job"] dir [of m] wf twinsD(9) [OF tw, of ?i]
      by (auto simp: wc_step_def Let_def path_simps split: prod.splits sum.splits)
  next
    case (PcCommit m)
    then show ?thesis using commit_twins [OF tw] by (simp add: wc_step_def Let_def)
  next
    case (PcTmp m)
    then have "meta_wf ?i m" using wf by simp
    then show ?thesis
      using PcTmp write_tmp_twins [OF tw dir, of m m c] tw meta_wf_record [of ?i m]
      by (auto simp: wc_step_def Let_def write_tmp_def split: prod.splits sum.splits option.splits)
  next
    case (PcRename m)
    then have "meta_wf ?i m" using wf by simp
    then show ?thesis
      using PcRename rename_meta_twins [OF tw dir _ tidyD(5) [OF td], of m m] meta_wf_record [of ?i m]
      by (auto simp: wc_step_def Let_def rename_meta_def split: prod.splits)
  next
    case (PcDone r)
    then show ?thesis using tw by (simp add: wc_step_def)
  qed
qed

lemma begin_op_twins:
  assumes tw: "twins i (s, w) (s', w')" and id: "op_id op = Some i"
    and room: "\<And>j u r n share now. op = OpCreate j u r n share now \<Longrightarrow>
      senderCount s u < maxTransfersPerSender \<and> senderCount s' u < maxTransfersPerSender"
  shows "fst (begin_op iter op s') = fst (begin_op iter op s)
    \<and> twins i (snd (begin_op iter op s), w) (snd (begin_op iter op s'), w')"
proof (cases op)
  case (OpMarkServed j k)
  then show ?thesis using mark_twins [OF tw, of k] id
    by (cases "mark_served i k s"; cases "mark_served i k s'") simp
qed (use assms twinsD(3) [OF tw] touch_twins [OF tw] forget_twins [OF tw] in
      \<open>auto simp: wc_begin_def split: option.splits\<close>)

lemma thread_step_twins:
  assumes tw: "twins i (s, w) (s', w')" and td: "tidy (s, w)" "tidy (s', w')" and wf: "thread_wf t"
    and id: "thread_ids t \<subseteq> {i}"
    and room: "\<And>j u r n share now. t = Start (OpCreate j u r n share now) \<Longrightarrow>
      senderCount s u < maxTransfersPerSender \<and> senderCount s' u < maxTransfersPerSender"
  shows "fst (thread_step c iter t (s', w')) = fst (thread_step c iter t (s, w))
    \<and> twins i (snd (thread_step c iter t (s, w))) (snd (thread_step c iter t (s', w')))"
proof -
  have rec: "transferDir s i = child (store_root s) i \<and> TransferID m = i" if "record_wf m" "TransferID m = i" for m
    using that tidyD(6) [OF td(1)] record_wfD by blast
  note dir = tidyD(6) [OF td(1)] and same = twinsD(9) [OF tw]
  show ?thesis
  proof (cases t)
    case (Start op)
    have "op_id op = Some i"
    proof (cases "op_id op")
      case None
      then have "CHR 0x61 # i \<in> {i}" using id Start by (simp del: singleton_iff) blast
      then show ?thesis by simp
    qed (use id Start in auto)
    then show ?thesis using begin_op_twins [OF tw, of op iter] room Start by (auto split: prod.splits)
  next
    case (Upload job now)
    then show ?thesis using wc_step_twins [of job s w s' w' c now] tw td wf id by (auto split: prod.splits)
  next
    case (MakeDir m)
    then show ?thesis using go_on_twins [OF MkdirAll_twins [OF tw tidyD(3) [OF td(1)] tidyD(3) [OF td(2)]], of "MakeTmp m"]
        wf id rec [of m] same by simp
  next
    case (MakeTmp m)
    then show ?thesis using go_on_twins [OF write_tmp_twins [OF tw, of m c], of "MakeMeta m"] wf id rec [of m] by simp
  next
    case (MakeMeta m)
    then show ?thesis using go_on_twins [OF rename_meta_twins [OF tw _ _ tidyD(5) [OF td(1)], of m], of "Enter m"] wf id rec [of m] by simp
  next
    case (Enter m)
    then show ?thesis using enter_twins [OF tw] id by simp
  next
    case (TouchTmp m)
    then show ?thesis using go_on_twins [OF write_tmp_twins [OF tw, of m c], of "TouchMeta m"] wf id rec [of m] by simp
  next
    case (TouchMeta m)
    then show ?thesis using go_on_twins [OF rename_meta_twins [OF tw _ _ tidyD(5) [OF td(1)], of m], of Finished] wf id rec [of m] by simp
  next
    case (Forget ids)
    then show ?thesis using forget_twins [OF tw] tw id by (cases ids) auto
  next
    case (Purge j rest)
    then show ?thesis using RemoveAll_twins [OF tw] dir same wf id by simp
  next
    case Finished
    then show ?thesis using tw by simp
  qed
qed

subsection \<open>Any interleaving\<close>

text \<open>How many transfers a sender can gain where only some ids are worked on.\<close>

lemma senderCount_card:
  assumes "keys_distinct (meta s)"
  shows "senderCount s u = card {k. \<exists>m. mget (meta s) k = Some m \<and> From m = u}"
proof -
  have "senderCount s u = length (map fst (filter (\<lambda>(k, m). From m = u) (meta s)))"
    by (simp add: senderCount_def count_vals_def)
  also have "\<dots> = card (set (map fst (filter (\<lambda>(k, m). From m = u) (meta s))))"
    by (rule distinct_card [symmetric], rule distinct_map_filter [OF assms])
  also have "set (map fst (filter (\<lambda>(k, m). From m = u) (meta s))) = {k. \<exists>m. mget (meta s) k = Some m \<and> From m = u}"
    using mget_Some_set [OF assms] by force
  finally show ?thesis .
qed

lemma senderCount_gain:
  assumes "tidy (s, w)" "tidy (s', w')" "confined ids (s, w) (s', w')" "finite ids"
  shows "senderCount s' u \<le> senderCount s u + card ids"
proof -
  let ?of = "\<lambda>s. {k. \<exists>m. mget (meta s) k = Some m \<and> From m = u}"
  have fin: "finite (?of s)" for s
    by (rule finite_subset [of _ "fst ` set (meta s)"]) (auto dest: map_of_SomeD intro: rev_image_eqI)
  have "?of s' \<subseteq> ?of s \<union> ids" using assms(3) by (auto simp: confined_def same_transfer_def)
  then have "card (?of s') \<le> card (?of s) + card ids"
    using card_mono [of "?of s \<union> ids" "?of s'"] card_Un_le [of "?of s" ids] fin [of s] assms(4) by simp
  then show ?thesis using assms(1,2) by (simp add: tidy_def senderCount_card)
qed

text \<open>A thread of the run is where it would be after some steps alone, from \<open>x0\<close>.\<close>

definition follows :: "meta_codec \<Rightarrow> (string list \<Rightarrow> string list) \<Rightarrow> state \<Rightarrow> store_op \<Rightarrow> thread \<Rightarrow> state \<Rightarrow> bool" where
  "follows c iter x0 op t x \<longleftrightarrow> (\<exists>i k y. op_id op = Some i \<and> thread_steps c iter k (Start op) x0 = (t, y) \<and> tidy y \<and> thread_wf t
     \<and> thread_ids t \<subseteq> {i} \<and> (\<forall>op'. t = Start op' \<longrightarrow> op' = op) \<and> twins i y x \<and> confined {i} x0 y)"

definition room_to_create :: "store_op list \<Rightarrow> store \<Rightarrow> bool" where
  "room_to_create ops s \<longleftrightarrow> (\<forall>op \<in> set ops. case op of
     OpCreate i u r n share now \<Rightarrow> senderCount s u + length ops < maxTransfersPerSender | _ \<Rightarrow> True)"

lemma follows_start:
  assumes "tidy x" "w_faults (snd x) = []" "op_wf op" "op_id op = Some i"
  shows "follows c iter x op (Start op) x"
  unfolding follows_def using assms twins_refl [of x i]
  by (intro exI [of _ i] exI [of _ 0] exI [of _ x]) simp

lemma follows_other:
  assumes "follows c iter x0 op t x" "confined ids x x'" "\<forall>i \<in> ids. op_id op \<noteq> Some i" "w_faults (snd x') = []"
  shows "follows c iter x0 op t x'"
proof -
  obtain i k y where f: "op_id op = Some i" "thread_steps c iter k (Start op) x0 = (t, y)" "tidy y" "thread_wf t"
    "thread_ids t \<subseteq> {i}" "\<forall>op'. t = Start op' \<longrightarrow> op' = op" "twins i y x" "confined {i} x0 y"
    using assms(1) unfolding follows_def by blast
  have "i \<notin> ids" using assms(3) f(1) by blast
  then have "twins i y x'" using twins_other [of i y "fst x" "snd x" ids "fst x'" "snd x'"] f(7) assms(2,4) by simp
  then show ?thesis unfolding follows_def using f(1-6,8) by blast
qed

lemma follows_step:
  assumes f: "follows c iter x0 op t x" and td: "tidy x0" "tidy x" and step: "thread_step c iter t x = (t', x')"
    and room: "room_to_create ops (fst x0)" "op \<in> set ops" and cf: "confined ids x0 x" "finite ids" "card ids \<le> length ops"
  shows "follows c iter x0 op t' x' \<and> w_faults (snd x') = [] \<and> (\<exists>i. op_id op = Some i \<and> confined {i} x x')"
proof -
  obtain i k y where f: "op_id op = Some i" "thread_steps c iter k (Start op) x0 = (t, y)" "tidy y" "thread_wf t"
    "thread_ids t \<subseteq> {i}" "\<forall>op'. t = Start op' \<longrightarrow> op' = op" "twins i y x" "confined {i} x0 y"
    using f unfolding follows_def by blast
  obtain s0 w0 s w s1 w1 where x: "x0 = (s0, w0)" "x = (s, w)" "y = (s1, w1)" by (metis prod.exhaust)
  obtain t1 y' where alone: "thread_step c iter t y = (t1, y')" by (rule prod.exhaust)
  have "senderCount s1 u < maxTransfersPerSender \<and> senderCount s u < maxTransfersPerSender"
    if "t = Start (OpCreate j u r n share now)" for j u r n share now
  proof -
    have b: "senderCount s0 u + length ops < maxTransfersPerSender" "0 < length ops"
      using room that f(6) by (auto simp: room_to_create_def x)
    have "senderCount s1 u \<le> senderCount s0 u + 1" "senderCount s u \<le> senderCount s0 u + card ids"
      using senderCount_gain [of s0 w0 s1 w1 "{i}" u] senderCount_gain [of s0 w0 s w ids u] td f(3,8) cf by (simp_all add: x)
    then show ?thesis using b cf(3) by linarith
  qed
  then have tw: "t1 = t' \<and> twins i y' x'"
    using thread_step_twins [of i s1 w1 s w t c iter] f td alone step by (simp add: x)
  note ky = thread_step_keeps [OF f(3,4) alone]
  note kx = thread_step_keeps [OF td(2) f(4) step]
  have "thread_steps c iter (k + 1) (Start op) x0 = (t', y')"
    using thread_steps_add [of c iter k 1 "Start op" x0] f(2) alone tw by (simp del: thread_steps.simps(2)) simp
  moreover have "\<forall>op'. t' = Start op' \<longrightarrow> op' = op"
    using thread_step_less [OF step] thread_step_finished [of t c iter x] step f(6) by fastforce
  moreover have "confined {i} x0 y'" using f(5,8) ky confined_mono confined_trans by metis
  ultimately have "follows c iter x0 op t' x'"
    unfolding follows_def using f(1,5) ky kx tw by (intro exI [of _ i] exI [of _ "k + 1"] exI [of _ y']) auto
  moreover have "w_faults (snd x') = []" using tw by (cases y'; cases x') (simp add: twins_def)
  moreover have "confined {i} x x'" using f(5) kx confined_mono by metis
  ultimately show ?thesis using f(1) by blast
qed

lemma run_threads_follow:
  "run_threads c iter sched (ts, x) = (ts', x') \<Longrightarrow> tidy x \<Longrightarrow> confined ids x0 x \<Longrightarrow>
     list_all2 (\<lambda>op t. follows c iter x0 op t x) ops ts \<Longrightarrow> tidy x0 \<Longrightarrow> room_to_create ops (fst x0) \<Longrightarrow>
     distinct (map op_id ops) \<Longrightarrow> finite ids \<Longrightarrow> card ids \<le> length ops \<Longrightarrow> \<forall>op \<in> set ops. \<exists>i \<in> ids. op_id op = Some i \<Longrightarrow>
     list_all2 (\<lambda>op t. follows c iter x0 op t x') ops ts'"
proof (induction c iter sched "(ts, x)" arbitrary: ts x rule: run_threads.induct)
  case (2 c iter n sched ts x)
  show ?case
  proof (cases "may_run ts n")
    case True
    have len: "length ts = length ops" using "2.prems"(4) by (simp add: list_all2_lengthD)
    then have n: "n < length ops" using True by (simp add: may_run_def)
    obtain t z where st: "thread_step c iter (ts ! n) x = (t, z)" by (rule prod.exhaust)
    have f: "follows c iter x0 (ops ! k) (ts ! k) x" if "k < length ops" for k
      using "2.prems"(4) that by (simp add: list_all2_conv_all_nth)
    obtain i where i: "follows c iter x0 (ops ! n) t z" "w_faults (snd z) = []" "op_id (ops ! n) = Some i" "confined {i} x z"
      using follows_step [OF f [OF n] "2.prems"(5,2) st "2.prems"(6) _ "2.prems"(3,8,9)] n by auto
    have "op_id (ops ! k) \<noteq> Some i" if "k < length ops" "k \<noteq> n" for k
      using "2.prems"(7) that n i(3) nth_eq_iff_index_eq [of "map op_id ops" k n] by auto
    then have "follows c iter x0 (ops ! k) (ts[n := t] ! k) z" if "k < length ops" for k
      using that i follows_other [OF f [OF that] i(4)] len by (cases "k = n") auto
    then have "list_all2 (\<lambda>op t. follows c iter x0 op t z) ops (ts[n := t])"
      using len by (simp add: list_all2_conv_all_nth)
    moreover have "tidy z"
    proof -
      have "thread_wf (ts ! n)" using f [OF n] by (auto simp: follows_def)
      then show ?thesis using thread_step_keeps [OF "2.prems"(2) _ st] by blast
    qed
    moreover have "i \<in> ids" using "2.prems"(10) n i(3) by (metis nth_mem option.inject)
    then have "confined ids x0 z" using "2.prems"(3) confined_mono [OF i(4), of ids] confined_trans by blast
    moreover have "run_threads c iter sched (ts[n := t], z) = (ts', x')" using "2.prems"(1) True st by simp
    ultimately show ?thesis using "2.hyps"(1) [OF True st [symmetric]] "2.prems"(5-10) by blast
  qed (use 2 in simp)
qed simp

text \<open>A thread alone ends in one way.\<close>

lemma thread_steps_finished: "finished t \<Longrightarrow> thread_steps c iter n t x = (t, x)"
  by (induction n) (simp_all add: thread_step_finished)

lemma alone_unique:
  assumes "thread_steps c iter k (Start op) x = (t, y)" "finished t"
  shows "y = store_step c iter op x"
proof -
  obtain n t' where n: "thread_steps c iter n (Start op) x = (t', store_step c iter op x)" "finished t'"
    using thread_alone by blast
  have "thread_steps c iter (k + n) (Start op) x = (t, y)" "thread_steps c iter (n + k) (Start op) x = (t', store_step c iter op x)"
    using thread_steps_add [of c iter k n] thread_steps_add [of c iter n k] assms n by (simp_all add: thread_steps_finished)
  then show ?thesis by (simp add: add.commute)
qed

lemma twins_abs:
  assumes "twins i (s, w) (s', w')" "tidy (s, w)"
  shows "abs_state (s', w') i = abs_state (s, w) i"
proof (rule abs_state_local)
  show "mget (meta s) i \<noteq> None \<Longrightarrow> transferDir s i = child (store_root s) i"
    using tidyD(2,6) [OF assms(2)] by (auto simp: meta_wf_def)
qed (use assms(1) in \<open>simp_all add: twins_def same_config_def\<close>)

end
