(* ===== verification/ThreadProps.thy ===== *)
theory ThreadProps
  imports Parallel DispatchProps RaceProps
begin

text \<open>
  The properties of the store's operations run at once: alone a thread is its operation; whatever
  threads interleave, the disk outside the transfers they work on is as it was; all of them finish; and
  two interleavings of a deletion with a creation of the same id that lose a transfer.
\<close>

subsection \<open>On a disk that works\<close>

lemma live_tidy:
  assumes "live c (s, w)"
  shows "tidy (s, w\<lparr>w_faults := faults\<rparr>)"
proof -
  have l: "state_inv (s, w)" "\<And>i. exact_at c (s, w) i" "\<And>i m. mget (meta s) i = Some m \<Longrightarrow> meta_wf i m"
    using assms store_inv_meta by (auto simp: live_def exact_def state_inv_def)
  have "mget (w_fs w) (child (child (store_root s) i) n) \<noteq> Some Dir" for i n
  proof (cases "mget (meta s) i")
    case None
    then show ?thesis using l(2) [of i] by (simp add: exact_at_def below_child_of)
  next
    case (Some m)
    then show ?thesis
      using exact_no_dirs(1) [OF l(1) l(2) Some, of n] store_inv_transferDir [OF _ Some] l(1) by (simp add: state_inv_def)
  qed
  then show ?thesis using l(1,3) by (simp add: tidy_def state_inv_def store_inv_def disk_inv_def)
qed

lemma live_faultless: "live c (s, w) \<Longrightarrow> w\<lparr>w_faults := []\<rparr> = w \<and> w_faults w = [] \<and> codec_total c"
  by (simp add: live_def exact_def)

text \<open>A creation succeeds unless a file has the name of its directory.\<close>

lemma install_works:
  assumes t: "tidy (s, w)" and nf: "w_faults w = []" and c: "codec_total c" and v: "validTransferID (TransferID m)"
    and d: "mget (w_fs w) (child (store_root s) (TransferID m)) \<in> {None, Some Dir}"
  shows "fst (install_transfer c m s w) = Inr ()"
proof -
  let ?d = "child (store_root s) (TransferID m)"
  have dir: "transferDir s (TransferID m) = ?d" using tidyD(6) [OF t v] .
  have "\<forall>q \<in> set (prefixes_of ?d). mget (w_fs w) q = None \<or> mget (w_fs w) q = Some Dir"
    using tidyD(3) [OF t] d by (auto simp: prefixes_of_child disk_inv_def)
  then obtain w1 where mk: "MkdirAll ?d w = (Inr (), w1)" using nf by (fastforce simp: MkdirAll_def Let_def next_fault_def)
  have t1: "tidy (s, w1)" using tidy_mkdir [OF t v] mk by (simp add: dir)
  have nf1: "w_faults w1 = []" using no_faults(3) [OF nf, of ?d] mk by simp
  have "\<exists>w2. writeMeta c s m w1 = (Inr (), w2)"
    using nf1 c MkdirAll_made [OF _ mk] tidyD(5) [OF t1] by (intro writeMeta_ok) (simp_all add: dir path_simps)
  then show ?thesis using mk by (auto simp: install_transfer_def dir)
qed

lemma one_chunk_others: "senderCount (fst one_chunk) ''x'' < maxTransfersPerSender"
proof -
  have "senderCount (fst one_chunk) ''x'' = 0" by code_simp
  then show ?thesis by (simp add: maxTransfersPerSender_def)
qed

subsection \<open>Turns in a row\<close>

lemma run_alone:
  assumes "n < length ts" "\<forall>k < length ts. k \<noteq> n \<longrightarrow> \<not> holds_lock (ts ! k)"
  shows "run_threads c iter (replicate k n) (ts, x) = (case thread_steps c iter k (ts ! n) x of (t, y) \<Rightarrow> (ts[n := t], y))"
  using assms
proof (induction k arbitrary: ts x)
  case (Suc k)
  obtain t y where st: "thread_step c iter (ts ! n) x = (t, y)" by (rule prod.exhaust)
  have "may_run ts n" using Suc.prems by (simp add: may_run_def)
  moreover have "run_threads c iter (replicate k n) (ts[n := t], y)
      = (case thread_steps c iter k t y of (t, z) \<Rightarrow> (ts[n := t], z))"
    using Suc.IH [of "ts[n := t]" y] Suc.prems by simp
  ultimately show ?case using st by simp
qed simp

text \<open>A creation alone, on a disk that works.\<close>

lemma create_works:
  assumes t: "tidy (s, w)" and nf: "w_faults w = []" and c: "codec_total c" and v: "validTransferID i"
    and d: "mget (w_fs w) (child (store_root s) i) \<in> {None, Some Dir}"
    and room: "mget (meta s) i = None" "senderCount s u < maxTransfersPerSender"
  shows "\<exists>w'. thread_steps c iter 5 (Start (OpCreate i u r n share now)) (s, w) = (Finished,
      (s\<lparr>meta := mput i (direct_meta i u r n share now) (meta s), received := mput i [] (received s)\<rparr>, w'))
    \<and> w_faults w' = []"
proof -
  let ?m = "direct_meta i u r n share now"
  let ?s = "s\<lparr>meta := mput i ?m (meta s), received := mput i [] (received s)\<rparr>"
  have id: "TransferID ?m = i" by (simp add: direct_meta_def)
  have ok: "fst (install_transfer c ?m s w) = Inr ()" using install_works [OF t nf c, of ?m] v d by (simp add: id)
  obtain r1 w1 where 1: "MkdirAll (transferDir s i) w = (r1, w1)" by (rule prod.exhaust)
  obtain r2 w2 where 2: "write_tmp c s ?m w1 = (r2, w2)" by (rule prod.exhaust)
  obtain r4 w4 where 4: "rename_meta s ?m w2 = (r4, w4)" by (rule prod.exhaust)
  have "w_faults w1 = []" using no_faults(3) [OF nf, of "transferDir s i"] by (simp add: 1)
  then have "w_faults (snd (writeMeta c s ?m w1)) = []" by (rule writeMeta_no_faults)
  moreover have "r1 = Inr ()" "r2 = Inr ()" "r4 = Inr ()"
    using ok by (auto simp: install_transfer_def id 1 writeMeta_halves 2 4 split: sum.splits)
  ultimately have "thread_steps c iter 4 (MakeDir ?m) (s, w) = (Finished, (?s, w4))" "w_faults w4 = []"
    by (simp_all add: 1 2 4 eval_nat_numeral writeMeta_halves go_on_def id)
  then show ?thesis
    using thread_steps_add [of c iter 1 4 "Start (OpCreate i u r n share now)" "(s, w)"] v room by simp
qed

text \<open>What no operation is about stays.\<close>

lemma run_spares:
  assumes "live c (s, w)" "list_all op_wf ops"
    "run_threads c iter sched (map Start ops, (s, w\<lparr>w_faults := faults\<rparr>)) = (ts, x)"
    "\<forall>op \<in> set ops. \<exists>i. op_id op = Some i \<and> i \<noteq> j"
  shows "abs_state x j = abs_state (s, w) j"
proof -
  define ids where "ids = \<Union> (thread_ids ` set (map Start ops))"
  obtain s' w' where x: "x = (s', w')" by (rule prod.exhaust)
  have "list_all thread_wf (map Start ops)" using assms(2) by (simp add: list_all_iff)
  then have cf: "confined ids (s, w\<lparr>w_faults := faults\<rparr>) (s', w')"
    using run_threads_keeps [OF assms(3) live_tidy [OF assms(1)]] by (simp add: ids_def x)
  have j: "j \<notin> ids" using assms(4) by (fastforce simp: ids_def)
  have "state_inv (s, w)" using assms(1) by (simp add: live_def)
  then show ?thesis unfolding x
  proof (rule abs_state_frame)
    show "same_transfer j s s'" "dataDir s' = dataDir s" using cf j by (simp_all add: confined_def same_config_def)
    fix q assume "below (child (store_root s) j) q"
    then have "\<forall>i \<in> ids. \<not> below (child (store_root s) i) q" using below_child_other j by metis
    then show "mget (w_fs w') q = mget (w_fs w) q" using cf by (simp add: confined_def)
  qed
qed

lemma threads_config:
  assumes "run_threads c iter sched (map Start ops, x) = (ts, y)" "tidy x" "list_all op_wf ops"
  shows "same_config (fst x) (fst y)"
proof -
  have "list_all thread_wf (map Start ops)" using assms(3) by (simp add: list_all_iff)
  then show ?thesis using run_threads_keeps [OF assms(1,2)] by (cases x; cases y) (simp add: confined_def)
qed

lemma forget_none [simp]: "mget (meta (forget i s)) i = None" "store_root (forget i s) = store_root s"
  by (simp_all add: forget_def)

subsection \<open>The properties\<close>






text \<open>C0: (equivalence) Operations on different transfers do not disturb each other. Run creations, touches, uploads,
  deletions and downloads of links at once, each about another transfer, on a disk that works and with room under the
  cap for what is created: when all threads are done, memory and disk have of each of these transfers exactly what its
  operation makes of it when it runs alone, and of every other transfer what was there.\<close>

theorem threads_do_not_interfere:
  assumes lv: "live c (s, w)" and ops: "list_all op_wf ops" "distinct (map op_id ops)" "None \<notin> set (map op_id ops)"
    and room: "room_to_create ops s" and run: "run_threads c iter sched (map Start ops, (s, w)) = (ts, x)"
    and fin: "list_all finished ts"
  shows "(\<forall>op \<in> set ops. \<forall>i. op_id op = Some i \<longrightarrow> twins i (store_step c iter op (s, w)) x
        \<and> abs_state x i = abs_state (store_step c iter op (s, w)) i)
    \<and> (\<forall>j. (\<forall>op \<in> set ops. op_id op \<noteq> Some j) \<longrightarrow> abs_state x j = abs_state (s, w) j)"
proof -
  define ids where "ids = {i. Some i \<in> op_id ` set ops}"
  have "op_id ` set ops = Some ` ids" using ops(3) by (auto simp: ids_def image_iff) (metis option.exhaust)
  then have ids: "finite ids" "card ids \<le> length ops" "\<forall>op \<in> set ops. \<exists>i \<in> ids. op_id op = Some i"
    using card_image [of Some ids] card_length [of "map op_id ops"] finite_imageD [of Some ids]
      finite_imageI [OF finite_set, of op_id ops] by auto
  have td: "tidy (s, w)" and nf: "w_faults w = []"
    using live_tidy [OF lv, of "[]"] live_faultless [OF lv] by simp_all
  have "list_all2 (\<lambda>op t. follows c iter (s, w) op t (s, w)) ops (map Start ops)"
    using ops(1) ids(3) nf follows_start [OF td] by (fastforce simp: list_all2_conv_all_nth list_all_length)
  then have f: "list_all2 (\<lambda>op t. follows c iter (s, w) op t x) ops ts"
    using run_threads_follow [OF run td _ _ td _ ops(2) ids] room by simp
  have "twins i (store_step c iter op (s, w)) x \<and> tidy (store_step c iter op (s, w))" if op: "op \<in> set ops" "op_id op = Some i" for op i
  proof -
    obtain n where n: "n < length ops" "op = ops ! n" using op(1) by (metis in_set_conv_nth)
    then have n: "follows c iter (s, w) op (ts ! n) x" "finished (ts ! n)"
      using f fin by (auto simp: list_all2_conv_all_nth list_all_length)
    then obtain k y where k: "thread_steps c iter k (Start op) (s, w) = (ts ! n, y)" "tidy y" "twins i y x"
      using op(2) unfolding follows_def by auto
    show ?thesis using k alone_unique [OF k(1) n(2)] by simp
  qed
  moreover have "abs_state x i = abs_state y i" if "twins i y x" "tidy y" for i y
    using twins_abs [of i "fst y" "snd y" "fst x" "snd x"] that by simp
  moreover have "abs_state x j = abs_state (s, w) j" if "\<forall>op \<in> set ops. op_id op \<noteq> Some j" for j
  proof (rule run_spares [OF lv ops(1)])
    show "run_threads c iter sched (map Start ops, (s, w\<lparr>w_faults := []\<rparr>)) = (ts, x)" using run live_faultless [OF lv] by simp
    show "\<forall>op \<in> set ops. \<exists>i. op_id op = Some i \<and> i \<noteq> j" using ids(3) that by blast
  qed
  ultimately show ?thesis by blast
qed

text \<open>An upload and a creation.\<close>

theorem threads_do_not_interfere_witness:
  "\<exists>K ts x. run_threads sample_codec (\<lambda>ks. ks) (map (\<lambda>k. k mod 2) [0..<K])
        (map Start [OpWriteChunk ''t'' 0 [7] 60, OpCreate ''n'' ''u'' ''w'' 1 False 6], one_chunk) = (ts, x)
    \<and> abs_state x ''t'' = abs_state (store_step sample_codec (\<lambda>ks. ks) (OpWriteChunk ''t'' 0 [7] 60) one_chunk) ''t''
    \<and> abs_state x ''n'' = abs_state (store_step sample_codec (\<lambda>ks. ks) (OpCreate ''n'' ''u'' ''w'' 1 False 6) one_chunk) ''n''"
proof -
  let ?ops = "[OpWriteChunk ''t'' 0 [7] 60, OpCreate ''n'' ''u'' ''w'' 1 False 6]"
  obtain s w where x: "one_chunk = (s, w)" by (rule prod.exhaust)
  have lv: "live sample_codec (s, w)" using one_chunk_live by (simp add: x)
  have "fair (\<lambda>k. k mod 2) (length (map Start ?ops))" using fair_turns [of 2] by (simp add: numeral_2_eq_2)
  then obtain K where fin: "list_all finished (fst (run_threads sample_codec (\<lambda>ks. ks) (map (\<lambda>k. k mod 2) [0..<K]) (map Start ?ops, (s, w))))"
    using fair_finish [OF _ one_holder_start] by blast
  obtain ts y where run: "run_threads sample_codec (\<lambda>ks. ks) (map (\<lambda>k. k mod 2) [0..<K]) (map Start ?ops, (s, w)) = (ts, y)"
    by (rule prod.exhaust)
  have "senderCount (fst one_chunk) ''u'' = 1" by code_simp
  then have "room_to_create ?ops s" by (simp add: room_to_create_def x maxTransfersPerSender_def)
  moreover have "list_all op_wf ?ops" "distinct (map op_id ?ops)" "None \<notin> set (map op_id ?ops)" by code_simp+
  moreover have "list_all finished ts" using fin run by simp
  ultimately have r: "\<forall>op \<in> set ?ops. \<forall>i. op_id op = Some i \<longrightarrow> abs_state y i = abs_state (store_step sample_codec (\<lambda>ks. ks) op (s, w)) i"
    using threads_do_not_interfere [OF lv _ _ _ _ run] by blast
  show ?thesis unfolding x by (intro exI conjI, rule run) (use r in simp_all)
qed

text \<open>C19: (liveness) No deadlock and no endless waiting. However the operations interleave, if every goroutine gets
  its turn again and again, all of them finish: the mutex always comes free, and a sweep deletes a finite list.\<close>

theorem threads_finish:
  assumes "fair f (length ops)"
  shows "\<exists>K. list_all finished (fst (run_threads c iter (map f [0..<K]) (map Start ops, x)))"
  by (rule fair_finish) (use assms in simp_all)

theorem threads_finish_witness:
  "\<exists>K. list_all finished (fst (run_threads sample_codec (\<lambda>ks. ks) (map (\<lambda>k. k mod 2) [0..<K])
      (map Start [OpWriteChunk ''t'' 0 [7] 60, OpSweep 99], one_chunk)))"
proof (rule threads_finish)
  show "fair (\<lambda>k. k mod 2) (length [OpWriteChunk ''t'' 0 [7] 60, OpSweep 99])"
    using fair_turns [of 2] by (simp add: numeral_2_eq_2)
qed

subsection \<open>Two more races\<close>

lemma thread_upload_file:
  assumes "ready i m (s, w)" "0 \<le> k" "k < TotalChunks m"
  shows "\<exists>job w1. thread_steps c iter 2 (Start (OpWriteChunk i k d now)) (s, w) = (Upload job now, (s, w1))
    \<and> job_pc job = PcCommit m \<and> job_id job = i \<and> job_index job = k \<and> w_faults w1 = []"
proof -
  let ?p = "child (child (store_root s) i) (chunk_name k)"
  have r: "state_inv (s, w)" "w_faults w = []" "mget (meta s) i = Some m"
    "mget (w_fs w) (child (store_root s) i) = Some Dir"
    "\<And>n. mget (w_fs w) (child (child (store_root s) i) n) \<noteq> Some Dir"
    using assms(1) by (simp_all add: ready_def)
  have "transferDir s i = child (store_root s) i" using r(1,3) store_inv_transferDir by (simp add: state_inv_def)
  moreover have "WriteFile ?p d w = (Inr (), w\<lparr>w_fs := mput ?p (File d) (w_fs w)\<rparr>)"
    using r by (intro WriteFile_ok) (simp_all add: fs_get_def)
  ultimately show ?thesis using r(2,3) assms(2,3)
    by (simp add: eval_nat_numeral wc_begin_def wc_step_def path_simps)
qed

lemma purge_works:
  assumes "w_faults w = []" "transferDir s i = child (store_root s) i"
  shows "\<exists>w1. thread_steps c iter 1 (Purge i []) (s, w) = (Finished, (s, w1)) \<and> w_faults w1 = []
    \<and> (\<forall>q. below (child (store_root s) i) q \<longrightarrow> mget (w_fs w1) q = None)"
  using RemoveAll_ok [OF assms(1), of "child (store_root s) i"] assms by (simp add: forget_next_def)

text \<open>An upload that has written its file, and then a deletion of its transfer.\<close>

lemma upload_then_delete:
  assumes lv: "live c (s, w)" and m: "getMeta s i = Some m" "0 \<le> k" "k < TotalChunks m" and t: "\<not> holds_lock t"
  obtains job w' where "run_threads c iter (replicate 2 0 @ replicate 2 1) ([Start (OpWriteChunk i k d t1), Start (OpDelete i), t], (s, w))
      = ([Upload job t1, Finished, t], (forget i s, w'))"
    "job_pc job = PcCommit m" "job_id job = i" "job_index job = k" "tidy (forget i s, w')" "w_faults w' = []"
    "mget (w_fs w') (child (store_root s) i) = None"
proof -
  have td: "tidy (s, w)" using live_tidy [OF lv, of "[]"] live_faultless [OF lv] by simp
  have v: "validTransferID i" using tidyD(2) [OF td, of i m] m(1) by (simp add: getMeta_def meta_wf_def)
  obtain job w1 where job: "thread_steps c iter 2 (Start (OpWriteChunk i k d t1)) (s, w) = (Upload job t1, (s, w1))"
    "job_pc job = PcCommit m" "job_id job = i" "job_index job = k" "w_faults w1 = []"
    using thread_upload_file [OF ready_live [OF lv m(1)] m(2,3)] by blast
  have 1: "run_threads c iter (replicate 2 0) ([Start (OpWriteChunk i k d t1), Start (OpDelete i), t], (s, w))
      = ([Upload job t1, Start (OpDelete i), t], (s, w1))"
    using run_alone [of 0 "[Start (OpWriteChunk i k d t1), Start (OpDelete i), t]" c iter 2 "(s, w)"] job t
    by (simp add: nth_Cons split: nat.split)
  have "thread_step c iter (Upload (wc_begin i k d s) t1) (s, w) = (Upload job t1, (s, w1))"
    using job(1) by (simp add: eval_nat_numeral split: prod.splits)
  then have "tidy (s, w1)" using td thread_step_keeps wc_begin_wf by (metis thread_wf.simps(2))
  then have t1: "tidy (forget i s, w1)" using tidy_forget by simp
  obtain w2 where w2: "thread_steps c iter 1 (Purge i []) (forget i s, w1) = (Finished, (forget i s, w2))"
    "w_faults w2 = []" "mget (w_fs w2) (child (store_root (forget i s)) i) = None"
    using purge_works [OF job(5) tidyD(6) [OF t1 v], of c iter] by auto
  have t2: "tidy (forget i s, w2)"
    using thread_step_keeps [OF t1, of "Purge i []" c iter] w2(1) v by (simp split: prod.splits)
  have "thread_steps c iter 2 (Start (OpDelete i)) (s, w1) = (Finished, (forget i s, w2))"
    using thread_steps_add [of c iter 1 1 "Start (OpDelete i)" "(s, w1)"] w2(1) by (simp add: numeral_2_eq_2)
  then have "run_threads c iter (replicate 2 1) ([Upload job t1, Start (OpDelete i), t], (s, w1))
      = ([Upload job t1, Finished, t], (forget i s, w2))"
    using run_alone [of 1 "[Upload job t1, Start (OpDelete i), t]" c iter 2 "(s, w1)"] t
    by (simp add: nth_Cons split: nat.split)
  with 1 job(2-4) t2 w2(2,3) show ?thesis by (intro that) (simp_all only: run_threads_append forget_none)
qed

lemma writeChunk_no_dir:
  assumes "w_faults w = []" "transferDir s i = child (store_root s) i" "mget (w_fs w) (child (store_root s) i) = None"
  shows "\<not> is_ok (fst (writeChunk c i k d now s w))"
proof -
  have "parent_errno (w_fs w) (child (child (store_root s) i) (chunk_name k)) = Some ENOENT"
    using assms(3) by (simp add: parent_errno_def)
  then have "WriteFile (chunk_path (transferDir s i) k) d w
      = (Inl (PathError ''open'' (chunk_path (transferDir s i) k) ENOENT), w)"
    using assms by (simp add: WriteFile_def Let_def path_simps next_fault_def)
  then show ?thesis by (simp add: writeChunk_def writeChunk_file_def split: option.split)
qed

text \<open>C37: (safety) A transfer taken back. An upload has written its chunk's file when the recipient's deletion runs, and
  then another identity creates a transfer with the freed id: the creation succeeds, but the upload's commit then
  stores the record it read at its start, so the id belongs to the former sender and recipient again.\<close>

theorem stale_upload_takes_over:
  assumes lv: "live c (s, w)" and m: "getMeta s i = Some m" "0 \<le> k" "k < TotalChunks m"
    and room: "senderCount s u < maxTransfersPerSender"
  shows "\<exists>ts x ts' y. run_threads c iter (replicate 2 0 @ replicate 2 1 @ replicate 5 2)
        (map Start [OpWriteChunk i k d t1, OpDelete i, OpCreate i u r n share t2], (s, w)) = (ts, x)
    \<and> ts ! 1 = Finished \<and> ts ! 2 = Finished \<and> getMeta (fst x) i = Some (direct_meta i u r n share t2)
    \<and> run_threads c iter [0] (ts, x) = (ts', y) \<and> getMeta (fst y) i = Some (m\<lparr>TouchedAt := t1\<rparr>)"
proof -
  let ?ops = "[OpWriteChunk i k d t1, OpDelete i, OpCreate i u r n share t2]"
  let ?new = "Start (OpCreate i u r n share t2)" and ?m = "direct_meta i u r n share t2"
  have v: "validTransferID i"
    using tidyD(2) [OF live_tidy [OF lv, of "[]"], of i m] m(1) by (simp add: getMeta_def meta_wf_def)
  have nl: "\<not> holds_lock ?new" by simp
  obtain job w2 where 1: "run_threads c iter (replicate 2 0 @ replicate 2 1)
      ([Start (OpWriteChunk i k d t1), Start (OpDelete i), ?new], (s, w)) = ([Upload job t1, Finished, ?new], (forget i s, w2))"
    and job: "job_pc job = PcCommit m" "job_id job = i" "job_index job = k"
    and w2: "tidy (forget i s, w2)" "w_faults w2 = []" "mget (w_fs w2) (child (store_root s) i) = None"
    by (rule upload_then_delete [OF lv m nl])
  obtain z where cr: "thread_steps c iter 5 ?new (forget i s, w2) = (Finished, z)" "mget (meta (fst z)) i = Some ?m"
    using create_works [OF w2(1,2) _ v, of c u iter r n share t2] live_faultless [OF lv] w2(3) room
      senderCount_forget [of i s u] by auto
  have 2: "run_threads c iter (replicate 5 2) ([Upload job t1, Finished, ?new], (forget i s, w2))
      = ([Upload job t1, Finished, Finished], z)"
    using run_alone [of 2 "[Upload job t1, Finished, ?new]" c iter 5 "(forget i s, w2)"] cr(1)
    by (simp add: nth_Cons numeral_2_eq_2 split: nat.split)
  obtain s3 w3 where z: "z = (s3, w3)" by (rule prod.exhaust)
  have "may_run [Upload job t1, Finished, Finished] 0" by (auto simp: may_run_def nth_Cons split: nat.split)
  then obtain ts' y where fin: "run_threads c iter [0] ([Upload job t1, Finished, Finished], z) = (ts', y)"
    "getMeta (fst y) i = Some (m\<lparr>TouchedAt := t1\<rparr>)"
    using job by (auto simp: z wc_step_def writeChunk_commit_def Let_def getMeta_def)
  have "run_threads c iter (replicate 2 0 @ replicate 2 1 @ replicate 5 2) (map Start ?ops, (s, w))
      = ([Upload job t1, Finished, Finished], z)"
    using 2 run_threads_append [of c iter "replicate 2 0 @ replicate 2 1" "replicate 5 2"] 1 by (simp del: run_threads.simps)
  then show ?thesis
    by (intro exI conjI, assumption) (use cr(2) fin in \<open>simp_all add: getMeta_def del: run_threads.simps\<close>)
qed

theorem stale_upload_takes_over_witness:
  "\<exists>ts x ts' y. run_threads sample_codec (\<lambda>ks. ks) (replicate 2 0 @ replicate 2 1 @ replicate 5 2)
        (map Start [OpWriteChunk ''t'' 0 [7] 60, OpDelete ''t'', OpCreate ''t'' ''x'' ''z'' 3 False 61], one_chunk) = (ts, x)
    \<and> map_option From (getMeta (fst x) ''t'') = Some ''x''
    \<and> run_threads sample_codec (\<lambda>ks. ks) [0] (ts, x) = (ts', y)
    \<and> map_option From (getMeta (fst y) ''t'') = Some ''u''"
proof -
  obtain s w where x: "one_chunk = (s, w)" by fastforce
  have a: "live sample_codec (s, w)" "getMeta s ''t'' = Some (direct_meta ''t'' ''u'' ''v'' 1 False 5)"
    using one_chunk_live one_chunk_meta unfolding x by simp_all
  have c: "senderCount s ''x'' < maxTransfersPerSender" using one_chunk_others by (simp add: x)
  show ?thesis
    using stale_upload_takes_over [OF a, of 0 "''x''" "\<lambda>ks. ks" "[7]" 60 "''z''" 3 False 61] c
    unfolding x by (fastforce simp: direct_meta_def)
qed



end
