(* ===== verification/Burn.thy ===== *)
theory Burn
  imports Calm LinkBurn
begin

text \<open>
  Downloaders racing on a one-time link: whatever the interleaving of their marks and touches, and of
  operations on other transfers, the transfer goes once every chunk has been marked, and not before.
\<close>

subsection \<open>The threads of a link\<close>

definition marked :: "string \<Rightarrow> store_op list \<Rightarrow> thread list \<Rightarrow> int set" where
  "marked i ops ts = {k. \<exists>n < length ts. ops ! n = OpMarkServed i k \<and> \<not> not_begun (ts ! n)}"

lemma marked_start [simp]: "marked i ops (map Start ops) = {}"
  by (simp add: marked_def)

lemma marked_step:
  assumes "n < length ts" "\<not> not_begun t"
  shows "marked i ops (ts[n := t]) = marked i ops ts \<union> {k. ops ! n = OpMarkServed i k}"
  using assms by (auto simp: marked_def nth_list_update)

lemma marked_all:
  assumes "length ts = length ops" "list_all finished ts"
  shows "marked i ops ts = {k. OpMarkServed i k \<in> set ops}"
proof -
  have "\<not> not_begun t" if "finished t" for t using that by (cases t) simp_all
  then have "\<not> not_begun (ts ! n)" if "n < length ops" for n using assms that by (simp add: list_all_length)
  then show ?thesis using assms(1) by (auto simp: marked_def in_set_conv_nth)
qed

lemma step_begun: "thread_step c iter t x = (t', y) \<Longrightarrow> \<not> not_begun t'"
  using thread_step_less [of c iter t x t' y] thread_step_finished [of t c iter x]
  by (cases "finished t") (auto elim: not_begun.elims)

text \<open>The part an operation's thread can play for transfer \<open>i\<close>.\<close>

definition plays :: "string \<Rightarrow> store_op \<Rightarrow> thread \<Rightarrow> bool" where
  "plays i op t \<longleftrightarrow> (not_begun t \<longrightarrow> t = Start op)
     \<and> (if op_id op \<noteq> Some i then i \<notin> thread_ids t
        else t = Start op \<or> t = Finished
          \<or> (case op of
               OpTouch j now \<Rightarrow> \<exists>m. TransferID m = i \<and> t \<in> {TouchTmp m, TouchMeta m}
             | OpMarkServed j k \<Rightarrow> t \<in> {Forget [i], Purge i []}
             | _ \<Rightarrow> False))"

definition link_ok :: "string \<Rightarrow> int \<Rightarrow> store_op \<Rightarrow> bool" where
  "link_ok i n op \<longleftrightarrow> op_wf op \<and> (case op of
     OpTouch j now \<Rightarrow> True
   | OpMarkServed j k \<Rightarrow> j = i \<longrightarrow> 0 \<le> k \<and> k < n
   | _ \<Rightarrow> \<exists>j. op_id op = Some j \<and> j \<noteq> i)"

lemma plays_start: "link_ok i n op \<Longrightarrow> plays i op (Start op)"
  by (cases op) (auto simp: plays_def link_ok_def)

lemma plays_touch:
  "plays i (OpTouch i now) t \<Longrightarrow>
     t = Start (OpTouch i now) \<or> t = Finished \<or> (\<exists>m. TransferID m = i \<and> t \<in> {TouchTmp m, TouchMeta m})"
  by (simp add: plays_def)

lemma plays_mark: "plays i (OpMarkServed i k) t \<Longrightarrow> t \<in> {Start (OpMarkServed i k), Finished, Forget [i], Purge i []}"
  by (auto simp: plays_def)

text \<open>A step of one of them.\<close>

lemma plays_step:
  assumes "plays i op t" "link_ok i n op" "thread_step c iter t (s, w) = (t', (s', w'))" "tidy (s, w)" "thread_wf t"
  shows "plays i op t'"
proof -
  note k = thread_step_keeps [OF assms(4,5,3)]
  have b: "\<not> not_begun t'" using step_begun [OF assms(3)] .
  show ?thesis
  proof (cases "op_id op = Some i")
    case False
    then show ?thesis using assms(1) k b by (auto simp: plays_def)
  next
    case True
    then consider (touch) now where "op = OpTouch i now" | (mark) q where "op = OpMarkServed i q"
      using assms(2) by (cases op) (auto simp: link_ok_def)
    then show ?thesis
    proof cases
      case touch
      from plays_touch [OF assms(1) [unfolded touch]] have "t' = Finished \<or> (\<exists>m. TransferID m = i \<and> t' \<in> {TouchTmp m, TouchMeta m})"
      proof (elim disjE exE conjE)
        assume start: "t = Start (OpTouch i now)"
        show ?thesis
        proof (cases "mget (meta s) i")
          case (Some m)
          then have "TransferID m = i" using tidyD(2) [OF assms(4)] by (simp add: meta_wf_def)
          then show ?thesis using assms(3) start touch Some by auto
        qed (use assms(3) start touch in simp)
      next
        fix m assume "TransferID m = i" "t \<in> {TouchTmp m, TouchMeta m}"
        then show ?thesis using assms(3) by (auto simp: go_on_def split: prod.splits if_splits)
      qed (use assms(3) in simp)
      then show ?thesis using touch b by (simp add: plays_def)
    next
      case mark
      from plays_mark [OF assms(1) [unfolded mark]] have "t' \<in> {Finished, Forget [i], Purge i []}"
        using assms(3) by (auto simp: forget_next_def split: prod.splits if_splits)
      then show ?thesis using mark b by (auto simp: plays_def)
    qed
  qed
qed

subsection \<open>What has been served\<close>

text \<open>\<open>S0\<close> is what had been served when the threads started.\<close>

definition all_marked :: "string \<Rightarrow> transferMeta \<Rightarrow> int set \<Rightarrow> store_op list \<Rightarrow> thread list \<Rightarrow> bool" where
  "all_marked i m S0 ops ts \<longleftrightarrow> {0..<TotalChunks m} \<subseteq> S0 \<union> marked i ops ts"

definition link_run :: "string \<Rightarrow> transferMeta \<Rightarrow> int set \<Rightarrow> store_op list \<Rightarrow> thread list \<Rightarrow> store \<Rightarrow> bool" where
  "link_run i m S0 ops ts s \<longleftrightarrow>
     (case mget (meta s) i of
        None \<Rightarrow> all_marked i m S0 ops ts
      | Some m' \<Rightarrow> same_but_touch m m' \<and> (\<forall>xs. mget (served s) i = Some xs \<longrightarrow> distinct xs)
          \<and> served_set s i = S0 \<union> marked i ops ts \<and> (all_marked i m S0 ops ts \<longrightarrow> Forget [i] \<in> set ts))
     \<and> (Forget [i] \<in> set ts \<longrightarrow> all_marked i m S0 ops ts)"

lemma set_swap: "n < length ts \<Longrightarrow> ts ! n \<noteq> a \<Longrightarrow> t \<noteq> a \<Longrightarrow> a \<in> set (ts[n := t]) \<longleftrightarrow> a \<in> set ts"
  by (auto simp: in_set_conv_nth nth_list_update)

text \<open>A step that marks nothing and is not at \<open>Forget [i]\<close>.\<close>

lemma link_run_same:
  assumes "link_run i m S0 ops ts s" "n < length ts" "ts ! n \<noteq> Forget [i]" "t \<noteq> Forget [i]"
    "marked i ops (ts[n := t]) = marked i ops ts" "mget (served s') i = mget (served s) i"
    "mget (meta s') i = mget (meta s) i
     \<or> (\<exists>m1 m2. mget (meta s) i = Some m1 \<and> mget (meta s') i = Some m2 \<and> same_but_touch m1 m2)"
  shows "link_run i m S0 ops (ts[n := t]) s'"
proof -
  have eq: "all_marked i m S0 ops (ts[n := t]) = all_marked i m S0 ops ts" "served_set s' i = served_set s i"
    "Forget [i] \<in> set (ts[n := t]) \<longleftrightarrow> Forget [i] \<in> set ts"
    using assms(5,6) set_swap [OF assms(2-4)] by (simp_all add: all_marked_def served_set_def)
  from assms(7) show ?thesis
  proof (elim disjE exE conjE)
    assume "mget (meta s') i = mget (meta s) i"
    then show ?thesis using assms(1) unfolding link_run_def eq assms(5,6) by simp
  next
    fix m1 m2 assume "mget (meta s) i = Some m1" "mget (meta s') i = Some m2" "same_but_touch m1 m2"
    then show ?thesis using assms(1) same_but_touch_trans unfolding link_run_def eq assms(5,6) by fastforce
  qed
qed

lemma link_run_mark:
  assumes run: "link_run i m S0 ops ts s" and n: "n < length ts" "ts ! n = Start (OpMarkServed i k)" "ops ! n = OpMarkServed i k"
    and m: "Mode m = ''link''" "OneTime m" "0 \<le> k" "k < TotalChunks m" "S0 \<union> marked i ops ts \<subseteq> {0..<TotalChunks m}"
    and mark: "mark_served i k s = (burn, s')" and t: "t = (if burn then Forget [i] else Finished)"
  shows "link_run i m S0 ops (ts[n := t]) s'"
proof -
  have mk: "marked i ops (ts[n := t]) = insert k (marked i ops ts)" using marked_step [OF n(1), of t i ops] n(3) by (auto simp: t)
  have fin: "Forget [i] \<in> set (ts[n := t]) \<longleftrightarrow> burn \<or> Forget [i] \<in> set ts"
    using set_swap [OF n(1), of "Forget [i]" Finished] n(1,2) by (auto simp: t set_update_memI)
  show ?thesis
  proof (cases "mget (meta s) i")
    case None
    then have "\<not> burn" "s' = s" using mark by (simp_all add: mark_served_def)
    then show ?thesis using run None mk fin by (auto simp: link_run_def all_marked_def)
  next
    case (Some m')
    have f: "same_but_touch m m'" "\<And>xs. mget (served s) i = Some xs \<Longrightarrow> distinct xs" "served_set s i = S0 \<union> marked i ops ts"
      using run Some by (auto simp: link_run_def)
    note same = same_but_touch_fields [OF f(1)]
    note r = mark_served_local [OF Some _ _ _ f(2) _ mark]
    have b: "burn \<longleftrightarrow> insert k (served_set s i) = {0..<TotalChunks m}" "served_set s' i = insert k (served_set s i)"
      "\<And>xs. mget (served s') i = Some xs \<Longrightarrow> distinct xs" "meta s' = meta s"
      using r f(3) m same by auto
    have "all_marked i m S0 ops (ts[n := t]) \<longleftrightarrow> burn"
      using b(1) m(3-5) by (auto simp: all_marked_def mk f(3))
    moreover have "served_set s' i = S0 \<union> marked i ops (ts[n := t])" using b(2) by (simp add: mk f(3))
    moreover have "burn" if "Forget [i] \<in> set ts"
    proof -
      have "{0..<TotalChunks m} \<subseteq> S0 \<union> marked i ops ts" using run that by (simp add: link_run_def all_marked_def)
      then have "served_set s i = {0..<TotalChunks m}" using m(5) f(3) by (simp add: subset_antisym)
      then show ?thesis using b(1) m(3,4) by (simp add: insert_absorb)
    qed
    ultimately show ?thesis using Some f(1) b(3) fin unfolding link_run_def b(4) by auto
  qed
qed

text \<open>Any step, any interleaving.\<close>

lemma marked_range:
  assumes "\<forall>op \<in> set ops. link_ok i n op" "length ts = length ops"
  shows "marked i ops ts \<subseteq> {0..<n}"
  using assms by (fastforce simp: marked_def link_ok_def dest: nth_mem)

lemma link_run_step:
  assumes run: "link_run i m S0 ops ts s" and n: "n < length ts" "length ts = length ops"
    and m: "Mode m = ''link''" "OneTime m" "S0 \<subseteq> {0..<TotalChunks m}" "\<forall>op \<in> set ops. link_ok i (TotalChunks m) op"
    and plays: "plays i (ops ! n) (ts ! n)" and td: "tidy (s, w)" "thread_wf (ts ! n)"
    and step: "thread_step c iter (ts ! n) (s, w) = (t', (s', w'))"
  shows "link_run i m S0 ops (ts[n := t']) s'"
proof -
  have ok: "link_ok i (TotalChunks m) (ops ! n)" using m(4) n by simp
  note k = thread_step_keeps [OF td step]
  have mk: "marked i ops (ts[n := t']) = marked i ops ts \<union> {k. ops ! n = OpMarkServed i k}"
    using marked_step [OF n(1) step_begun [OF step]] .
  note same = link_run_same [OF run n(1)]
  show ?thesis
  proof (cases "op_id (ops ! n) = Some i")
    case False
    then have "i \<notin> thread_ids (ts ! n)" using plays by (simp add: plays_def)
    then have "same_transfer i s s'" "ts ! n \<noteq> Forget [i]" "t' \<noteq> Forget [i]" using k by (auto simp: confined_def)
    moreover from False have "{k. ops ! n = OpMarkServed i k} = {}" by auto
    ultimately show ?thesis using mk by (intro same) (simp_all add: same_transfer_def)
  next
    case True
    then consider (touch) now where "ops ! n = OpTouch i now" | (mark) q where "ops ! n = OpMarkServed i q" "0 \<le> q" "q < TotalChunks m"
      using ok by (cases "ops ! n") (auto simp: link_ok_def)
    then show ?thesis
    proof cases
      case touch
      have "(\<forall>ids. ts ! n \<noteq> Forget ids) \<and> (\<forall>ids. t' \<noteq> Forget ids)"
        using plays_touch [of i now] plays plays_step [OF plays ok step td] touch by (metis insert_iff empty_iff thread.distinct thread.simps)
      moreover have "served s' = served s \<and> (mget (meta s') i = mget (meta s) i
          \<or> (\<exists>m1 m2. mget (meta s) i = Some m1 \<and> mget (meta s') i = Some m2 \<and> same_but_touch m1 m2))"
        using plays_touch [of i now "ts ! n"] plays touch step
        by (cases "mget (meta s) i") (auto simp: go_on_def same_but_touch_id split: prod.splits if_splits)
      ultimately show ?thesis using mk touch by (intro same) auto
    next
      case mark
      have "ts ! n \<in> {Start (OpMarkServed i q), Finished, Forget [i], Purge i []}"
        using plays_mark plays mark(1) by metis
      then consider (start) "ts ! n = Start (OpMarkServed i q)" | (forget) "ts ! n = Forget [i]" | (other) "ts ! n \<in> {Finished, Purge i []}"
        by blast
      then show ?thesis
      proof cases
        case start
        obtain burn s1 where b: "mark_served i q s = (burn, s1)" by (rule prod.exhaust)
        show ?thesis using link_run_mark [OF run n(1) start mark(1) m(1,2) mark(2,3) _ b] step start b m(3) marked_range [OF m(4) n(2)]
          by simp
      next
        case forget
        then have "all_marked i m S0 ops ts" using run n(1) nth_mem unfolding link_run_def by metis
        moreover have "mget (meta s') i = None" using step forget by (auto simp: forget_def)
        ultimately show ?thesis using mk by (auto simp: link_run_def all_marked_def)
      next
        case other
        then have "q \<in> marked i ops ts" using n(1) mark(1) by (auto simp: marked_def)
        then have "marked i ops (ts[n := t']) = marked i ops ts" using mk mark(1) by auto
        moreover have "s' = s" "t' = Finished" using step other by (auto simp: forget_next_def)
        ultimately show ?thesis using other by (intro same) auto
      qed
    qed
  qed
qed

subsection \<open>Its directory\<close>

definition gone :: "string \<Rightarrow> store \<Rightarrow> world \<Rightarrow> bool" where
  "gone i s w \<longleftrightarrow> (\<forall>q. below (child (store_root s) i) q \<longrightarrow> mget (w_fs w) q = None)"

definition cleared :: "string \<Rightarrow> thread list \<Rightarrow> state \<Rightarrow> bool" where
  "cleared i ts x \<longleftrightarrow> (case x of (s, w) \<Rightarrow> w_faults w = []
     \<and> (mget (meta s) i = None \<longrightarrow> gone i s w \<or> Purge i [] \<in> set ts))"

lemma no_faultsD:
  assumes "w_faults w = []"
  shows "WriteFile p d w = (r, w1) \<Longrightarrow> w_faults w1 = []" "Rename p q w = (r, w1) \<Longrightarrow> w_faults w1 = []"
    "MkdirAll p w = (r, w1) \<Longrightarrow> w_faults w1 = []" "RemoveAll p w = (r, w1) \<Longrightarrow> w_faults w1 = []"
    "write_tmp c s m w = (r, w1) \<Longrightarrow> w_faults w1 = []" "rename_meta s m w = (r, w1) \<Longrightarrow> w_faults w1 = []"
proof -
  show wr: "WriteFile p d w = (r, w1) \<Longrightarrow> w_faults w1 = []" for p d r w1 using no_faults(1) [OF assms, of p d] by simp
  show rn: "Rename p q w = (r, w1) \<Longrightarrow> w_faults w1 = []" for p q r w1 using no_faults(2) [OF assms, of p q] by simp
  show "MkdirAll p w = (r, w1) \<Longrightarrow> w_faults w1 = []" using no_faults(3) [OF assms, of p] by simp
  show "RemoveAll p w = (r, w1) \<Longrightarrow> w_faults w1 = []" using no_faults(4) [OF assms, of p] by simp
  show "write_tmp c s m w = (r, w1) \<Longrightarrow> w_faults w1 = []" using assms wr by (auto simp: write_tmp_def split: option.splits)
  show "rename_meta s m w = (r, w1) \<Longrightarrow> w_faults w1 = []" using rn by (auto simp: rename_meta_def)
qed

lemma go_on_world: "go_on t s rw = (t', (s', w')) \<Longrightarrow> \<exists>r. rw = (r, w')"
  by (cases rw) (simp add: go_on_def)

lemma thread_step_no_faults:
  assumes nf: "w_faults w = []" and step: "thread_step c iter t (s, w) = (t', (s', w'))"
  shows "w_faults w' = []"
proof (cases t)
  case (Upload job now)
  obtain j1 s1 w1 where w1: "wc_step c now job (s, w) = (j1, (s1, w1))" by (metis prod_cases3)
  have "w_faults w1 = []"
  proof (cases "job_pc job")
    case (PcFile m)
    then show ?thesis using w1 no_faultsD(1) [OF nf] by (auto simp: wc_step_def Let_def split: prod.splits sum.splits)
  next
    case (PcTmp m)
    then show ?thesis using w1 nf no_faultsD(1) [OF nf]
      by (auto simp: wc_step_def Let_def split: prod.splits sum.splits option.splits)
  next
    case (PcRename m)
    then show ?thesis using w1 no_faultsD(2) [OF nf] by (auto simp: wc_step_def Let_def split: prod.splits)
  qed (use w1 nf in \<open>auto simp: wc_step_def Let_def\<close>)
  then show ?thesis using step Upload w1 by simp
next
  case (Purge j rest)
  then show ?thesis using step no_faults(4) [OF nf] by auto
qed (use step nf in \<open>auto dest!: go_on_world dest: no_faultsD split: prod.splits list.splits\<close>)

text \<open>A record's file cannot be written into a directory that is gone.\<close>

lemma gone_meta:
  assumes "gone i s w" "transferDir s i = child (store_root s) i" "TransferID m = i" "w_faults w = []"
  shows "w_fs (snd (write_tmp c s m w)) = w_fs w" "w_fs (snd (rename_meta s m w)) = w_fs w"
proof -
  have n: "mget (w_fs w) (child (store_root s) i) = None" "mget (w_fs w) (child (child (store_root s) i) n) = None" for n
    using assms(1) by (simp_all add: gone_def below_child_of)
  show "w_fs (snd (write_tmp c s m w)) = w_fs w"
    using assms n by (simp add: write_tmp_def WriteFile_def Let_def parent_errno_def path_simps split: option.split)
  show "w_fs (snd (rename_meta s m w)) = w_fs w"
    using assms n by (simp add: rename_meta_def Rename_def Let_def path_simps)
qed

lemma gone_step:
  assumes g: "gone i s w" and v: "validTransferID i" and plays: "plays i op t" "link_ok i n op" and td: "tidy (s, w)" "thread_wf t"
    and nf: "w_faults w = []" and step: "thread_step c iter t (s, w) = (t', (s', w'))"
  shows "gone i s' w'"
proof -
  note k = thread_step_keeps [OF td step]
  have root: "store_root s' = store_root s" using k by (simp add: confined_def same_config_def)
  have dir: "transferDir s i = child (store_root s) i" using tidyD(6) [OF td(1) v] .
  have same: "gone i s' w'" if "w_fs w' = w_fs w" using g that root by (simp add: gone_def)
  show ?thesis
  proof (cases "op_id op = Some i")
    case False
    then have i: "i \<notin> thread_ids t" using plays by (simp add: plays_def)
    have "mget (w_fs w') q = mget (w_fs w) q" if "below (child (store_root s) i) q" for q
    proof -
      have "\<forall>j \<in> thread_ids t. \<not> below (child (store_root s) j) q" using below_child_other [OF that] i by metis
      then show ?thesis using k by (simp add: confined_def)
    qed
    then show ?thesis using g root by (simp add: gone_def)
  next
    case True
    then consider (touch) now where "op = OpTouch i now" | (mark) q where "op = OpMarkServed i q"
      using plays(2) by (cases op) (auto simp: link_ok_def)
    then show ?thesis
    proof cases
      case touch
      from plays_touch [OF plays(1) [unfolded touch]] show ?thesis
      proof (elim disjE exE conjE)
        fix m assume "TransferID m = i" "t \<in> {TouchTmp m, TouchMeta m}"
        then show ?thesis using step gone_meta [OF g dir _ nf, of m] by (intro same) (auto dest!: go_on_world, (metis snd_conv)+)
      qed (use step in \<open>auto intro!: same split: option.splits\<close>)
    next
      case mark
      have shrinks: "gone i s' (snd (RemoveAll p w))" for p
        using g root RemoveAll_shrinks [of p w] unfolding gone_def by metis
      from plays_mark [OF plays(1) [unfolded mark]] show ?thesis
        unfolding insert_iff empty_iff by (elim disjE) (use step same shrinks in \<open>auto split: prod.splits\<close>)
    qed
  qed
qed

text \<open>Only \<open>Forget\<close> takes the record out.\<close>

lemma record_dropped:
  assumes plays: "plays i op t" "link_ok i n op" and td: "tidy (s, w)" "thread_wf t"
    and step: "thread_step c iter t (s, w) = (t', (s', w'))" and drop: "mget (meta s) i \<noteq> None" "mget (meta s') i = None"
  shows "t' = Purge i []"
proof (cases "op_id op = Some i")
  case False
  then have "same_transfer i s s'"
    using plays(1) thread_step_keeps [OF td step] by (simp add: plays_def confined_def)
  then show ?thesis using drop by (simp add: same_transfer_def)
next
  case True
  then consider (touch) now where "op = OpTouch i now" | (mark) q where "op = OpMarkServed i q"
    using plays(2) by (cases op) (auto simp: link_ok_def)
  then show ?thesis
  proof cases
    case touch
    from plays_touch [OF plays(1) [unfolded touch]] have False
      using step drop by (elim disjE exE conjE) (auto simp: go_on_def split: option.splits prod.splits)
    then show ?thesis ..
  next
    case mark
    have meta: "mark_served i q s = (b, s1) \<Longrightarrow> meta s1 = meta s" for b s1
      by (auto simp: mark_served_def Let_def split: option.splits if_splits)
    from plays_mark [OF plays(1) [unfolded mark]] show ?thesis
      unfolding insert_iff empty_iff by (elim disjE) (use step drop meta in \<open>auto simp: forget_def split: prod.splits\<close>)
  qed
qed

lemma cleared_step:
  assumes cl: "cleared i ts (s, w)" and n: "n < length ts" and v: "validTransferID i"
    and plays: "plays i op (ts ! n)" "link_ok i N op" and td: "tidy (s, w)" "thread_wf (ts ! n)"
    and step: "thread_step c iter (ts ! n) (s, w) = (t', (s', w'))"
  shows "cleared i (ts[n := t']) (s', w')"
proof -
  have nf: "w_faults w = []" using cl by (simp add: cleared_def)
  have "gone i s' w' \<or> Purge i [] \<in> set (ts[n := t'])" if none: "mget (meta s') i = None"
  proof (cases "mget (meta s) i = None")
    case False
    then have "t' = Purge i []" using record_dropped [OF plays td step] none by blast
    then show ?thesis using n by (simp add: set_update_memI)
  next
    case True
    then consider (gone) "gone i s w" | (now) "ts ! n = Purge i []" | (later) "Purge i [] \<in> set ts" "ts ! n \<noteq> Purge i []"
      using cl by (auto simp: cleared_def)
    then show ?thesis
    proof cases
      case gone
      then show ?thesis using gone_step [OF gone v plays td nf step] by blast
    next
      case now
      then have "gone i s' w'"
        using step RemoveAll_ok [OF nf, of "child (store_root s) i"] tidyD(6) [OF td(1) v] by (auto simp: gone_def)
      then show ?thesis ..
    next
      case later
      then show ?thesis using set_swap [OF n later(2), of t'] n by (cases "t' = Purge i []") (auto simp: set_update_memI)
    qed
  qed
  then show ?thesis using thread_step_no_faults [OF nf step] by (simp add: cleared_def)
qed

text \<open>All of it, along a run.\<close>

definition link_inv :: "string \<Rightarrow> transferMeta \<Rightarrow> int set \<Rightarrow> store_op list \<Rightarrow> thread list \<Rightarrow> state \<Rightarrow> bool" where
  "link_inv i m S0 ops ts x \<longleftrightarrow> tidy x \<and> list_all thread_wf ts \<and> list_all2 (plays i) ops ts \<and> link_run i m S0 ops ts (fst x)"

lemma run_threads_link:
  "run_threads c iter sched (ts, x) = (ts', x') \<Longrightarrow> link_inv i m S0 ops ts x \<Longrightarrow> Mode m = ''link'' \<Longrightarrow> OneTime m \<Longrightarrow>
     S0 \<subseteq> {0..<TotalChunks m} \<Longrightarrow> \<forall>op \<in> set ops. link_ok i (TotalChunks m) op \<Longrightarrow> validTransferID i \<Longrightarrow>
     link_inv i m S0 ops ts' x' \<and> (cleared i ts x \<longrightarrow> cleared i ts' x')"
proof (induction c iter sched "(ts, x)" arbitrary: ts x rule: run_threads.induct)
  case (2 c iter n sched ts x)
  show ?case
  proof (cases "may_run ts n")
    case True
    obtain s w where x: "x = (s, w)" by (rule prod.exhaust)
    obtain t s1 w1 where st: "thread_step c iter (ts ! n) x = (t, (s1, w1))" by (metis prod_cases3)
    note sx = st [unfolded x]
    have inv: "tidy (s, w)" "list_all thread_wf ts" "list_all2 (plays i) ops ts" "link_run i m S0 ops ts s"
      using "2.prems"(2) by (simp_all add: link_inv_def x)
    have len: "length ts = length ops" using inv(3) by (simp add: list_all2_lengthD)
    then have n: "n < length ts" "n < length ops" using True by (simp_all add: may_run_def)
    have p: "plays i (ops ! n) (ts ! n)" "link_ok i (TotalChunks m) (ops ! n)" "thread_wf (ts ! n)"
      using inv(2,3) "2.prems"(6) n by (simp_all add: list_all2_conv_all_nth list_all_length)
    note k = thread_step_keeps [OF inv(1) p(3) sx]
    have "link_run i m S0 ops (ts[n := t]) s1"
      by (rule link_run_step [OF inv(4) n(1) len "2.prems"(3-6) p(1) inv(1) p(3) sx])
    moreover have "list_all2 (plays i) ops (ts[n := t])"
      using inv(3) plays_step [OF p(1,2) sx inv(1) p(3)] n len by (simp add: list_all2_conv_all_nth nth_list_update)
    ultimately have "link_inv i m S0 ops (ts[n := t]) (s1, w1)"
      using k list_all_update [OF inv(2)] by (simp add: link_inv_def)
    moreover have "run_threads c iter sched (ts[n := t], (s1, w1)) = (ts', x')" using "2.prems"(1) True st by simp
    moreover have "cleared i ts x \<longrightarrow> cleared i (ts[n := t]) (s1, w1)"
      using cleared_step [OF _ n(1) "2.prems"(7) p(1,2) inv(1) p(3) sx] by (simp add: x)
    ultimately show ?thesis using "2.hyps"(1) [OF True st [symmetric]] "2.prems"(3-7) by blast
  qed (use 2 in simp)
qed simp

end
