(* ===== verification/BurnProps.thy ===== *)
theory BurnProps
  imports Burn ThreadProps LinkProps
begin

text \<open>
  One-time links under concurrency: the property of \<open>markLinkChunkServed\<close> that its comment claims for
  two downloaders racing on the same link.
\<close>

text \<open>C0: (safety) Racing downloads burn a one-time link, and nothing else does. Let any number of downloaders mark chunks
  of a one-time link and touch it at once, in any interleaving, with other goroutines working on other transfers, on a
  disk that may fail: when all are done, the transfer is out of memory exactly if every chunk of it has been served,
  by whomever, and on a disk that works its directory is gone too.\<close>

theorem racing_downloads_burn:
  assumes lv: "live c (s, w)" and m: "getMeta s i = Some m" "Mode m = ''link''" "OneTime m"
    and ops: "\<forall>op \<in> set ops. link_ok i (TotalChunks m) op"
    and run: "run_threads c iter sched (map Start ops, (s, w\<lparr>w_faults := faults\<rparr>)) = (ts, (s', w'))"
    and fin: "list_all finished ts"
  shows "(getMeta s' i = None \<longleftrightarrow> {0..<TotalChunks m} \<subseteq> served_set s i \<union> {k. OpMarkServed i k \<in> set ops})
    \<and> (faults = [] \<and> getMeta s' i = None \<longrightarrow> (\<forall>q. below (transferDir s i) q \<longrightarrow> mget (w_fs w') q = None))"
proof -
  let ?x = "(s, w\<lparr>w_faults := faults\<rparr>)" and ?S = "served_set s i"
  note td = live_tidy [OF lv, of faults]
  have ms: "mget (meta s) i = Some m" using m(1) by (simp add: getMeta_def)
  have inv: "store_inv s" using lv by (simp add: live_def state_inv_def)
  have v: "validTransferID i" using tidyD(2) [OF td ms] by (simp add: meta_wf_def)
  have S: "?S \<subseteq> {0..<TotalChunks m}" "?S \<noteq> {0..<TotalChunks m}" using served_not_all [OF inv ms] m(3) by simp_all
  have "list_all thread_wf (map Start ops)" using ops by (simp add: list_all_iff link_ok_def)
  moreover have "list_all2 (plays i) ops (map Start ops)" using ops plays_start by (fastforce simp: list_all2_conv_all_nth)
  moreover have "link_run i m ?S ops (map Start ops) s"
    using ms S served_in_range(1) [OF inv ms] by (auto simp: link_run_def all_marked_def)
  ultimately have r: "link_inv i m ?S ops ts (s', w') \<and> (cleared i (map Start ops) ?x \<longrightarrow> cleared i ts (s', w'))"
    using run_threads_link [OF run _ m(2,3) S(1) ops v] td by (simp add: link_inv_def)
  have none: "Forget ids \<notin> set ts" "Purge j rest \<notin> set ts" for ids j rest using fin by (auto simp: list_all_iff)
  have "length ts = length ops" using r by (auto simp: link_inv_def dest: list_all2_lengthD)
  note mk = marked_all [OF this fin, of i]
  have "getMeta s' i = None \<longleftrightarrow> {0..<TotalChunks m} \<subseteq> ?S \<union> {k. OpMarkServed i k \<in> set ops}"
    using r none(1) by (auto simp: link_inv_def link_run_def all_marked_def mk getMeta_def split: option.splits)
  moreover have "mget (w_fs w') q = None" if "faults = []" "getMeta s' i = None" "below (transferDir s i) q" for q
  proof -
    have "cleared i (map Start ops) ?x" using that(1) ms by (simp add: cleared_def)
    then have "gone i s' w'" using r none(2) that(2) by (auto simp: cleared_def getMeta_def)
    moreover have "store_root s' = store_root s"
      using threads_config [OF run td] ops by (simp add: same_config_def link_ok_def list_all_iff)
    ultimately show ?thesis using that(3) tidyD(6) [OF td v] by (simp add: gone_def)
  qed
  ultimately show ?thesis by blast
qed

text \<open>Two downloaders of a link with one chunk.\<close>

theorem racing_downloads_burn_witness:
  "\<exists>K ts s' w'. run_threads sample_codec (\<lambda>ks. ks) (map (\<lambda>k. k mod 3) [0..<K])
        (map Start [OpMarkServed ''l'' 0, OpTouch ''l'' 9, OpMarkServed ''l'' 0], one_link) = (ts, (s', w'))
    \<and> getMeta s' ''l'' = None \<and> getMeta (fst one_link) ''l'' \<noteq> None"
proof -
  let ?ops = "[OpMarkServed ''l'' 0, OpTouch ''l'' 9, OpMarkServed ''l'' 0]"
  obtain s w where x: "one_link = (s, w)" by (rule prod.exhaust)
  have lv: "live sample_codec (s, w)" and m: "getMeta s ''l'' = Some link_entry" using one_link_run(1) one_link_facts(3) unfolding x by simp_all
  have "length (map Start ?ops) = 3" by simp
  then have "fair (\<lambda>k. k mod 3) (length (map Start ?ops))" by (simp only: fair_turns)
  then obtain K where fin: "list_all finished (fst (run_threads sample_codec (\<lambda>ks. ks) (map (\<lambda>k. k mod 3) [0..<K]) (map Start ?ops, (s, w))))"
    using fair_finish [OF _ one_holder_start] by blast
  obtain ts s' w' where run: "run_threads sample_codec (\<lambda>ks. ks) (map (\<lambda>k. k mod 3) [0..<K]) (map Start ?ops, (s, w)) = (ts, (s', w'))"
    by (metis prod_cases3)
  have "\<forall>op \<in> set ?ops. link_ok ''l'' (TotalChunks link_entry) op" by (simp add: link_ok_def)
  moreover have "run_threads sample_codec (\<lambda>ks. ks) (map (\<lambda>k. k mod 3) [0..<K]) (map Start ?ops, (s, w\<lparr>w_faults := []\<rparr>)) = (ts, (s', w'))"
    using run live_faultless [OF lv] by simp
  moreover have "list_all finished ts" using fin run by simp
  ultimately have "getMeta s' ''l'' = None" using racing_downloads_burn [OF lv m] by fastforce
  then show ?thesis using m run unfolding x by auto
qed

end
