(* ===== verification/Spec2Isabelle.thy ===== *)
theory Spec2Isabelle
  imports StoreProps WsProps AuthProps DispatchProps ProtocolProps LinkLife LogSink RaceProps ThreadProps BurnProps
begin

text \<open>
  A verification of the bitphase file-share server (the Go program under \<open>src/\<close>): a store-and-forward
  server for encrypted files.  Clients hold X25519 identities, prove them over a WebSocket connection together
  with an access token of the broker, and upload, list and download transfers in chunks; a public HTTP surface
  shares a transfer under an unguessable link.  The server sees ciphertext only.

  \<^bold>\<open>The program's parts and their theories.\<close>  Each theory models the named functions under their own names; a
  name that clashes with a library constant or has a Go qualifier gets a suffix or prefix (\<open>open_aead\<close> for
  \<open>open\<close>, \<open>set_key\<close> for \<open>brokerKeySource.set\<close>, \<open>ws_Close\<close>, \<open>rf_Write\<close>, \<open>on_chunk\<close> for the case \<open>chunk\<close> of \<open>dispatch\<close>).

  \<^item> \<open>Prelude\<close>, \<open>GoStrings\<close>, \<open>GoEncoding\<close>, \<open>Hash\<close>, \<open>FileSys\<close>: what the program uses of Go and its standard
    library.  Errors are values of \<open>go_error\<close>, results \<open>go_error + 'a\<close>; a map is an association list of distinct
    keys, and ranging over it takes an arbitrary permutation of the keys; strings are bytes; \<open>Atoi\<close>, \<open>Itoa\<close>, \<open>Cut\<close>,
    base64 (both alphabets, strict decoding as Go does it), SHA-1, SHA-256 and HMAC are computed.  The disk is a tree of
    files and directories (\<open>w_fs\<close>) and a list of faults (\<open>w_faults\<close>): every call consumes one fault, which may make it
    fail before, half way through, or not at all.
  \<^item> \<open>Store\<close> (\<open>store.go\<close>): the store's record, transfer records, every operation and \<open>newStore\<close>.  \<open>StoreInv\<close>,
    \<open>StoreOps\<close>: the invariant \<open>state_inv\<close> and that every operation keeps it and writes only below the transfer's
    directory, under all faults.  \<open>StoreDisk\<close>, \<open>StoreExact\<close>, \<open>StoreRestart\<close>: what is on disk (\<open>durable\<close> under any
    faults; \<open>exact\<close> on a disk that works) and what \<open>loadExisting\<close> makes of it.  \<open>StoreSpec\<close>, \<open>StoreRefine\<close>: the
    abstract store, a map from ids to record, chunks and served indices, and the simulation.  \<open>StoreResume\<close>: uploads
    with restarts between them.
  \<^item> \<open>Concurrency\<close>, \<open>Uploads\<close>: \<open>writeChunk\<close> as the steps between its critical sections, and any number of
    uploads interleaved by a schedule.  \<open>Threads\<close>: every operation that changes the store as such a thread, with the
    mutex, and what no interleaving of them can do.  \<open>Progress\<close>: one thread holds the mutex at a time, and under a
    fair schedule all finish.  \<open>Calm\<close>: when the invariant of the maps survives the interleaving.  \<open>Parallel\<close>: threads on
    different transfers do what each does alone.  \<open>Burn\<close>: downloaders racing on a one-time link.
  \<^item> \<open>WsFrame\<close>, \<open>WsMessage\<close>, \<open>WsHandshake\<close> (\<open>ws.go\<close>): frames at byte level, reassembly of messages, the opening
    handshake of both sides.  A connection is its input, output, randomness and the point where writing fails.
  \<^item> \<open>Token\<close> (\<open>token.go\<close>), \<open>Crypto\<close> (\<open>crypto.go\<close>), \<open>Delegate\<close> (\<open>delegate.go\<close>), \<open>Types\<close> (\<open>types.go\<close>).
  \<^item> \<open>WsServer\<close> (\<open>server.go\<close>): \<open>authenticate\<close>, \<open>dispatch\<close> with one definition per message type, the session loop.
    \<open>WsAuth\<close>, \<open>WsDispatch\<close>, \<open>WsSession\<close>, \<open>WsTransfer\<close>, \<open>WsResume\<close>, \<open>WsHandler\<close>: soundness and completeness of the handshake,
    what each message changes and answers, whole sessions, \<open>handleWS\<close>.
  \<^item> \<open>LinkServer\<close>, \<open>LinkBurn\<close> (\<open>server.go\<close>): the HTTP handlers of the link surface.  \<open>Logging\<close> (\<open>logging.go\<close>):
    the rotating log file, and in \<open>LogSink\<close> the logger that writes to it and to standard output.  \<open>MainProg\<close>
    (\<open>main.go\<close>): the flags, start-up, routing, the sweep.
  \<^item> \<open>Protocol\<close> (\<open>types.go\<close>): the table of message types as types of what the server sends, and that \<open>dispatch\<close>,
    \<open>authenticate\<close> and the session loop send nothing else.
  \<^item> \<open>Effects\<close>, \<open>System\<close>: the store as a machine its clients drive, and the running server as a step relation whose
    events are connections, messages, link requests, sweeps, key refreshes and token expiries in any order.
  \<^item> \<open>Instances\<close>: concrete parameters and states for the witnesses.  \<open>StoreProps\<close>, \<open>WsProps\<close>, \<open>AuthProps\<close>,
    \<open>DispatchProps\<close>, \<open>ProtocolProps\<close>, \<open>LinkProps\<close>, \<open>LinkLife\<close>, \<open>LogProps\<close>, \<open>LogSink\<close>, \<open>RaceProps\<close>, \<open>ThreadProps\<close>, \<open>BurnProps\<close> and this theory: the properties, each with a witness at a
    concrete input where it has hypotheses.

  \<^bold>\<open>Interfaces.\<close>  \<open>guarded_machine\<close> (a step function with guards and an invariant) is interpreted for the store's
  operations and for the key refresh; \<open>chunk_store\<close> (what the handlers rely on in a store) for the model of \<open>store.go\<close>;
  \<open>recoverable_store\<close> extends it with a restart, for \<open>newStore\<close> on the same directory.

  \<^bold>\<open>Parameters.\<close>  Code that is not in the repository is an argument, with its documented laws as named hypotheses:
  the JSON coding of \<open>transferMeta\<close> (\<open>meta_codec_ok\<close>: what was written reads back), of the envelopes and of the link
  requests (decoded integers fit 64 bits, in \<open>deps_ok\<close>), X25519, AES-GCM and Ed25519 (\<open>crypto_laws\<close>: both sides of the
  key agreement get the same secret, what is sealed opens), the clock, \<open>crypto/rand\<close>, the order of map iteration
  (\<open>map_iteration\<close>: a permutation), the network and the broker's answers (anything).

  \<^bold>\<open>Bounds and fuel.\<close>  \<open>read_loop\<close>, \<open>hkdf_loop\<close> and \<open>read_headers\<close> are total, with measures on the input left or the
  output missing.  \<open>session_run\<close> and \<open>handleWS\<close> take the readings of the clock, one per turn; each turn takes at
  least a byte off the connection, so more readings than bytes are enough (\<open>handleWS_terminates\<close>).  \<open>wc_steps\<close>
  takes a number of steps; four are enough (\<open>upload_steps_sequential\<close>).  \<open>run_threads\<close> follows a schedule, a list
  of turns; that the threads need only finitely many of a fair one is \<open>threads_finish\<close>.

  \<^bold>\<open>Not modelled.\<close>  The JSON codecs, the formatting of \<open>slog\<close>'s handler and \<open>time.ParseDuration\<close> (parameters);
  \<open>ListenAndServe\<close> and HTTP headers other than CORS; the transports of \<open>dialWebSocket\<close> and of the delegate certificate
  (their results are inputs); the operating system's file permissions.  Of the log lines, those of the key refresh
  are modelled (\<open>newDelegate_log\<close>, \<open>refresh_log\<close>); the others are the logger's input.  \<open>log.Fatal\<close> ends the process without running the
  deferred \<open>closeLogging\<close>, so \<open>run_main\<close> does not call it.  Concurrency is modelled in the store: its operations are
  cut where they do not hold the mutex or use the disk.  In the running server (\<open>System\<close>) a message, a link request or a sweep
  is one step, and the reads of the store, which change nothing, are not threads.
\<close>

subsection \<open>The whole server\<close>

text \<open>The configuration the running server has from its flags.\<close>

definition conf_of :: "deps \<Rightarrow> (bytes \<Rightarrow> delegateCertBody option) \<Rightarrow> flags \<Rightarrow> sconf" where
  "conf_of d decCert fl =
     \<lparr>cf_deps = d, cf_minTier = fl_minTier fl,
      cf_root = (if fl_brokerRoot fl = [] then None else unb64 (fl_brokerRoot fl)),
      cf_pub = (case unb64 (fl_brokerPub fl) of None \<Rightarrow> [] | Some pub \<Rightarrow> pub), cf_decCert = decCert\<rparr>"

definition started :: "brokerKeySource \<Rightarrow> state \<Rightarrow> server" where
  "started ks x = \<lparr>sv_keys = ks, sv_store = x, sv_sessions = []\<rparr>"

lemma started_inv:
  assumes "start_server d decCert fl got now w = Inr (ks, x)" "0 < now" "state_inv x"
  shows "sys_inv (conf_of d decCert fl) (started ks x)"
proof -
  note k = start_server_keys [OF assms(1,2)]
  have "keys_ok (conf_of d decCert fl) ks"
  proof (cases "fl_brokerRoot fl = []")
    case True
    then have "ks = newStaticKeySource (ks_pub ks)" using k by (simp add: newStaticKeySource_def)
    then show ?thesis using k True by (simp add: keys_ok_def conf_of_def)
  next
    case False
    then show ?thesis using k by (auto simp: keys_ok_def conf_of_def)
  qed
  then show ?thesis using assms(3) by (simp add: sys_inv_def started_def)
qed

text \<open>C2: (invariant) From a start on a sound data directory, whatever connections, messages, link requests, sweeps, key
  refreshes and token expiries follow, in whatever order: the store keeps its invariant, and every open session
  belongs to an identity that has shown a token of the required tier and full plan, signed by the configured broker key
  or, with a pinned root, by a key certified by that root.\<close>

theorem server_stays_safe:
  assumes "start_server d decCert fl got now w = Inr (ks, x)" "0 < now" "state_inv x" "deps_ok d"
    "sys_reach (conf_of d decCert fl) (started ks x) sv"
  shows "state_inv (sv_store sv)
    \<and> (\<forall>k ss. mget (sv_sessions sv) k = Some ss \<longrightarrow> entitled (conf_of d decCert fl) ss)"
proof -
  have "deps_ok (cf_deps (conf_of d decCert fl))" using assms(4) by (simp add: conf_of_def)
  from sys_reach_inv [OF assms(5) this started_inv [OF assms(1-3)]] show ?thesis by (simp add: sys_inv_def)
qed

theorem server_stays_safe_witness:
  "\<exists>s sv. start_server sample_deps cert_dec sample_flags (Inl ErrNet) 10 sample_world
      = Inr (newStaticKeySource sample_key, (s, sample_world))
    \<and> sys_step (conf_of sample_deps cert_dec sample_flags) (EvSweep 20) (started (newStaticKeySource sample_key) (s, sample_world)) sv
    \<and> state_inv (sv_store sv)"
proof -
  obtain s where s: "newStore sample_codec ''/d'' 100 sample_world = (Inr s, sample_world)" "live sample_codec (s, sample_world)"
    using restart_live [OF sample_live] by (auto simp: sample_store_def empty_store_def)
  obtain s2 where "start_server sample_deps cert_dec sample_flags (Inl ErrNet) 10 sample_world
      = Inr (newStaticKeySource sample_key, (s2, sample_world))" using sample_starts by blast
  moreover from this have "s2 = s"
    using s(1) by (auto simp: start_server_def sample_flags_def sample_deps_def split: sum.splits if_splits)
  ultimately have st: "start_server sample_deps cert_dec sample_flags (Inl ErrNet) 10 sample_world
      = Inr (newStaticKeySource sample_key, (s, sample_world))" by simp
  let ?cf = "conf_of sample_deps cert_dec sample_flags"
  let ?sv0 = "started (newStaticKeySource sample_key) (s, sample_world)"
  obtain sv where step: "sys_step ?cf (EvSweep 20) ?sv0 sv" using sys_step.Sweep by blast
  have "sys_reach ?cf ?sv0 sv" using sys_reach.Step [OF sys_reach.Start step] .
  from server_stays_safe [OF st _ _ sample_deps_ok this] live_parts(1) [OF s(2)] st step show ?thesis by auto
qed

text \<open>C3: (safety) Who changes what. If an event of the server changes or removes an existing transfer (record or
  chunks), then it is a message of a session whose identity is the transfer's sender or recipient; or a request on a
  link, naming it, that shows its manage token or downloads a chunk of it; or a sweep, and the transfer has not been
  touched for longer than the time to live.\<close>

theorem changes_are_authorised:
  assumes "deps_ok (cf_deps cf)" "sys_inv cf sv" "sys_step cf ev sv sv'"
    "abs_state (sv_store sv) j = Some (m, f)" "abs_state (sv_store sv') j \<noteq> Some (m, f)"
  shows "(\<exists>k now ss. ev = EvTurn k now \<and> mget (sv_sessions sv) k = Some ss \<and> ss_user ss \<in> {From m, To m})
    \<or> (\<exists>rq t rnd k. ev = EvLink rq t rnd \<and> Mode m = ''link''
        \<and> (mux_route (rq_method rq) (rq_path rq) \<in> {ToChunkUpload j k, ToDelete j} \<and> rq_manage rq = ManageToken m
           \<or> mux_route (rq_method rq) (rq_path rq) = ToChunkDownload j k))
    \<or> (\<exists>now. ev = EvSweep now \<and> TouchedAt m < now - ttl (fst (sv_store sv)))"
  using change_authorised [OF assms]
  by (cases "(cf, sv, ev, j, m)" rule: authorised.cases) (auto split: route.splits)

theorem changes_are_authorised_witness:
  "\<exists>sv'. sys_step (conf_of sample_deps cert_dec sample_flags) (EvSweep 500)
      (started (newStaticKeySource sample_key) one_chunk) sv'
    \<and> abs_state (sv_store sv') ''t'' = None
    \<and> TouchedAt (direct_meta ''t'' ''u'' ''v'' 1 False 5) < 500 - ttl (fst one_chunk)"
proof -
  let ?cf = "conf_of sample_deps cert_dec sample_flags"
  let ?sv = "started (newStaticKeySource sample_key) one_chunk"
  let ?m = "direct_meta ''t'' ''u'' ''v'' 1 False 5"
  have inv: "state_inv one_chunk" using live_parts(1) [OF one_chunk_live] .
  then have si: "sys_inv ?cf ?sv"
    by (simp add: sys_inv_def keys_ok_def conf_of_def started_def sample_flags_def)
  have step: "sys_step ?cf (EvSweep 500) ?sv (?sv\<lparr>sv_store := sweepOnce sample_deps 500 one_chunk\<rparr>)"
    using sys_step.Sweep [of ?cf 500 ?sv] by (simp add: conf_of_def started_def)
  have old: "abs_state one_chunk ''t'' = Some (?m, Map.empty)"
    using fun_cong [OF one_chunk_spec, of "''t''"] by (simp add: spec_of_Some)
  have ttl: "ttl (fst one_chunk) = 100"
    by (simp add: one_chunk_def step_ttl int64_range_def)
  obtain s w where x: "one_chunk = (s, w)" by fastforce
  obtain s' w' where sw: "sweep (\<lambda>ks. ks) 500 s w = (s', w')" by fastforce
  have swept: "sweepOnce sample_deps 500 one_chunk = (s', w')"
    using sw by (simp add: sweepOnce_def x sample_deps_def)
  have gone: "abs_state (s', w') ''t'' = None"
    using sweep_refines [OF inv [unfolded x] _ sw] old ttl by (simp add: x direct_meta_def)
  from changes_are_authorised [OF _ si step, of "''t''" ?m Map.empty] step gone old ttl show ?thesis
    by (auto simp: conf_of_def started_def swept direct_meta_def)
qed

end
